(* ===== verification/Prelude.thy ===== *)
theory Prelude
  imports Main "HOL-Library.Word" "HOL-Library.Signed_Division"
begin

text \<open>
  Shared vocabulary of the development: the machine types of the C++ sources, the
  exceptions they raise, the type of computations that may throw or never return, and
  the generic facts on words, lists and maps that the component theories use.
\<close>

unbundle bit_operations_syntax

section \<open>Machine types\<close>

type_synonym byte = "8 word"
type_synonym bytes = "byte list"
type_synonym u32 = "32 word"
type_synonym u64 = "64 word"
type_synonym i32 = "32 word"
type_synonym i64 = "64 word"

section \<open>Exceptions and computations\<close>

text \<open>
  The exceptions of the sources. \<open>Undefined_behaviour\<close> stands for a step to which the
  C++ standard gives no meaning (a null pointer dereferenced, an element of a constant
  json object that does not exist); a model that reaches it says so instead of going on.
\<close>

datatype exn =
    Invalid_argument string
  | Runtime_error string
  | Overflow_error string
  | Out_of_range string
  | Json_type_error
  | Json_parse_error
  | Library_error string
  | Undefined_behaviour string

text \<open>
  A computation: \<open>None\<close> when it never returns, \<open>Some (Inl e)\<close> when it throws \<open>e\<close>,
  \<open>Some (Inr x)\<close> when it returns \<open>x\<close>.
\<close>

type_synonym 'a comp = "(exn + 'a) option"

definition ret :: "'a \<Rightarrow> 'a comp" where
  "ret x = Some (Inr x)"

definition throw :: "exn \<Rightarrow> 'a comp" where
  "throw e = Some (Inl e)"

definition cbind :: "'a comp \<Rightarrow> ('a \<Rightarrow> 'b comp) \<Rightarrow> 'b comp" where
  "cbind m f = (case m of None \<Rightarrow> None | Some (Inl e) \<Rightarrow> Some (Inl e) | Some (Inr x) \<Rightarrow> f x)"

text \<open>Sequencing of computations that always return or throw.\<close>

definition rbind :: "exn + 'a \<Rightarrow> ('a \<Rightarrow> exn + 'b) \<Rightarrow> exn + 'b" where
  "rbind m f = (case m of Inl e \<Rightarrow> Inl e | Inr x \<Rightarrow> f x)"

lemma cbind_simps [simp]:
  "cbind None f = None"
  "cbind (Some (Inl e)) f = Some (Inl e)"
  "cbind (Some (Inr x)) f = f x"
  "cbind (ret x) f = f x"
  "cbind (throw e) f = throw e"
  by (simp_all add: cbind_def ret_def throw_def)

lemma ret_throw_distinct [simp]:
  "ret x \<noteq> throw e" "throw e \<noteq> ret x" "ret x \<noteq> None" "throw e \<noteq> None"
  "None \<noteq> ret x" "None \<noteq> throw e"
  "(ret x = ret y) = (x = y)" "(throw e = throw e') = (e = e')"
  by (simp_all add: ret_def throw_def)

text \<open>A result that always returns or throws, as a computation.\<close>

definition lift_result :: "exn + 'a \<Rightarrow> 'a comp" where
  "lift_result m = Some m"

lemma lift_result_simps [simp]:
  "lift_result (Inl e) = throw e"
  "lift_result (Inr x) = ret x"
  by (simp_all add: lift_result_def ret_def throw_def)

lemma lift_result_iff [simp]:
  "lift_result m = ret y \<longleftrightarrow> m = Inr y"
  "lift_result m = throw e \<longleftrightarrow> m = Inl e"
  "lift_result m \<noteq> None"
  by (simp_all add: lift_result_def ret_def throw_def)

lemma cbind_ret_iff: "cbind m f = ret y \<longleftrightarrow> (\<exists>x. m = ret x \<and> f x = ret y)"
  by (auto simp: cbind_def ret_def split: option.splits sum.splits)

lemma cbind_mono [partial_function_mono]:
  assumes "mono_option (\<lambda>f. B f)" "\<And>x. mono_option (\<lambda>f. C x f)"
  shows "mono_option (\<lambda>f. cbind (B f) (\<lambda>x. C x f))"
proof (rule monotoneI)
  fix f g :: "'a \<Rightarrow> 'b option"
  assume fg: "fun_ord option_ord f g"
  have "option_ord (B f) (B g)" "option_ord (C x f) (C x g)" for x
    using assms fg by (auto dest: monotoneD)
  then have o: "B f = None \<or> B f = B g" "C x f = None \<or> C x f = C x g" for x
    by (auto simp: flat_ord_def)
  show "option_ord (cbind (B f) (\<lambda>x. C x f)) (cbind (B g) (\<lambda>x. C x g))"
  proof (cases "B f")
    case (Some r)
    then have "B g = Some r" using o(1) by auto
    then show ?thesis using Some o(2) by (cases r) (auto simp: flat_ord_def)
  qed (simp add: flat_ord_def)
qed

lemma rbind_simps [simp]:
  "rbind (Inl e) f = Inl e"
  "rbind (Inr x) f = f x"
  by (simp_all add: rbind_def)

lemma rbind_Inr_iff: "rbind m f = Inr y \<longleftrightarrow> (\<exists>x. m = Inr x \<and> f x = Inr y)"
  by (cases m) auto

text \<open>
  \<open>catch (const std::exception& e)\<close>: every exception is handled, undefined behaviour is not an
  exception and stays.
\<close>

fun catch_std :: "exn + 'a \<Rightarrow> (exn \<Rightarrow> exn + 'a) \<Rightarrow> exn + 'a" where
  "catch_std (Inr x) handler = Inr x"
| "catch_std (Inl e) handler =
     (case e of Undefined_behaviour s \<Rightarrow> Inl e | _ \<Rightarrow> handler e)"

lemma catch_std_Inl: "(\<And>s. e \<noteq> Undefined_behaviour s) \<Longrightarrow> catch_std (Inl e) h = h e"
  by (cases e) auto

lemma catch_std_total:
  "(\<And>s. m \<noteq> Inl (Undefined_behaviour s)) \<Longrightarrow> catch_std m (\<lambda>_. Inr d) = Inr (case m of Inl _ \<Rightarrow> d | Inr x \<Rightarrow> x)"
  by (cases m) (auto split: exn.splits)

section \<open>Operations on an outside state\<close>

text \<open>
  An operation on the state of a database, a network or a file system returns or throws, and leaves
  a state. In a sequence a throw keeps the effects of the operations before it.
\<close>

definition then_do :: "(exn + 'a) \<times> 'r \<Rightarrow> ('a \<Rightarrow> 'r \<Rightarrow> (exn + 'b) \<times> 'r) \<Rightarrow> (exn + 'b) \<times> 'r" where
  "then_do m f = (case m of (Inl e, r) \<Rightarrow> (Inl e, r) | (Inr x, r) \<Rightarrow> f x r)"

text \<open>The \<open>catch (const std::exception&)\<close> around an operation, with the value that it returns.\<close>

definition catch_with :: "(exn + 'a) \<times> 'r \<Rightarrow> (exn \<Rightarrow> 'a) \<Rightarrow> (exn + 'a) \<times> 'r" where
  "catch_with m h = (catch_std (fst m) (\<lambda>e. Inr (h e)), snd m)"

definition or_else :: "(exn + 'a) \<times> 'r \<Rightarrow> 'a \<Rightarrow> (exn + 'a) \<times> 'r" where
  "or_else m x = (catch_std (fst m) (\<lambda>_. Inr x), snd m)"

lemma then_do_simps [simp]:
  "then_do (Inl e, r) f = (Inl e, r)" "then_do (Inr x, r) f = f x r"
  by (simp_all add: then_do_def)

lemma then_do_Inr: "then_do m f = (Inr x, r) \<longleftrightarrow> (\<exists>y r1. m = (Inr y, r1) \<and> f y r1 = (Inr x, r))"
  by (cases m; cases "fst m") (auto simp: then_do_def)

lemma catch_with_Inr [simp]: "catch_with (Inr x, r) h = (Inr x, r)"
  by (simp add: catch_with_def)

lemma or_else_simps [simp]:
  "or_else (Inr x, r) y = (Inr x, r)"
  "snd (or_else m y) = snd m"
  by (simp_all add: or_else_def)

lemma or_else_Inr: "or_else m y = (Inr x, r) \<Longrightarrow> x \<noteq> y \<Longrightarrow> m = (Inr x, r)"
  by (cases m; cases "fst m") (auto simp: or_else_def split: exn.splits)

section \<open>Integers\<close>

text \<open>
  \<open>cpp_int\<close> is \<open>int\<close> with the division of C++: quotients round towards zero, a zero
  divisor raises \<open>std::overflow_error\<close>.
\<close>

definition cpp_div :: "int \<Rightarrow> int \<Rightarrow> exn + int" where
  "cpp_div a b = (if b = 0 then Inl (Overflow_error ''Division by zero.'') else Inr (a sdiv b))"

definition cpp_mod :: "int \<Rightarrow> int \<Rightarrow> exn + int" where
  "cpp_mod a b = (if b = 0 then Inl (Overflow_error ''Division by zero.'') else Inr (a smod b))"

lemma trunc_nonneg [simp]:
  "0 \<le> a \<Longrightarrow> 0 < b \<Longrightarrow> a smod b = a mod (b::int)"
  "0 \<le> a \<Longrightarrow> 0 < b \<Longrightarrow> a sdiv b = a div (b::int)"
  by (cases "a = 0"; simp add: signed_modulo_int_def signed_divide_int_def sgn_if)+

lemma cpp_div_pos [simp]: "0 \<le> a \<Longrightarrow> 0 < b \<Longrightarrow> cpp_div a b = Inr (a div b)"
  by (simp add: cpp_div_def)

lemma cpp_mod_pos [simp]: "0 \<le> a \<Longrightarrow> 0 < b \<Longrightarrow> cpp_mod a b = Inr (a mod b)"
  by (simp add: cpp_mod_def)

section \<open>Words\<close>

lemma xor_self_cancel [simp]:
  fixes a b :: "'a::len word"
  shows "(a XOR b) XOR b = a" "b XOR (b XOR a) = a"
  by (simp_all add: xor.assoc flip: xor.assoc [of b b a])

lemma xor_swap_middle:
  fixes a b c d :: "'a::len word"
  shows "(a XOR b) XOR (c XOR d) = (a XOR c) XOR (b XOR d)"
  by (simp add: ac_simps)

lemma and_one_neq_0_iff: "x AND 1 \<noteq> 0 \<longleftrightarrow> odd (x :: 'a::len word)"
  by (simp add: and_one_eq odd_iff_mod_2_eq_one)

text \<open>A byte is the exclusive or of its bits, so an additive function is fixed by eight values.\<close>

definition additive_byte :: "(byte \<Rightarrow> 'a::len word) \<Rightarrow> bool" where
  "additive_byte f \<longleftrightarrow> (\<forall>x y. f (x XOR y) = f x XOR f y)"

end
