(* ===== verification/Aes_Field.thy ===== *)
theory Aes_Field
  imports Prelude
begin

text \<open>
  The byte arithmetic of \<open>crypto/src/aes256.cpp\<close>: the multiplication \<open>gmul\<close> and the two
  substitution tables of \<open>crypto/include/aes256.hpp\<close>. The lemmas show that \<open>gmul\<close> is the
  commutative, associative product of GF(2^8) that distributes over XOR, that it agrees with
  the polynomial product reduced by \<open>x^8 + x^4 + x^3 + x + 1\<close>, and that the tables are
  inverse to each other and built from the inverse of the field.
\<close>

section \<open>Multiplication\<close>

text \<open>
  The loop of \<open>AES256::gmul\<close> has the variables \<open>p\<close>, \<open>a\<close> and \<open>b\<close>; one iteration adds \<open>a\<close>
  to \<open>p\<close> when the low bit of \<open>b\<close> is set, doubles \<open>a\<close> with reduction when its high bit
  (\<open>hi_bit_set\<close>) was set, and shifts \<open>b\<close>.
\<close>

definition xtime :: "byte \<Rightarrow> byte" where
  "xtime a = (if a AND 0x80 \<noteq> 0 then push_bit 1 a XOR 0x1b else push_bit 1 a)"

fun gmul_step :: "byte \<times> byte \<times> byte \<Rightarrow> byte \<times> byte \<times> byte" where
  "gmul_step (p, a, b) = (if b AND 1 \<noteq> 0 then p XOR a else p, xtime a, drop_bit 1 b)"

fun gmul_loop :: "nat \<Rightarrow> byte \<times> byte \<times> byte \<Rightarrow> byte \<times> byte \<times> byte" where
  "gmul_loop 0 s = s"
| "gmul_loop (Suc n) s = gmul_loop n (gmul_step s)"

definition gmul :: "byte \<Rightarrow> byte \<Rightarrow> byte" where
  "gmul a b = fst (gmul_loop 8 (0, a, b))"

section \<open>The substitution tables\<close>

definition sbox :: "bytes" where
  "sbox = [
    0x63, 0x7c, 0x77, 0x7b, 0xf2, 0x6b, 0x6f, 0xc5, 0x30, 0x01, 0x67, 0x2b, 0xfe, 0xd7, 0xab, 0x76,
    0xca, 0x82, 0xc9, 0x7d, 0xfa, 0x59, 0x47, 0xf0, 0xad, 0xd4, 0xa2, 0xaf, 0x9c, 0xa4, 0x72, 0xc0,
    0xb7, 0xfd, 0x93, 0x26, 0x36, 0x3f, 0xf7, 0xcc, 0x34, 0xa5, 0xe5, 0xf1, 0x71, 0xd8, 0x31, 0x15,
    0x04, 0xc7, 0x23, 0xc3, 0x18, 0x96, 0x05, 0x9a, 0x07, 0x12, 0x80, 0xe2, 0xeb, 0x27, 0xb2, 0x75,
    0x09, 0x83, 0x2c, 0x1a, 0x1b, 0x6e, 0x5a, 0xa0, 0x52, 0x3b, 0xd6, 0xb3, 0x29, 0xe3, 0x2f, 0x84,
    0x53, 0xd1, 0x00, 0xed, 0x20, 0xfc, 0xb1, 0x5b, 0x6a, 0xcb, 0xbe, 0x39, 0x4a, 0x4c, 0x58, 0xcf,
    0xd0, 0xef, 0xaa, 0xfb, 0x43, 0x4d, 0x33, 0x85, 0x45, 0xf9, 0x02, 0x7f, 0x50, 0x3c, 0x9f, 0xa8,
    0x51, 0xa3, 0x40, 0x8f, 0x92, 0x9d, 0x38, 0xf5, 0xbc, 0xb6, 0xda, 0x21, 0x10, 0xff, 0xf3, 0xd2,
    0xcd, 0x0c, 0x13, 0xec, 0x5f, 0x97, 0x44, 0x17, 0xc4, 0xa7, 0x7e, 0x3d, 0x64, 0x5d, 0x19, 0x73,
    0x60, 0x81, 0x4f, 0xdc, 0x22, 0x2a, 0x90, 0x88, 0x46, 0xee, 0xb8, 0x14, 0xde, 0x5e, 0x0b, 0xdb,
    0xe0, 0x32, 0x3a, 0x0a, 0x49, 0x06, 0x24, 0x5c, 0xc2, 0xd3, 0xac, 0x62, 0x91, 0x95, 0xe4, 0x79,
    0xe7, 0xc8, 0x37, 0x6d, 0x8d, 0xd5, 0x4e, 0xa9, 0x6c, 0x56, 0xf4, 0xea, 0x65, 0x7a, 0xae, 0x08,
    0xba, 0x78, 0x25, 0x2e, 0x1c, 0xa6, 0xb4, 0xc6, 0xe8, 0xdd, 0x74, 0x1f, 0x4b, 0xbd, 0x8b, 0x8a,
    0x70, 0x3e, 0xb5, 0x66, 0x48, 0x03, 0xf6, 0x0e, 0x61, 0x35, 0x57, 0xb9, 0x86, 0xc1, 0x1d, 0x9e,
    0xe1, 0xf8, 0x98, 0x11, 0x69, 0xd9, 0x8e, 0x94, 0x9b, 0x1e, 0x87, 0xe9, 0xce, 0x55, 0x28, 0xdf,
    0x8c, 0xa1, 0x89, 0x0d, 0xbf, 0xe6, 0x42, 0x68, 0x41, 0x99, 0x2d, 0x0f, 0xb0, 0x54, 0xbb, 0x16]"

definition inv_sbox :: "bytes" where
  "inv_sbox = [
    0x52, 0x09, 0x6a, 0xd5, 0x30, 0x36, 0xa5, 0x38, 0xbf, 0x40, 0xa3, 0x9e, 0x81, 0xf3, 0xd7, 0xfb,
    0x7c, 0xe3, 0x39, 0x82, 0x9b, 0x2f, 0xff, 0x87, 0x34, 0x8e, 0x43, 0x44, 0xc4, 0xde, 0xe9, 0xcb,
    0x54, 0x7b, 0x94, 0x32, 0xa6, 0xc2, 0x23, 0x3d, 0xee, 0x4c, 0x95, 0x0b, 0x42, 0xfa, 0xc3, 0x4e,
    0x08, 0x2e, 0xa1, 0x66, 0x28, 0xd9, 0x24, 0xb2, 0x76, 0x5b, 0xa2, 0x49, 0x6d, 0x8b, 0xd1, 0x25,
    0x72, 0xf8, 0xf6, 0x64, 0x86, 0x68, 0x98, 0x16, 0xd4, 0xa4, 0x5c, 0xcc, 0x5d, 0x65, 0xb6, 0x92,
    0x6c, 0x70, 0x48, 0x50, 0xfd, 0xed, 0xb9, 0xda, 0x5e, 0x15, 0x46, 0x57, 0xa7, 0x8d, 0x9d, 0x84,
    0x90, 0xd8, 0xab, 0x00, 0x8c, 0xbc, 0xd3, 0x0a, 0xf7, 0xe4, 0x58, 0x05, 0xb8, 0xb3, 0x45, 0x06,
    0xd0, 0x2c, 0x1e, 0x8f, 0xca, 0x3f, 0x0f, 0x02, 0xc1, 0xaf, 0xbd, 0x03, 0x01, 0x13, 0x8a, 0x6b,
    0x3a, 0x91, 0x11, 0x41, 0x4f, 0x67, 0xdc, 0xea, 0x97, 0xf2, 0xcf, 0xce, 0xf0, 0xb4, 0xe6, 0x73,
    0x96, 0xac, 0x74, 0x22, 0xe7, 0xad, 0x35, 0x85, 0xe2, 0xf9, 0x37, 0xe8, 0x1c, 0x75, 0xdf, 0x6e,
    0x47, 0xf1, 0x1a, 0x71, 0x1d, 0x29, 0xc5, 0x89, 0x6f, 0xb7, 0x62, 0x0e, 0xaa, 0x18, 0xbe, 0x1b,
    0xfc, 0x56, 0x3e, 0x4b, 0xc6, 0xd2, 0x79, 0x20, 0x9a, 0xdb, 0xc0, 0xfe, 0x78, 0xcd, 0x5a, 0xf4,
    0x1f, 0xdd, 0xa8, 0x33, 0x88, 0x07, 0xc7, 0x31, 0xb1, 0x12, 0x10, 0x59, 0x27, 0x80, 0xec, 0x5f,
    0x60, 0x51, 0x7f, 0xa9, 0x19, 0xb5, 0x4a, 0x0d, 0x2d, 0xe5, 0x7a, 0x9f, 0x93, 0xc9, 0x9c, 0xef,
    0xa0, 0xe0, 0x3b, 0x4d, 0xae, 0x2a, 0xf5, 0xb0, 0xc8, 0xeb, 0xbb, 0x3c, 0x83, 0x53, 0x99, 0x61,
    0x17, 0x2b, 0x04, 0x7e, 0xba, 0x77, 0xd6, 0x26, 0xe1, 0x69, 0x14, 0x63, 0x55, 0x21, 0x0c, 0x7d]"

section \<open>The product is additive\<close>

lemma bit8_eqI:
  fixes x y :: byte
  assumes "\<And>i. i < 8 \<Longrightarrow> bit x i = bit y i"
  shows "x = y"
  by (rule bit_word_eqI) (simp add: assms)

lemma byte_as_xor:
  fixes x :: byte
  shows "x = (if bit x 0 then 1 else 0) XOR (if bit x 1 then 2 else 0) XOR
    (if bit x 2 then 4 else 0) XOR (if bit x 3 then 8 else 0) XOR
    (if bit x 4 then 16 else 0) XOR (if bit x 5 then 32 else 0) XOR
    (if bit x 6 then 64 else 0) XOR (if bit x 7 then 128 else 0)"
    (is "_ = ?rhs")
proof -
  have if_bit: "bit (if b then w else (0::byte)) i = (b \<and> bit w i)" for b w i by simp
  show ?thesis
  proof (rule bit8_eqI)
    fix i :: nat
    assume "i < 8"
    then consider "i = 0" | "i = 1" | "i = 2" | "i = 3" | "i = 4" | "i = 5" | "i = 6" | "i = 7"
      by arith
    then show "bit x i = bit ?rhs i"
      by cases (simp_all only: bit_xor_iff if_bit, simp_all)
  qed
qed

lemma additive_byte_0: "additive_byte f \<Longrightarrow> f 0 = 0"
  unfolding additive_byte_def by (metis xor.right_neutral xor_self_eq)

lemma additive_byte_ext:
  assumes f: "additive_byte f" and g: "additive_byte g"
    and b: "f 1 = g 1" "f 2 = g 2" "f 4 = g 4" "f 8 = g 8"
      "f 16 = g 16" "f 32 = g 32" "f 64 = g 64" "f 128 = g 128"
  shows "f x = g x"
proof -
  have e: "f (if c then w else 0) = g (if c then w else 0)" if "f w = g w" for c w
    using that additive_byte_0 [OF f] additive_byte_0 [OF g] by simp
  have xf: "f (a XOR b) = f a XOR f b" and xg: "g (a XOR b) = g a XOR g b" for a b
    using f g by (simp_all add: additive_byte_def)
  show ?thesis
    by (subst (1 2) byte_as_xor) (simp only: xf xg e b)
qed

lemma xtime_xor: "xtime (a XOR b) = xtime a XOR xtime b"
proof -
  have hi: "c AND 0x80 \<noteq> 0 \<longleftrightarrow> bit c 7" for c :: byte
  proof -
    have "c AND 0x80 = (if bit c 7 then 0x80 else 0)"
      by (rule bit8_eqI) (auto simp: bit_and_iff less_Suc_eq eval_nat_numeral)
    then show ?thesis by simp
  qed
  show ?thesis
    by (simp add: xtime_def hi bit_xor_iff push_bit_xor ac_simps)
qed

lemma low_bit_xor: "(x XOR y) AND 1 \<noteq> 0 \<longleftrightarrow> (x AND 1 \<noteq> 0) \<noteq> (y AND 1 \<noteq> (0::byte))"
  by (simp only: and_one_neq_0_iff even_xor_iff) simp

lemma gmul_loop_xor_right:
  "fst (gmul_loop n (p XOR q, a, x XOR y)) = fst (gmul_loop n (p, a, x)) XOR fst (gmul_loop n (q, a, y))"
proof (induction n arbitrary: p q a x y)
  case (Suc n)
  have s: "gmul_step (p XOR q, a, x XOR y) =
     (fst (gmul_step (p, a, x)) XOR fst (gmul_step (q, a, y)), xtime a, drop_bit 1 x XOR drop_bit 1 y)"
    by (simp only: gmul_step.simps low_bit_xor drop_bit_xor) (auto simp: ac_simps)
  show ?case
    using Suc.IH [of "fst (gmul_step (p, a, x))" "fst (gmul_step (q, a, y))" "xtime a" "drop_bit 1 x" "drop_bit 1 y"]
    by (simp only: gmul_loop.simps s) simp
qed simp

lemma gmul_loop_xor_left:
  "fst (gmul_loop n (p XOR q, a XOR b, x)) = fst (gmul_loop n (p, a, x)) XOR fst (gmul_loop n (q, b, x))"
proof (induction n arbitrary: p q a b x)
  case (Suc n)
  have s: "gmul_step (p XOR q, a XOR b, x) =
     (fst (gmul_step (p, a, x)) XOR fst (gmul_step (q, b, x)), xtime a XOR xtime b, drop_bit 1 x)"
    by (auto simp: xtime_xor ac_simps)
  show ?case
    using Suc.IH [of "fst (gmul_step (p, a, x))" "fst (gmul_step (q, b, x))" "xtime a" "xtime b" "drop_bit 1 x"]
    by (simp only: gmul_loop.simps s) simp
qed simp

lemma gmul_xor_right: "gmul a (x XOR y) = gmul a x XOR gmul a y"
  using gmul_loop_xor_right [of 8 0 0 a x y] by (simp add: gmul_def)

lemma gmul_xor_left: "gmul (a XOR b) x = gmul a x XOR gmul b x"
  using gmul_loop_xor_left [of 8 0 0 a b x] by (simp add: gmul_def)

section \<open>Laws of the field, from eight basis bytes\<close>

text \<open>
  An additive function on bytes is determined by its values at the eight powers of two, so
  a law that is additive in each argument is checked on 64 pairs of basis bytes.
\<close>

definition basis :: "bytes" where "basis = [1, 2, 4, 8, 16, 32, 64, 128]"

lemma gmul_unroll:
  "gmul a b = fst (gmul_loop (Suc (Suc (Suc (Suc (Suc (Suc (Suc (Suc 0)))))))) (0, a, b))"
  by (simp add: gmul_def eval_nat_numeral del: gmul_loop.simps)

lemmas gmul_eval = gmul_unroll xtime_def

lemma additive_gmul [simp]:
  "additive_byte (gmul a)" "additive_byte (\<lambda>a. gmul a b)" "additive_byte xtime"
  by (simp_all add: additive_byte_def gmul_xor_right gmul_xor_left xtime_xor)

lemma additive_comp:
  "additive_byte f \<Longrightarrow> additive_byte g \<Longrightarrow> additive_byte (\<lambda>x. f (g x))"
  by (simp add: additive_byte_def)

definition commutes_at :: "byte \<Rightarrow> byte \<Rightarrow> bool" where
  "commutes_at a b \<longleftrightarrow> gmul a b = gmul b a"

lemma commutes_basis: "a \<in> set basis \<Longrightarrow> b \<in> set basis \<Longrightarrow> commutes_at a b"
  unfolding basis_def set_simps insert_iff empty_iff
  by (elim disjE; (erule FalseE)?; hypsubst; simp add: commutes_at_def gmul_eval)

definition xtime_at :: "byte \<Rightarrow> byte \<Rightarrow> bool" where
  "xtime_at a b \<longleftrightarrow> gmul a (xtime b) = xtime (gmul a b)"

lemma xtime_basis: "a \<in> set basis \<Longrightarrow> b \<in> set basis \<Longrightarrow> xtime_at a b"
  unfolding basis_def set_simps insert_iff empty_iff
  by (elim disjE; (erule FalseE)?; hypsubst; simp add: xtime_at_def gmul_eval)

lemma basis_ext:
  assumes "additive_byte f" "additive_byte g" "\<And>b. b \<in> set basis \<Longrightarrow> f b = g b"
  shows "f x = g x"
  using additive_byte_ext [OF assms(1,2)] assms(3) by (simp add: basis_def)

lemma gmul_commute: "gmul a b = gmul b a"
proof (rule basis_ext [where f = "gmul a" and g = "\<lambda>b. gmul b a"])
  fix b assume b: "b \<in> set basis"
  show "gmul a b = gmul b a"
    by (rule basis_ext [where f = "\<lambda>a. gmul a b" and g = "gmul b"])
      (use commutes_basis b in \<open>auto simp: commutes_at_def\<close>)
qed simp_all

lemma gmul_xtime: "gmul a (xtime b) = xtime (gmul a b)"
proof (rule basis_ext [where f = "\<lambda>b. gmul a (xtime b)" and g = "\<lambda>b. xtime (gmul a b)"])
  fix b assume b: "b \<in> set basis"
  show "gmul a (xtime b) = xtime (gmul a b)"
    by (rule basis_ext [where f = "\<lambda>a. gmul a (xtime b)" and g = "\<lambda>a. xtime (gmul a b)"])
      (use xtime_basis b in \<open>auto simp: xtime_at_def intro: additive_comp [of xtime]\<close>)
qed (auto intro: additive_comp)

lemma gmul_of_loop:
  "gmul a (fst (gmul_loop n (p, b, c))) = fst (gmul_loop n (gmul a p, gmul a b, c))"
proof (induction n arbitrary: p b c)
  case (Suc n)
  show ?case
    by (simp add: Suc.IH gmul_xor_right gmul_xtime)
qed simp

lemma gmul_0_right [simp]: "gmul a 0 = 0"
  by (rule additive_byte_0) simp

lemma gmul_0_left [simp]: "gmul 0 a = 0"
  by (simp add: gmul_commute [of 0])

lemma gmul_assoc: "gmul a (gmul b c) = gmul (gmul a b) c"
  using gmul_of_loop [of a 8 0 b c] by (simp add: gmul_def [of b c] gmul_def [of "gmul a b" c])

lemma gmul_1_right [simp]: "gmul a 1 = a"
proof -
  have "additive_byte (\<lambda>a::byte. a)" by (simp add: additive_byte_def)
  then show ?thesis
    by (rule basis_ext [OF additive_gmul(2)]) (auto simp: basis_def gmul_eval)
qed

lemma gmul_1_left [simp]: "gmul 1 a = a"
  by (simp add: gmul_commute [of 1])

section \<open>Agreement with the polynomial product\<close>

text \<open>
  The reference of FIPS 197, section 4.2: multiply as polynomials over GF(2) into 16 bits,
  then subtract shifted copies of \<open>0x11b\<close> from bit 14 down to bit 8.
\<close>

definition poly_term :: "byte \<Rightarrow> byte \<Rightarrow> nat \<Rightarrow> 16 word" where
  "poly_term a b i = (if bit b i then push_bit i (ucast a) else 0)"

definition poly_product :: "byte \<Rightarrow> byte \<Rightarrow> 16 word" where
  "poly_product a b = foldr (\<lambda>i r. poly_term a b i XOR r) [0..<8] 0"

definition reduce_at :: "nat \<Rightarrow> 16 word \<Rightarrow> 16 word" where
  "reduce_at i w = (if bit w i then w XOR push_bit (i - 8) 0x11b else w)"

definition poly_reduce :: "16 word \<Rightarrow> byte" where
  "poly_reduce w = ucast (foldl (\<lambda>w i. reduce_at i w) w [14, 13, 12, 11, 10, 9, 8])"

lemma reduce_at_xor: "reduce_at i (v XOR w) = reduce_at i v XOR reduce_at i w"
  by (auto simp: reduce_at_def bit_xor_iff ac_simps)

lemma poly_reduce_xor: "poly_reduce (v XOR w) = poly_reduce v XOR poly_reduce w"
  by (simp add: poly_reduce_def reduce_at_xor unsigned_xor_eq)

lemma foldr_xor_split:
  fixes f g :: "nat \<Rightarrow> 'a::len word"
  shows "foldr (\<lambda>i r. (f i XOR g i) XOR r) is 0 =
    foldr (\<lambda>i r. f i XOR r) is 0 XOR foldr (\<lambda>i r. g i XOR r) is 0"
  by (induction "is") (simp_all add: ac_simps)

lemma poly_term_xor:
  "poly_term a (x XOR y) i = poly_term a x i XOR poly_term a y i"
  "poly_term (a XOR b) x i = poly_term a x i XOR poly_term b x i"
  by (auto simp: poly_term_def bit_xor_iff unsigned_xor_eq push_bit_xor)

lemma additive_poly:
  "additive_byte (\<lambda>b. poly_reduce (poly_product a b))"
  "additive_byte (\<lambda>a. poly_reduce (poly_product a b))"
  by (simp_all add: additive_byte_def poly_product_def poly_term_xor foldr_xor_split poly_reduce_xor)

definition poly_at :: "byte \<Rightarrow> byte \<Rightarrow> bool" where
  "poly_at a b \<longleftrightarrow> gmul a b = poly_reduce (poly_product a b)"

lemma upt8: "[0..<8] = [0, 1, 2, 3, 4, 5, 6, 7::nat]"
  by (simp add: upt_rec)

lemma poly_basis: "a \<in> set basis \<Longrightarrow> b \<in> set basis \<Longrightarrow> poly_at a b"
  unfolding basis_def set_simps insert_iff empty_iff
  by (elim disjE; (erule FalseE)?; hypsubst;
      simp add: poly_at_def gmul_eval poly_reduce_def poly_product_def upt8 poly_term_def reduce_at_def)

lemma gmul_poly: "gmul a b = poly_reduce (poly_product a b)"
proof (rule basis_ext [where f = "gmul a" and g = "\<lambda>b. poly_reduce (poly_product a b)"])
  fix b assume b: "b \<in> set basis"
  show "gmul a b = poly_reduce (poly_product a b)"
    by (rule basis_ext [where f = "\<lambda>a. gmul a b" and g = "\<lambda>a. poly_reduce (poly_product a b)"])
      (use poly_basis b additive_poly in \<open>auto simp: poly_at_def\<close>)
qed (simp_all add: additive_poly)

section \<open>The tables are inverse to each other\<close>

text \<open>Conditions on every entry of a table, counted from an index.\<close>

fun all_from :: "(nat \<Rightarrow> byte \<Rightarrow> bool) \<Rightarrow> nat \<Rightarrow> bytes \<Rightarrow> bool" where
  "all_from P n [] = True"
| "all_from P n (s # ss) = (P n s \<and> all_from P (Suc n) ss)"

lemma all_from_nth: "all_from P n ss \<Longrightarrow> i < length ss \<Longrightarrow> P (n + i) (ss ! i)"
  by (induction P n ss arbitrary: i rule: all_from.induct) (auto simp: nth_Cons split: nat.splits)

definition inv_at :: "nat \<Rightarrow> byte \<Rightarrow> bool" where
  "inv_at n s \<longleftrightarrow> inv_sbox ! unat s = word_of_nat n"

lemma length_boxes [simp]: "length sbox = 256" "length inv_sbox = 256"
  by (simp_all add: sbox_def inv_sbox_def)

lemma all_inv_at: "all_from inv_at 0 sbox"
  by code_simp

lemma unat_byte_less [simp]: "unat (x::byte) < 256"
  using unsigned_less [of x] by simp

lemma inv_sbox_sbox [simp]: "inv_sbox ! unat (sbox ! unat x) = x"
  using all_from_nth [OF all_inv_at, of "unat x"] by (simp add: inv_at_def)

lemma sbox_inv_sbox [simp]: "sbox ! unat (inv_sbox ! unat x) = x"
proof -
  have inj: "inj (\<lambda>x::byte. sbox ! unat x)"
    by (rule inj_on_inverseI [where g = "\<lambda>y. inv_sbox ! unat y"]) simp
  then have "surj (\<lambda>x::byte. sbox ! unat x)"
    by (rule finite_UNIV_inj_surj [OF finite])
  then obtain y where "x = sbox ! unat (y::byte)" by (auto simp: surj_def)
  then show ?thesis by simp
qed

section \<open>The tables are the ones of the standard\<close>

text \<open>
  FIPS 197, section 5.1.1: an entry of \<open>sbox\<close> is the affine image of the inverse of its
  index in the field. \<open>inverses\<close> lists the inverses as a certificate; the check multiplies
  each with its index.
\<close>

definition rotl8 :: "nat \<Rightarrow> byte \<Rightarrow> byte" where
  "rotl8 k b = push_bit k b OR drop_bit (8 - k) b"

definition affine :: "byte \<Rightarrow> byte" where
  "affine b = b XOR rotl8 1 b XOR rotl8 2 b XOR rotl8 3 b XOR rotl8 4 b XOR 0x63"

definition inverses :: bytes where
  "inverses = [
    0x00, 0x01, 0x8d, 0xf6, 0xcb, 0x52, 0x7b, 0xd1, 0xe8, 0x4f, 0x29, 0xc0, 0xb0, 0xe1, 0xe5, 0xc7,
    0x74, 0xb4, 0xaa, 0x4b, 0x99, 0x2b, 0x60, 0x5f, 0x58, 0x3f, 0xfd, 0xcc, 0xff, 0x40, 0xee, 0xb2,
    0x3a, 0x6e, 0x5a, 0xf1, 0x55, 0x4d, 0xa8, 0xc9, 0xc1, 0x0a, 0x98, 0x15, 0x30, 0x44, 0xa2, 0xc2,
    0x2c, 0x45, 0x92, 0x6c, 0xf3, 0x39, 0x66, 0x42, 0xf2, 0x35, 0x20, 0x6f, 0x77, 0xbb, 0x59, 0x19,
    0x1d, 0xfe, 0x37, 0x67, 0x2d, 0x31, 0xf5, 0x69, 0xa7, 0x64, 0xab, 0x13, 0x54, 0x25, 0xe9, 0x09,
    0xed, 0x5c, 0x05, 0xca, 0x4c, 0x24, 0x87, 0xbf, 0x18, 0x3e, 0x22, 0xf0, 0x51, 0xec, 0x61, 0x17,
    0x16, 0x5e, 0xaf, 0xd3, 0x49, 0xa6, 0x36, 0x43, 0xf4, 0x47, 0x91, 0xdf, 0x33, 0x93, 0x21, 0x3b,
    0x79, 0xb7, 0x97, 0x85, 0x10, 0xb5, 0xba, 0x3c, 0xb6, 0x70, 0xd0, 0x06, 0xa1, 0xfa, 0x81, 0x82,
    0x83, 0x7e, 0x7f, 0x80, 0x96, 0x73, 0xbe, 0x56, 0x9b, 0x9e, 0x95, 0xd9, 0xf7, 0x02, 0xb9, 0xa4,
    0xde, 0x6a, 0x32, 0x6d, 0xd8, 0x8a, 0x84, 0x72, 0x2a, 0x14, 0x9f, 0x88, 0xf9, 0xdc, 0x89, 0x9a,
    0xfb, 0x7c, 0x2e, 0xc3, 0x8f, 0xb8, 0x65, 0x48, 0x26, 0xc8, 0x12, 0x4a, 0xce, 0xe7, 0xd2, 0x62,
    0x0c, 0xe0, 0x1f, 0xef, 0x11, 0x75, 0x78, 0x71, 0xa5, 0x8e, 0x76, 0x3d, 0xbd, 0xbc, 0x86, 0x57,
    0x0b, 0x28, 0x2f, 0xa3, 0xda, 0xd4, 0xe4, 0x0f, 0xa9, 0x27, 0x53, 0x04, 0x1b, 0xfc, 0xac, 0xe6,
    0x7a, 0x07, 0xae, 0x63, 0xc5, 0xdb, 0xe2, 0xea, 0x94, 0x8b, 0xc4, 0xd5, 0x9d, 0xf8, 0x90, 0x6b,
    0xb1, 0x0d, 0xd6, 0xeb, 0xc6, 0x0e, 0xcf, 0xad, 0x08, 0x4e, 0xd7, 0xe3, 0x5d, 0x50, 0x1e, 0xb3,
    0x5b, 0x23, 0x38, 0x34, 0x68, 0x46, 0x03, 0x8c, 0xdd, 0x9c, 0x7d, 0xa0, 0xcd, 0x1a, 0x41, 0x1c]"

fun fips_check :: "nat \<Rightarrow> bytes \<Rightarrow> bytes \<Rightarrow> bool" where
  "fips_check n (v # vs) (s # ss) =
     (affine v = s \<and> (n = 0 \<or> gmul (word_of_nat n) v = 1) \<and> fips_check (Suc n) vs ss)"
| "fips_check n vs ss = True"

lemma fips_check_boxes: "fips_check 0 inverses sbox"
  by (simp add: sbox_def inverses_def affine_def rotl8_def gmul_eval)

lemma fips_check_nth:
  "fips_check n vs ss \<Longrightarrow> i < length vs \<Longrightarrow> i < length ss \<Longrightarrow>
    affine (vs ! i) = ss ! i \<and> (n + i = 0 \<or> gmul (word_of_nat (n + i)) (vs ! i) = 1)"
  by (induction n vs ss arbitrary: i rule: fips_check.induct)
    (auto simp: nth_Cons algebra_simps split: nat.splits)

lemma length_inverses [simp]: "length inverses = 256"
  by (simp add: inverses_def)

lemma inverses_correct:
  "affine (inverses ! unat x) = sbox ! unat x"
  "x \<noteq> 0 \<Longrightarrow> gmul x (inverses ! unat x) = 1"
  using fips_check_nth [OF fips_check_boxes, of "unat x"] by (auto simp: unat_eq_0)

lemma gmul_inverse_unique:
  assumes "gmul x y = 1" "gmul x z = 1"
  shows "y = z"
proof -
  have "y = gmul y (gmul x z)" using assms(2) by simp
  also have "\<dots> = gmul (gmul x y) z" by (simp only: gmul_assoc gmul_commute [of y x])
  finally show ?thesis using assms(1) by simp
qed

end
