(* ===== verification/Aes256.thy ===== *)
theory Aes256
  imports Aes_Field
begin

text \<open>
  The block cipher of \<open>crypto/src/aes256.cpp\<close>: key expansion, the four round
  transformations with their inverses, and \<open>AES256::encrypt\<close> and \<open>AES256::decrypt\<close> on one
  block. A state is the list of its 16 bytes, in the column order of the array. The locales
  \<open>block_cipher\<close> and \<open>round_cipher\<close> state the interfaces; the block functions of the code
  are shown to be an instance of both.
\<close>

section \<open>Parameters\<close>

definition Nk :: nat where "Nk = 8"
definition Nb :: nat where "Nb = 4"
definition Nr :: nat where "Nr = 14"
definition key_length :: nat where "key_length = 256"
definition block_size :: nat where "block_size = 128"
definition state_size :: nat where "state_size = 4 * Nb"

lemmas aes_parameters = Nk_def Nb_def Nr_def key_length_def block_size_def state_size_def

section \<open>Interfaces\<close>

text \<open>What the text functions use of a block cipher.\<close>

locale block_cipher =
  fixes enc :: "bytes \<Rightarrow> bytes" and dec :: "bytes \<Rightarrow> bytes"
  assumes enc_length: "length b = state_size \<Longrightarrow> length (enc b) = state_size"
    and dec_length: "length b = state_size \<Longrightarrow> length (dec b) = state_size"
    and dec_enc: "length b = state_size \<Longrightarrow> dec (enc b) = b"

text \<open>
  What the rounds use of their layers: each layer keeps the length of a state and has its
  inverse, and adding a round key undoes itself.
\<close>

locale round_cipher =
  fixes sub isub shift ishift mix imix :: "bytes \<Rightarrow> bytes"
    and ark :: "nat \<Rightarrow> bytes \<Rightarrow> bytes" and size :: nat
  assumes len: "length s = size \<Longrightarrow> length (sub s) = size"
      "length s = size \<Longrightarrow> length (isub s) = size"
      "length s = size \<Longrightarrow> length (shift s) = size"
      "length s = size \<Longrightarrow> length (ishift s) = size"
      "length s = size \<Longrightarrow> length (mix s) = size"
      "length s = size \<Longrightarrow> length (imix s) = size"
      "length s = size \<Longrightarrow> length (ark r s) = size"
    and undo: "length s = size \<Longrightarrow> isub (sub s) = s"
      "length s = size \<Longrightarrow> ishift (shift s) = s"
      "length s = size \<Longrightarrow> imix (mix s) = s"
      "length s = size \<Longrightarrow> ark r (ark r s) = s"
begin

definition forward :: "nat \<Rightarrow> bytes \<Rightarrow> bytes" where
  "forward r s = ark r (mix (shift (sub s)))"

definition backward :: "nat \<Rightarrow> bytes \<Rightarrow> bytes" where
  "backward r s = imix (ark r (isub (ishift s)))"

lemma forward_length [simp]: "length s = size \<Longrightarrow> length (forward r s) = size"
  by (simp add: forward_def len)

lemma backward_length [simp]: "length s = size \<Longrightarrow> length (backward r s) = size"
  by (simp add: backward_def len)

lemma foldl_forward_length:
  "length s = size \<Longrightarrow> length (foldl (\<lambda>s r. forward r s) s rs) = size"
  by (induction rs arbitrary: s) auto

lemma foldl_backward_length:
  "length s = size \<Longrightarrow> length (foldl (\<lambda>s r. backward r s) s rs) = size"
  by (induction rs arbitrary: s) auto

text \<open>A backward round takes the substituted state after a forward round to the one before it.\<close>

lemma backward_forward:
  "length s = size \<Longrightarrow> backward r (shift (sub (forward r s))) = shift (sub s)"
  by (simp add: backward_def forward_def undo len)

lemma backward_rounds:
  "length s = size \<Longrightarrow>
    foldl (\<lambda>s r. backward r s) (shift (sub (foldl (\<lambda>s r. forward r s) s rs))) (rev rs) =
      shift (sub s)"
proof (induction rs arbitrary: s)
  case (Cons r rs)
  then show ?case
    by (simp add: backward_forward)
qed simp

lemma cipher_undo:
  assumes "length s = size"
  shows "ark first (isub (ishift (foldl (\<lambda>s r. backward r s)
      (ark final (ark final (shift (sub (foldl (\<lambda>s r. forward r s) (ark first s) rs)))))
      (rev rs)))) = s"
  using assms by (simp add: undo len foldl_forward_length backward_rounds)

end

section \<open>The cipher object\<close>

definition round_const :: "u32 list" where
  "round_const = [
    0x01000000, 0x02000000, 0x04000000, 0x08000000, 0x10000000,
    0x20000000, 0x40000000, 0x80000000, 0x1b000000, 0x36000000]"

text \<open>The object holds the key; a fresh key is drawn byte by byte from \<open>std::random_device\<close>.\<close>

record aes256 =
  aes_key :: bytes

definition generate_aes_key :: "(nat \<Rightarrow> u32) \<Rightarrow> nat \<Rightarrow> bytes" where
  "generate_aes_key rd n = map (\<lambda>i. ucast (rd i)) [0..<n div 8]"

definition aes256_new :: "(nat \<Rightarrow> u32) \<Rightarrow> aes256" where
  "aes256_new rd = \<lparr>aes_key = generate_aes_key rd 256\<rparr>"

definition aes256_of_key :: "bytes \<Rightarrow> aes256" where
  "aes256_of_key k = \<lparr>aes_key = k\<rparr>"

definition set_key :: "aes256 \<Rightarrow> bytes \<Rightarrow> aes256" where
  "set_key a k = a\<lparr>aes_key := k\<rparr>"

definition get_key :: "aes256 \<Rightarrow> bytes" where
  "get_key a = aes_key a"

section \<open>Key expansion\<close>

definition rot_word :: "bytes \<Rightarrow> bytes" where
  "rot_word w = [w ! 1, w ! 2, w ! 3, w ! 0]"

definition sub_word :: "bytes \<Rightarrow> bytes" where
  "sub_word w = [sbox ! unat (w ! 0), sbox ! unat (w ! 1), sbox ! unat (w ! 2), sbox ! unat (w ! 3)]"

text \<open>The value of \<open>temp\<close> that iteration \<open>i\<close> adds to the word \<open>Nk\<close> places back.\<close>

definition xor_round_const :: "nat \<Rightarrow> bytes \<Rightarrow> bytes" where
  "xor_round_const i t = t[0 := t ! 0 XOR ucast (drop_bit 24 (round_const ! (i div Nk - 1)) AND 0xFF)]"

definition expansion_temp :: "nat \<Rightarrow> bytes \<Rightarrow> bytes" where
  "expansion_temp i temp =
     (if i mod Nk = 0 then xor_round_const i (sub_word (rot_word temp))
      else if 6 < Nk \<and> i mod Nk = 4 then sub_word temp
      else temp)"

definition expansion_store :: "nat \<Rightarrow> bytes \<Rightarrow> bytes \<Rightarrow> bytes" where
  "expansion_store i temp w =
     foldl (\<lambda>w j. w[4 * i + j := w ! (4 * (i - Nk) + j) XOR temp ! j]) w [0..<4]"

definition expansion_step :: "bytes \<Rightarrow> nat \<Rightarrow> bytes" where
  "expansion_step w i =
     expansion_store i (expansion_temp i (map (\<lambda>j. w ! (4 * (i - 1) + j)) [0..<4])) w"

definition key_expansion :: "aes256 \<Rightarrow> bytes" where
  "key_expansion a =
     foldl expansion_step
       (foldl (\<lambda>w i. w[i := aes_key a ! i]) (replicate (4 * Nb * (Nr + 1)) 0) [0..<4 * Nk])
       [Nk..<Nb * (Nr + 1)]"

section \<open>Round transformations\<close>

definition sub_bytes :: "bytes \<Rightarrow> bytes" where
  "sub_bytes state = map (\<lambda>i. sbox ! unat (state ! i)) [0..<state_size]"

definition inv_sub_bytes :: "bytes \<Rightarrow> bytes" where
  "inv_sub_bytes state = map (\<lambda>i. inv_sbox ! unat (state ! i)) [0..<state_size]"

definition shift_rows :: "bytes \<Rightarrow> bytes" where
  "shift_rows state = [
     state ! 0, state ! 5, state ! 10, state ! 15,
     state ! 4, state ! 9, state ! 14, state ! 3,
     state ! 8, state ! 13, state ! 2, state ! 7,
     state ! 12, state ! 1, state ! 6, state ! 11]"

definition inv_shift_rows :: "bytes \<Rightarrow> bytes" where
  "inv_shift_rows state = [
     state ! 0, state ! 13, state ! 10, state ! 7,
     state ! 4, state ! 1, state ! 14, state ! 11,
     state ! 8, state ! 5, state ! 2, state ! 15,
     state ! 12, state ! 9, state ! 6, state ! 3]"

text \<open>One iteration of the column loops, over the four bytes of column \<open>c\<close>.\<close>

definition mix_column :: "byte \<Rightarrow> byte \<Rightarrow> byte \<Rightarrow> byte \<Rightarrow> bytes" where
  "mix_column s0 s1 s2 s3 = [
     gmul 0x02 s0 XOR gmul 0x03 s1 XOR s2 XOR s3,
     s0 XOR gmul 0x02 s1 XOR gmul 0x03 s2 XOR s3,
     s0 XOR s1 XOR gmul 0x02 s2 XOR gmul 0x03 s3,
     gmul 0x03 s0 XOR s1 XOR s2 XOR gmul 0x02 s3]"

definition inv_mix_column :: "byte \<Rightarrow> byte \<Rightarrow> byte \<Rightarrow> byte \<Rightarrow> bytes" where
  "inv_mix_column s0 s1 s2 s3 = [
     gmul 0x0e s0 XOR gmul 0x0b s1 XOR gmul 0x0d s2 XOR gmul 0x09 s3,
     gmul 0x09 s0 XOR gmul 0x0e s1 XOR gmul 0x0b s2 XOR gmul 0x0d s3,
     gmul 0x0d s0 XOR gmul 0x09 s1 XOR gmul 0x0e s2 XOR gmul 0x0b s3,
     gmul 0x0b s0 XOR gmul 0x0d s1 XOR gmul 0x09 s2 XOR gmul 0x0e s3]"

definition mix_columns :: "bytes \<Rightarrow> bytes" where
  "mix_columns state =
     concat (map (\<lambda>c. mix_column (state ! (4 * c)) (state ! (4 * c + 1))
       (state ! (4 * c + 2)) (state ! (4 * c + 3))) [0..<4])"

definition inv_mix_columns :: "bytes \<Rightarrow> bytes" where
  "inv_mix_columns state =
     concat (map (\<lambda>c. inv_mix_column (state ! (4 * c)) (state ! (4 * c + 1))
       (state ! (4 * c + 2)) (state ! (4 * c + 3))) [0..<4])"

definition add_round_key :: "bytes \<Rightarrow> bytes \<Rightarrow> nat \<Rightarrow> bytes" where
  "add_round_key state w round =
     concat (map (\<lambda>c. map (\<lambda>r. state ! (r + 4 * c) XOR w ! (4 * round * 4 + 4 * c + r)) [0..<4]) [0..<4])"

section \<open>One block\<close>

definition encrypt_round :: "bytes \<Rightarrow> bytes \<Rightarrow> nat \<Rightarrow> bytes" where
  "encrypt_round w state round =
     add_round_key (mix_columns (shift_rows (sub_bytes state))) w round"

definition encrypt_with :: "bytes \<Rightarrow> bytes \<Rightarrow> bytes" where
  "encrypt_with w input =
     add_round_key (shift_rows (sub_bytes
       (foldl (encrypt_round w) (add_round_key input w 0) [1..<Nr]))) w Nr"

definition encrypt :: "aes256 \<Rightarrow> bytes \<Rightarrow> bytes" where
  "encrypt a input = encrypt_with (key_expansion a) input"

definition decrypt_round :: "bytes \<Rightarrow> bytes \<Rightarrow> nat \<Rightarrow> bytes" where
  "decrypt_round w state round =
     inv_mix_columns (add_round_key (inv_sub_bytes (inv_shift_rows state)) w round)"

definition decrypt_with :: "bytes \<Rightarrow> bytes \<Rightarrow> bytes" where
  "decrypt_with w input =
     add_round_key (inv_sub_bytes (inv_shift_rows
       (foldl (decrypt_round w) (add_round_key input w Nr) (rev [1..<Nr])))) w 0"

definition decrypt :: "aes256 \<Rightarrow> bytes \<Rightarrow> bytes" where
  "decrypt a input = decrypt_with (key_expansion a) input"

section \<open>Layers and their inverses\<close>

lemma upt_4: "[0..<4] = [0, 1, 2, 3::nat]"
  by (simp add: upt_rec)

lemma upt_16: "[0..<16] = [0, 1, 2, 3, 4, 5, 6, 7, 8, 9, 10, 11, 12, 13, 14, 15::nat]"
  by (simp add: upt_rec)

lemma state_size_16 [simp]: "state_size = 16"
  by (simp add: aes_parameters)

text \<open>A state spelled out byte by byte.\<close>

lemma state_cases:
  fixes s :: bytes
  assumes "length s = 16"
  obtains a b c d e f g h i j k l m n p q where "s = [a, b, c, d, e, f, g, h, i, j, k, l, m, n, p, q]"
  using assms by (auto simp: length_Suc_conv numeral_eq_Suc)

lemma sub_bytes_map: "length s = 16 \<Longrightarrow> sub_bytes s = map (\<lambda>b. sbox ! unat b) s"
  by (elim state_cases) (simp add: sub_bytes_def upt_16)

lemma inv_sub_bytes_map: "length s = 16 \<Longrightarrow> inv_sub_bytes s = map (\<lambda>b. inv_sbox ! unat b) s"
  by (elim state_cases) (simp add: inv_sub_bytes_def upt_16)

lemma layer_lengths [simp]:
  "length (sub_bytes s) = 16" "length (inv_sub_bytes s) = 16"
  "length (shift_rows s) = 16" "length (inv_shift_rows s) = 16"
  "length (mix_columns s) = 16" "length (inv_mix_columns s) = 16"
  "length (add_round_key s w r) = 16"
  by (simp_all add: sub_bytes_def inv_sub_bytes_def shift_rows_def inv_shift_rows_def
      mix_columns_def inv_mix_columns_def add_round_key_def mix_column_def inv_mix_column_def upt_4)

lemma inv_sub_bytes_sub_bytes: "length s = 16 \<Longrightarrow> inv_sub_bytes (sub_bytes s) = s"
  by (simp add: inv_sub_bytes_map) (simp add: sub_bytes_map o_def)

lemma inv_shift_rows_shift_rows: "length s = 16 \<Longrightarrow> inv_shift_rows (shift_rows s) = s"
  by (elim state_cases) (simp add: inv_shift_rows_def shift_rows_def)

lemma add_round_key_twice: "length s = 16 \<Longrightarrow> add_round_key (add_round_key s w r) w r = s"
  by (elim state_cases) (simp add: add_round_key_def upt_4)

subsection \<open>The column matrices\<close>

text \<open>A row of a matrix applied to a column.\<close>

definition dot :: "byte \<Rightarrow> byte \<Rightarrow> byte \<Rightarrow> byte \<Rightarrow> byte \<Rightarrow> byte \<Rightarrow> byte \<Rightarrow> byte \<Rightarrow> byte" where
  "dot a b c d x y z u = gmul a x XOR gmul b y XOR gmul c z XOR gmul d u"

lemma dot_dot:
  "dot a b c d (dot a0 b0 c0 d0 x y z u) (dot a1 b1 c1 d1 x y z u)
     (dot a2 b2 c2 d2 x y z u) (dot a3 b3 c3 d3 x y z u) =
   dot (dot a b c d a0 a1 a2 a3) (dot a b c d b0 b1 b2 b3)
     (dot a b c d c0 c1 c2 c3) (dot a b c d d0 d1 d2 d3) x y z u"
  by (simp add: dot_def gmul_xor_right gmul_xor_left gmul_assoc ac_simps)

lemma mix_column_dot:
  "mix_column x y z u = [dot 2 3 1 1 x y z u, dot 1 2 3 1 x y z u, dot 1 1 2 3 x y z u, dot 3 1 1 2 x y z u]"
  by (simp add: mix_column_def dot_def ac_simps)

lemma inv_mix_column_dot:
  "inv_mix_column x y z u = [dot 14 11 13 9 x y z u, dot 9 14 11 13 x y z u,
     dot 13 9 14 11 x y z u, dot 11 13 9 14 x y z u]"
  by (simp add: inv_mix_column_def dot_def ac_simps)

lemma dot_unit:
  "dot 1 0 0 0 x y z u = x" "dot 0 1 0 0 x y z u = y" "dot 0 0 1 0 x y z u = z" "dot 0 0 0 1 x y z u = u"
  by (simp_all add: dot_def)

lemma matrix_product:
  "dot 14 11 13 9 2 1 1 3 = 1" "dot 14 11 13 9 3 2 1 1 = 0" "dot 14 11 13 9 1 3 2 1 = 0" "dot 14 11 13 9 1 1 3 2 = 0"
  "dot 9 14 11 13 2 1 1 3 = 0" "dot 9 14 11 13 3 2 1 1 = 1" "dot 9 14 11 13 1 3 2 1 = 0" "dot 9 14 11 13 1 1 3 2 = 0"
  "dot 13 9 14 11 2 1 1 3 = 0" "dot 13 9 14 11 3 2 1 1 = 0" "dot 13 9 14 11 1 3 2 1 = 1" "dot 13 9 14 11 1 1 3 2 = 0"
  "dot 11 13 9 14 2 1 1 3 = 0" "dot 11 13 9 14 3 2 1 1 = 0" "dot 11 13 9 14 1 3 2 1 = 0" "dot 11 13 9 14 1 1 3 2 = 1"
  by (simp_all add: dot_def gmul_eval)

lemma inv_mix_columns_mix_columns: "length s = 16 \<Longrightarrow> inv_mix_columns (mix_columns s) = s"
  by (elim state_cases)
    (simp add: inv_mix_columns_def mix_columns_def upt_4 mix_column_dot inv_mix_column_dot
      dot_dot matrix_product dot_unit)

section \<open>The code's cipher is a round cipher and a block cipher\<close>

interpretation layers: round_cipher sub_bytes inv_sub_bytes shift_rows inv_shift_rows
    mix_columns inv_mix_columns "\<lambda>r s. add_round_key s w r" 16 for w
  by unfold_locales
    (simp_all add: inv_sub_bytes_sub_bytes inv_shift_rows_shift_rows
      inv_mix_columns_mix_columns add_round_key_twice)

lemma encrypt_round_forward: "encrypt_round w = (\<lambda>s r. layers.forward w r s)"
  by (simp add: fun_eq_iff encrypt_round_def layers.forward_def)

lemma decrypt_round_backward: "decrypt_round w = (\<lambda>s r. layers.backward w r s)"
  by (simp add: fun_eq_iff decrypt_round_def layers.backward_def)

lemma decrypt_encrypt_with: "length b = 16 \<Longrightarrow> decrypt_with w (encrypt_with w b) = b"
  unfolding decrypt_with_def encrypt_with_def encrypt_round_forward decrypt_round_backward
  by (rule layers.cipher_undo)

interpretation aes: block_cipher "encrypt a" "decrypt a" for a
  by unfold_locales
    (simp_all add: encrypt_def decrypt_def decrypt_encrypt_with, simp_all add: encrypt_with_def decrypt_with_def)

section \<open>The key schedule of the standard\<close>

text \<open>
  The reference of FIPS 197 has nothing of the code: bytes are multiplied as polynomials and
  reduced (section 4.2), the substitution of a byte is the affine image of its inverse, found
  by trying all bytes (section 5.1.1), a word is rotated by one byte, and the round constants
  are the powers of \<open>x\<close> (section 5.2). The equality with the code needs its table, its
  rotation and its list of round constants to be right.
\<close>

definition field_product :: "byte \<Rightarrow> byte \<Rightarrow> byte" where
  "field_product a b = poly_reduce (poly_product a b)"

definition field_inverse :: "byte \<Rightarrow> byte" where
  "field_inverse b = (if b = 0 then 0
     else hd (filter (\<lambda>c. field_product b c = 1) (map word_of_nat [1..<256])))"

definition SubByte :: "byte \<Rightarrow> byte" where
  "SubByte b = affine (field_inverse b)"

fun RotWord :: "bytes \<Rightarrow> bytes" where
  "RotWord [] = []"
| "RotWord (b # bs) = bs @ [b]"

fun x_power :: "nat \<Rightarrow> byte" where
  "x_power 0 = 1"
| "x_power (Suc n) = field_product 2 (x_power n)"

definition rcon :: "nat \<Rightarrow> bytes" where
  "rcon j = [x_power (j - 1), 0, 0, 0]"

definition word_at :: "bytes \<Rightarrow> nat \<Rightarrow> bytes" where
  "word_at w i = [w ! (4 * i), w ! (4 * i + 1), w ! (4 * i + 2), w ! (4 * i + 3)]"

definition xor_words :: "bytes \<Rightarrow> bytes \<Rightarrow> bytes" where
  "xor_words u v = map2 (XOR) u v"

definition fips_temp :: "nat \<Rightarrow> bytes \<Rightarrow> bytes" where
  "fips_temp i t = (if i mod 8 = 0 then xor_words (map SubByte (RotWord t)) (rcon (i div 8))
     else if i mod 8 = 4 then map SubByte t else t)"

fun fips_word :: "bytes \<Rightarrow> nat \<Rightarrow> bytes" where
  "fips_word key i = (if i < 8 then word_at key i
     else xor_words (fips_word key (i - 8)) (fips_temp i (fips_word key (i - 1))))"

declare fips_word.simps [simp del]

lemma word_at_length [simp]: "length (word_at w i) = 4"
  by (simp add: word_at_def)

lemma field_product_gmul: "field_product a b = gmul a b"
  by (simp add: field_product_def gmul_poly)

lemma field_inverse_correct:
  assumes "b \<noteq> 0"
  shows "gmul b (field_inverse b) = 1"
proof -
  let ?xs = "filter (\<lambda>c. field_product b c = 1) (map word_of_nat [1..<256])"
  let ?c = "inverses ! unat b"
  have c: "gmul b ?c = 1" using assms by (rule inverses_correct(2))
  then have "?c \<noteq> 0" by auto
  then have "0 < unat ?c" using unat_eq_0 [of ?c] by linarith
  then have "?c \<in> word_of_nat ` {1..<256}"
    by (intro image_eqI [of _ _ "unat ?c"]) auto
  then have "?c \<in> set ?xs" using c by (simp add: field_product_gmul)
  then have "?xs \<noteq> []" by (metis empty_iff list.set(1))
  then have "hd ?xs \<in> set ?xs" by (rule hd_in_set)
  then show ?thesis using assms by (simp add: field_inverse_def field_product_gmul)
qed

lemma SubByte_sbox: "SubByte b = sbox ! unat b"
proof (cases "b = 0")
  case True
  then show ?thesis by (simp add: SubByte_def field_inverse_def sbox_def affine_def rotl8_def)
next
  case False
  then have "field_inverse b = inverses ! unat b"
    by (intro gmul_inverse_unique [OF field_inverse_correct inverses_correct(2)])
  then show ?thesis by (simp add: SubByte_def inverses_correct(1))
qed

lemma SubByte_word:
  assumes "length t = 4"
  shows "map SubByte t = sub_word t" "map SubByte (RotWord t) = sub_word (rot_word t)"
proof -
  obtain a b c d where "t = [a, b, c, d]"
    using assms by (auto simp: length_Suc_conv numeral_eq_Suc)
  then show "map SubByte t = sub_word t" "map SubByte (RotWord t) = sub_word (rot_word t)"
    by (simp_all add: SubByte_sbox sub_word_def rot_word_def)
qed

lemma x_power_xtime: "x_power n = (xtime ^^ n) 1"
proof (induction n)
  case (Suc n)
  have "xtime a = gmul 2 a" for a
    using gmul_xtime [of a 1] by (simp add: gmul_commute [of 2] xtime_def)
  with Suc show ?case by (simp add: field_product_gmul)
qed simp

lemma xtime_powers:
  "xtime 1 = 2" "(xtime ^^ 2) 1 = 4" "(xtime ^^ 3) 1 = 8" "(xtime ^^ 4) 1 = 16"
  "(xtime ^^ 5) 1 = 32" "(xtime ^^ 6) 1 = 64"
  by (simp_all add: eval_nat_numeral, simp_all add: xtime_def)

lemma round_const_rcon: "1 \<le> j \<Longrightarrow> j \<le> 7 \<Longrightarrow>
   ucast (drop_bit 24 (round_const ! (j - 1)) AND 0xFF) = hd (rcon j)"
proof -
  assume "1 \<le> j" "j \<le> 7"
  then consider "j = 1" | "j = 2" | "j = 3" | "j = 4" | "j = 5" | "j = 6" | "j = 7" by arith
  then show ?thesis
    by cases (simp_all add: round_const_def rcon_def x_power_xtime del: x_power.simps, simp_all add: xtime_powers)
qed

lemma expansion_store_length [simp]: "length (expansion_store i t w) = length w"
  by (simp add: expansion_store_def upt_4)

lemma expansion_step_length [simp]: "length (expansion_step w i) = length w"
  by (simp add: expansion_step_def)

lemma expansion_store_nth:
  assumes "8 \<le> i" "4 * i + 3 < length w"
  shows "word_at (expansion_store i t w) i =
      [w ! (4 * (i - 8)) XOR t ! 0, w ! (4 * (i - 8) + 1) XOR t ! 1,
       w ! (4 * (i - 8) + 2) XOR t ! 2, w ! (4 * (i - 8) + 3) XOR t ! 3]"
    and "n < i \<Longrightarrow> word_at (expansion_store i t w) n = word_at w n"
proof -
  obtain k where k: "i = k + 8" using assms(1) by (metis le_add_diff_inverse2)
  show "word_at (expansion_store i t w) i =
      [w ! (4 * (i - 8)) XOR t ! 0, w ! (4 * (i - 8) + 1) XOR t ! 1,
       w ! (4 * (i - 8) + 2) XOR t ! 2, w ! (4 * (i - 8) + 3) XOR t ! 3]"
    using assms(2) unfolding k
    by (simp add: expansion_store_def word_at_def upt_4 Nk_def nth_list_update)
  show "n < i \<Longrightarrow> word_at (expansion_store i t w) n = word_at w n"
    using assms(2) unfolding k
    by (simp add: expansion_store_def word_at_def upt_4 Nk_def nth_list_update)
qed


lemma xor_round_const_rcon:
  assumes "8 \<le> i" "i < 60" "length t = 4"
  shows "xor_round_const i t = xor_words t (rcon (i div 8))"
proof -
  have "1 \<le> i div 8" "i div 8 \<le> 7" using assms by auto
  note r = round_const_rcon [OF this, unfolded rcon_def list.sel One_nat_def]
  obtain a b c d where "t = [a, b, c, d]"
    using assms(3) by (auto simp: length_Suc_conv numeral_eq_Suc)
  then show ?thesis
    by (simp add: xor_round_const_def xor_words_def Nk_def rcon_def r)
qed

lemma expansion_temp_fips:
  assumes "8 \<le> i" "i < 60" "length t = 4"
  shows "expansion_temp i t = fips_temp i t"
proof -
  have "length (sub_word (rot_word t)) = 4" by (simp add: sub_word_def)
  with assms show ?thesis
    by (simp add: expansion_temp_def fips_temp_def Nk_def xor_round_const_rcon SubByte_word)
qed

lemma expansion_step_word:
  assumes "8 \<le> i" "i < 60" "length w = 240"
  shows "word_at (expansion_step w i) i =
      xor_words (word_at w (i - 8)) (fips_temp i (word_at w (i - 1)))"
    and "n < i \<Longrightarrow> word_at (expansion_step w i) n = word_at w n"
proof -
  have t: "map (\<lambda>j. w ! (4 * (i - 1) + j)) [0..<4] = word_at w (i - 1)"
    by (simp add: upt_4 word_at_def)
  have l: "length (fips_temp i (word_at w (i - 1))) = 4"
    by (simp add: fips_temp_def xor_words_def SubByte_word sub_word_def rcon_def)
  then obtain a b c d where abcd: "fips_temp i (word_at w (i - 1)) = [a, b, c, d]"
    by (auto simp: length_Suc_conv numeral_eq_Suc)
  have s: "expansion_step w i = expansion_store i [a, b, c, d] w"
    unfolding expansion_step_def t expansion_temp_fips [OF assms(1,2) word_at_length] abcd ..
  have len: "4 * i + 3 < length w" using assms by simp
  show "word_at (expansion_step w i) i =
      xor_words (word_at w (i - 8)) (fips_temp i (word_at w (i - 1)))"
    unfolding s abcd expansion_store_nth(1) [OF assms(1) len]
    by (simp add: word_at_def xor_words_def)
  show "n < i \<Longrightarrow> word_at (expansion_step w i) n = word_at w n"
    unfolding s by (rule expansion_store_nth(2) [OF assms(1) len])
qed

lemma expansion_rounds:
  assumes "8 \<le> n" "n \<le> 60" "length w = 240" "\<forall>i < 8. word_at w i = fips_word key i"
  shows "length (foldl expansion_step w [8..<n]) = 240 \<and>
    (\<forall>i < n. word_at (foldl expansion_step w [8..<n]) i = fips_word key i)"
  using assms(1,2)
proof (induction n rule: dec_induct)
  case base
  then show ?case using assms(3,4) by simp
next
  case (step n)
  let ?v = "foldl expansion_step w [8..<n]"
  have IH: "length ?v = 240" "\<And>i. i < n \<Longrightarrow> word_at ?v i = fips_word key i"
    using step by auto
  have n: "8 \<le> n" "n < 60" using step by auto
  have "word_at (expansion_step ?v n) n = fips_word key n"
    using n by (simp add: expansion_step_word(1) [OF n IH(1)] IH(2) fips_word.simps [of key n])
  then show ?case
    using n IH by (auto simp: less_Suc_eq expansion_step_word(2) [OF n IH(1)])
qed

lemma foldl_copy:
  assumes "n \<le> length w"
  shows "length (foldl (\<lambda>w i. w[i := key ! i]) w [0..<n]) = length w \<and>
    (\<forall>i < n. foldl (\<lambda>w i. w[i := key ! i]) w [0..<n] ! i = key ! i)"
  using assms by (induction n) (auto simp: nth_list_update less_Suc_eq)

lemma key_expansion_words:
  "length (key_expansion a) = 240 \<and> (\<forall>i < 60. word_at (key_expansion a) i = fips_word (aes_key a) i)"
proof -
  let ?w = "foldl (\<lambda>w i. w[i := aes_key a ! i]) (replicate 240 0) [0..<32]"
  have w: "length ?w = 240" "\<And>i. i < 32 \<Longrightarrow> ?w ! i = aes_key a ! i"
    using foldl_copy [of 32 "replicate 240 0" "aes_key a"] by auto
  have "\<forall>i < 8. word_at ?w i = fips_word (aes_key a) i"
    by (simp add: fips_word.simps word_at_def w(2))
  then show ?thesis
    using expansion_rounds [of 60 ?w "aes_key a"] w(1)
    by (simp add: key_expansion_def aes_parameters)
qed

section \<open>Properties\<close>

text \<open>\<open>AES256::decrypt\<close> undoes \<open>AES256::encrypt\<close> on every block, under every key.\<close>

theorem decrypt_encrypt: "length b = 16 \<Longrightarrow> decrypt a (encrypt a b) = b"
  by (rule aes.dec_enc [unfolded state_size_16])

theorem decrypt_encrypt_witness:
  "decrypt (aes256_of_key (replicate 32 0x42)) (encrypt (aes256_of_key (replicate 32 0x42)) (replicate 16 0x42))
    = replicate 16 0x42"
  by (rule decrypt_encrypt) simp

text \<open>
  C36: the key schedule is the one of FIPS 197: the array has 240 bytes, and each of its 60
  words is the one of the standard's recurrence, whose rotation, substitution (the affine
  image of the inverse in the field) and round constants (powers of \<open>x\<close>) are defined apart
  from the code's function \<open>rot_word\<close> and its tables.
\<close>

theorem key_expansion_fips:
  "length (key_expansion a) = 240 \<and>
   map (word_at (key_expansion a)) [0..<60] = map (fips_word (aes_key a)) [0..<60]"
  using key_expansion_words [of a] by simp

text \<open>
  \<open>AES256::gmul\<close> is the product of GF(2^8): the product of the two bytes as polynomials
  over GF(2), reduced by \<open>x^8 + x^4 + x^3 + x + 1\<close>; it is associative, commutative and
  distributes over XOR.
\<close>

theorem gmul_field:
  "gmul a b = poly_reduce (poly_product a b) \<and> gmul a (gmul b c) = gmul (gmul a b) c \<and>
   gmul a b = gmul b a \<and> gmul a (b XOR c) = gmul a b XOR gmul a c"
  using gmul_poly gmul_assoc gmul_commute gmul_xor_right by blast

text \<open>
  the tables of the header are those of FIPS 197: an entry of \<open>sbox\<close> at \<open>x\<close> is the affine
  image of the inverse of \<open>x\<close> in the field (of 0 for 0), and \<open>inv_sbox\<close> inverts it on all 256
  bytes.
\<close>

theorem sbox_fips:
  assumes "gmul x y = 1 \<or> (x = 0 \<and> y = 0)"
  shows "sbox ! unat x = affine y \<and> inv_sbox ! unat (affine y) = x"
proof -
  have "sbox ! unat x = affine y"
  proof (cases "x = 0")
    case True
    with assms have "y = 0" by auto
    with True show ?thesis by (simp add: sbox_def affine_def rotl8_def)
  next
    case False
    with assms have "y = inverses ! unat x"
      by (auto intro: gmul_inverse_unique inverses_correct(2))
    then show ?thesis by (simp add: inverses_correct(1))
  qed
  then show ?thesis by (metis inv_sbox_sbox)
qed

theorem sbox_fips_witness: "sbox ! unat (0x53 :: byte) = affine 0xca \<and> inv_sbox ! unat (affine 0xca) = (0x53 :: byte)"
  by (rule sbox_fips) (simp add: gmul_eval)

end
