(* ===== verification/Aes_Text.thy ===== *)
theory Aes_Text
  imports Aes256
begin

text \<open>
  Padding and the encryption of whole texts in \<open>crypto/src/aes256.cpp\<close>: \<open>pkcs7_pad\<close>,
  \<open>pkcs7_unpad\<close>, \<open>aes256_encrypt\<close> and \<open>aes256_decrypt\<close>. A \<open>std::string\<close> is the list of its
  bytes. Texts are padded to a multiple of \<open>block_size\<close>, which the header defines as 128
  (bits) and the padding reads as a number of bytes.
\<close>

section \<open>Padding\<close>

definition pkcs7_pad :: "bytes \<Rightarrow> bytes" where
  "pkcs7_pad input =
     (let len = block_size - length input mod block_size;
          padding_len = (if len = 0 then block_size else len)
      in input @ replicate padding_len (word_of_nat padding_len))"

definition pkcs7_unpad :: "bytes \<Rightarrow> exn + bytes" where
  "pkcs7_unpad input =
     (if input = [] then Inl (Invalid_argument ''Input cannot be empty'')
      else let padding_len = last input in
        if padding_len = 0 \<or> length input < unat padding_len
          then Inl (Invalid_argument ''Invalid padding'')
        else if list_ex (\<lambda>i. input ! i \<noteq> padding_len) [length input - unat padding_len..<length input]
          then Inl (Invalid_argument ''Invalid padding'')
        else Inr (take (length input - unat padding_len) input))"

section \<open>Texts\<close>

text \<open>The loops of both directions: \<open>output\<close> grows by the image of the block at \<open>i\<close>.\<close>

function map_blocks :: "(bytes \<Rightarrow> bytes) \<Rightarrow> bytes \<Rightarrow> nat \<Rightarrow> bytes \<Rightarrow> bytes" where
  "map_blocks f input i output =
     (if i < length input
      then map_blocks f input (i + state_size) (output @ f (take state_size (drop i input)))
      else output)"
  by pat_completeness auto
termination
  by (relation "measure (\<lambda>(f, input, i, output). length input - i)") auto

declare map_blocks.simps [simp del]

definition aes256_encrypt :: "aes256 \<Rightarrow> bytes \<Rightarrow> exn + bytes" where
  "aes256_encrypt a input =
     (if input = [] then Inl (Invalid_argument ''Input cannot be empty'')
      else Inr (map_blocks (encrypt a) (pkcs7_pad input) 0 []))"

definition aes256_decrypt :: "aes256 \<Rightarrow> bytes \<Rightarrow> exn + bytes" where
  "aes256_decrypt a input =
     (if input = [] \<or> length input mod state_size \<noteq> 0
      then Inl (Invalid_argument ''Input length must be multiple of block size'')
      else pkcs7_unpad (map_blocks (decrypt a) input 0 []))"

section \<open>Padding lemmas\<close>

lemma pkcs7_pad_eq:
  "pkcs7_pad s = (let n = 128 - length s mod 128 in s @ replicate n (word_of_nat n))"
  by (simp add: pkcs7_pad_def block_size_def Let_def)

lemma length_pkcs7_pad: "length (pkcs7_pad s) = 128 * (length s div 128 + 1)"
proof -
  have "length s + (128 - length s mod 128) = 128 * (length s div 128) + 128"
    using mult_div_mod_eq [of 128 "length s"] mod_less_divisor [of 128 "length s"] by linarith
  then show ?thesis by (simp add: pkcs7_pad_eq Let_def)
qed

lemma unpad_replicate:
  assumes "0 < n" "n < 256"
  shows "pkcs7_unpad (s @ replicate n (word_of_nat n)) = Inr s"
proof -
  let ?b = "word_of_nat n :: byte" and ?x = "s @ replicate n (word_of_nat n :: byte)"
  have u: "unat ?b = n" using assms by (simp add: unat_of_nat)
  have nz: "?b \<noteq> 0" using assms u by (metis less_irrefl unat_0)
  have "\<not> list_ex (\<lambda>i. ?x ! i \<noteq> ?b) [length s..<length s + n]"
    by (auto simp: list_ex_iff nth_append)
  then show ?thesis
    using assms nz u by (simp add: pkcs7_unpad_def)
qed

lemma unpad_iff:
  "pkcs7_unpad x = Inr s \<longleftrightarrow> (\<exists>n. 0 < n \<and> n < 256 \<and> x = s @ replicate n (word_of_nat n))"
proof
  assume r: "pkcs7_unpad x = Inr s"
  let ?n = "unat (last x)"
  have ne: "x \<noteq> []" "last x \<noteq> 0" "?n \<le> length x"
    and s: "s = take (length x - ?n) x"
    and eq: "\<forall>i \<in> {length x - ?n..<length x}. x ! i = last x"
    using r by (auto simp: pkcs7_unpad_def Let_def list_ex_iff split: if_splits)
  have d: "drop (length x - ?n) x = replicate ?n (last x)"
  proof (rule nth_equalityI)
    show "length (drop (length x - ?n) x) = length (replicate ?n (last x))"
      using ne(3) by simp
    fix i assume "i < length (drop (length x - ?n) x)"
    then have "length x - ?n + i \<in> {length x - ?n..<length x}" "i < ?n" using ne(3) by auto
    then show "drop (length x - ?n) x ! i = replicate ?n (last x) ! i"
      using eq ne(3) by (simp only: nth_drop nth_replicate)
  qed
  have "word_of_nat ?n = last x" by simp
  then have "x = s @ replicate ?n (word_of_nat ?n)"
    by (metis s d append_take_drop_id)
  then show "\<exists>n. 0 < n \<and> n < 256 \<and> x = s @ replicate n (word_of_nat n)"
    using ne by (intro exI [of _ ?n]) (auto simp: unat_gt_0)
next
  assume "\<exists>n. 0 < n \<and> n < 256 \<and> x = s @ replicate n (word_of_nat n)"
  then show "pkcs7_unpad x = Inr s" using unpad_replicate by blast
qed

lemma unpad_pad: "pkcs7_unpad (pkcs7_pad s) = Inr s"
  unfolding pkcs7_pad_eq Let_def by (rule unpad_replicate) simp_all

section \<open>Blocks\<close>

lemma map_blocks_concat:
  "\<forall>b \<in> set bs. length b = 16 \<Longrightarrow>
    map_blocks f (p @ concat bs) (length p) out = out @ concat (map f bs)"
proof (induction bs arbitrary: p out)
  case Nil
  then show ?case by (simp add: map_blocks.simps)
next
  case (Cons b bs)
  have "map_blocks f (p @ concat (b # bs)) (length p) out =
      map_blocks f ((p @ b) @ concat bs) (length (p @ b)) (out @ f b)"
    using Cons.prems by (subst map_blocks.simps) auto
  also have "\<dots> = (out @ f b) @ concat (map f bs)"
    using Cons.prems by (intro Cons.IH) simp
  finally show ?case by simp
qed

lemma map_blocks_all:
  "\<forall>b \<in> set bs. length b = 16 \<Longrightarrow> map_blocks f (concat bs) 0 [] = concat (map f bs)"
  using map_blocks_concat [of bs f "[]" "[]"] by simp

lemma blocks_exist:
  fixes x :: bytes
  assumes "length x = 16 * n"
  obtains bs where "x = concat bs" "\<forall>b \<in> set bs. length b = 16" "length bs = n"
  using assms
proof (induction n arbitrary: x thesis)
  case 0
  then show ?case by (intro 0(1) [of "[]"]) auto
next
  case (Suc n)
  obtain bs where "drop 16 x = concat bs" "\<forall>b \<in> set bs. length b = 16" "length bs = n"
    using Suc.IH [of "drop 16 x"] Suc.prems(2) by auto
  then show ?case
    using Suc.prems by (intro Suc.prems(1) [of "take 16 x # bs"]) (auto, metis append_take_drop_id)
qed

text \<open>The texts of any block cipher: block by block, so encryption and decryption cancel.\<close>

context block_cipher
begin

lemma enc_blocks_length:
  assumes "length x = 16 * n"
  shows "length (map_blocks enc x 0 []) = length x"
proof -
  obtain bs where bs: "x = concat bs" "\<forall>b \<in> set bs. length b = 16" "length bs = n"
    by (rule blocks_exist [OF assms])
  have "length (concat (map enc bs)) = length (concat bs)"
    using bs(2) by (induction bs) (simp_all add: enc_length)
  then show ?thesis unfolding bs(1) map_blocks_all [OF bs(2)] .
qed

lemma dec_enc_blocks:
  assumes "length x = 16 * n"
  shows "map_blocks dec (map_blocks enc x 0 []) 0 [] = x"
proof -
  obtain bs where bs: "x = concat bs" "\<forall>b \<in> set bs. length b = 16" "length bs = n"
    by (rule blocks_exist [OF assms])
  have "map_blocks dec (concat (map enc bs)) 0 [] = concat (map dec (map enc bs))"
    using bs(2) by (intro map_blocks_all) (simp add: enc_length)
  also have "map dec (map enc bs) = bs"
    using bs(2) by (simp add: o_def dec_enc map_idI)
  finally show ?thesis by (simp only: bs(1) map_blocks_all [OF bs(2)])
qed

lemma enc_blocks_nth:
  assumes "length x = 16 * n" "i < n"
  shows "take 16 (drop (16 * i) (map_blocks enc x 0 [])) = enc (take 16 (drop (16 * i) x))"
proof -
  obtain bs where bs: "x = concat bs" "\<forall>b \<in> set bs. length b = 16" "length bs = n"
    by (rule blocks_exist [OF assms(1)])
  have nth: "take 16 (drop (16 * i) (concat cs)) = cs ! i"
    if "\<forall>b \<in> set cs. length b = 16" "i < length cs" for i and cs :: "bytes list"
    using that by (induction cs arbitrary: i) (auto simp: nth_Cons split: nat.splits)
  show ?thesis
    using assms(2) bs(2,3) enc_length unfolding bs(1) map_blocks_all [OF bs(2)]
    by (subst nth) (auto simp: nth)
qed

end

lemma pad_blocks: "length (pkcs7_pad s) = 16 * (8 * (length s div 128 + 1))"
  by (simp add: length_pkcs7_pad)

section \<open>Properties\<close>

text \<open>
  C13: a non-empty text survives: encryption succeeds, the ciphertext has
  \<open>128 * (n div 128 + 1)\<close> bytes for a text of \<open>n\<close>, and decryption with the same key returns
  the text.
\<close>

theorem aes256_roundtrip:
  assumes "s \<noteq> []"
  shows "\<exists>c. aes256_encrypt a s = Inr c \<and> length c = 128 * (length s div 128 + 1) \<and>
    aes256_decrypt a c = Inr s"
proof -
  let ?c = "map_blocks (encrypt a) (pkcs7_pad s) 0 []"
  have len: "length ?c = 128 * (length s div 128 + 1)"
    using aes.enc_blocks_length [OF pad_blocks] by (simp only: length_pkcs7_pad)
  moreover have "aes256_decrypt a ?c = Inr s"
  proof -
    have "?c \<noteq> []" "length ?c mod 16 = 0" using len by auto
    then show ?thesis
      by (simp add: aes256_decrypt_def aes.dec_enc_blocks [OF pad_blocks] unpad_pad)
  qed
  ultimately show ?thesis using assms by (simp add: aes256_encrypt_def)
qed

theorem aes256_roundtrip_witness:
  "\<exists>c. aes256_encrypt (aes256_of_key (replicate 32 7)) [1, 2, 3] = Inr c \<and>
    length c = 128 * (length [1, 2, 3 :: byte] div 128 + 1) \<and>
    aes256_decrypt (aes256_of_key (replicate 32 7)) c = Inr [1, 2, 3]"
  by (rule aes256_roundtrip) simp

text \<open>
  \<open>pkcs7_unpad\<close> accepts exactly the byte strings that end in \<open>n\<close> copies of the byte \<open>n\<close>,
  for some \<open>n\<close> from 1 to 255, and returns the rest; everything else, the empty string
  included, is refused with \<open>std::invalid_argument\<close>.
\<close>

theorem pkcs7_unpad_exact:
  "(pkcs7_unpad x = Inr s) = (\<exists>n. 0 < n \<and> n < 256 \<and> x = s @ replicate n (word_of_nat n)) \<and>
   ((\<exists>r. pkcs7_unpad x = Inr r) \<or> (\<exists>m. pkcs7_unpad x = Inl (Invalid_argument m)))"
proof
  show "(pkcs7_unpad x = Inr s) = (\<exists>n. 0 < n \<and> n < 256 \<and> x = s @ replicate n (word_of_nat n))"
    by (rule unpad_iff)
  show "(\<exists>r. pkcs7_unpad x = Inr r) \<or> (\<exists>m. pkcs7_unpad x = Inl (Invalid_argument m))"
    by (simp add: pkcs7_unpad_def Let_def)
qed

text \<open>
  blocks are encrypted one by one without an initialisation vector: two equal blocks
  of the text give equal blocks of the ciphertext.
\<close>

theorem aes256_repeats_blocks:
  assumes "aes256_encrypt a s = Inr c"
    and "16 * i + 16 \<le> length s" "16 * j + 16 \<le> length s"
    and "take 16 (drop (16 * i) s) = take 16 (drop (16 * j) s)"
  shows "take 16 (drop (16 * i) c) = take 16 (drop (16 * j) c)"
proof -
  let ?n = "8 * (length s div 128 + 1)"
  have c: "c = map_blocks (encrypt a) (pkcs7_pad s) 0 []"
    using assms(1) by (simp add: aes256_encrypt_def split: if_splits)
  have n: "length s \<le> 16 * ?n"
    using pad_blocks [of s] by (simp add: pkcs7_pad_eq Let_def)
  have block: "take 16 (drop (16 * k) (pkcs7_pad s)) = take 16 (drop (16 * k) s)"
    if "16 * k + 16 \<le> length s" for k
    using that by (simp add: pkcs7_pad_eq Let_def)
  show ?thesis
    using assms(2-4) n by (simp add: c aes.enc_blocks_nth [OF pad_blocks] block)
qed

theorem aes256_repeats_blocks_witness:
  "\<exists>c. aes256_encrypt (aes256_of_key (replicate 32 7)) (replicate 32 5) = Inr c \<and>
    take 16 (drop 0 c) = take 16 (drop 16 c)"
proof -
  obtain c where c: "aes256_encrypt (aes256_of_key (replicate 32 7)) (replicate 32 5) = Inr c"
    by (simp add: aes256_encrypt_def)
  have "take 16 (drop (16 * 0) c) = take 16 (drop (16 * 1) c)"
    by (rule aes256_repeats_blocks [OF c]) simp_all
  with c show ?thesis by auto
qed

end
