(* ===== verification/Fips180.thy ===== *)
theory Fips180
  imports Prelude
begin

text \<open>
  SHA-256 as FIPS 180-4 defines it, with nothing taken from the code of the repository: the
  functions of section 4.1.2, the constants of sections 4.2.2 and 5.3.3 as the fractional
  parts of roots of primes, the padding of section 5.1.1, the parsing of section 5.2.1 and
  the computation of section 6.2. \<open>Sha256\<close> shows that the hash object agrees with it.
\<close>

section \<open>Functions\<close>

definition Ch :: "u32 \<Rightarrow> u32 \<Rightarrow> u32 \<Rightarrow> u32" where
  "Ch x y z = (x AND y) XOR (NOT x AND z)"

definition Maj :: "u32 \<Rightarrow> u32 \<Rightarrow> u32 \<Rightarrow> u32" where
  "Maj x y z = (x AND y) XOR (x AND z) XOR (y AND z)"

definition Sigma_0 :: "u32 \<Rightarrow> u32" where
  "Sigma_0 x = word_rotr 2 x XOR word_rotr 13 x XOR word_rotr 22 x"

definition Sigma_1 :: "u32 \<Rightarrow> u32" where
  "Sigma_1 x = word_rotr 6 x XOR word_rotr 11 x XOR word_rotr 25 x"

definition sigma_0 :: "u32 \<Rightarrow> u32" where
  "sigma_0 x = word_rotr 7 x XOR word_rotr 18 x XOR drop_bit 3 x"

definition sigma_1 :: "u32 \<Rightarrow> u32" where
  "sigma_1 x = word_rotr 17 x XOR word_rotr 19 x XOR drop_bit 10 x"

section \<open>Constants\<close>

text \<open>
  The first 32 bits of the fractional part of the \<open>k\<close>-th root of a prime: the root times
  \<open>2 ^ 32\<close>, rounded down, which is the greatest number whose \<open>k\<close>-th power is at most
  \<open>p * 2 ^ (32 * k)\<close>; a word keeps its low 32 bits.
\<close>

definition root_bits :: "nat \<Rightarrow> int \<Rightarrow> u32" where
  "root_bits k p = word_of_int (GREATEST n. n ^ k \<le> p * 2 ^ (32 * k))"

fun sieve :: "int list \<Rightarrow> int list" where
  "sieve [] = []"
| "sieve (p # ns) = p # sieve (filter (\<lambda>n. n mod p \<noteq> 0) ns)"

definition primes_below :: "int \<Rightarrow> int list" where
  "primes_below n = sieve [2..n - 1]"

text \<open>The primes by the sieve of Eratosthenes; there are 64 primes below 312 and 8 below 20.\<close>

definition round_constants :: "u32 list" where
  "round_constants = map (root_bits 3) (primes_below 312)"

definition initial_hash :: "u32 list" where
  "initial_hash = map (root_bits 2) (primes_below 20)"

text \<open>Rounding down is certified by a power below and one above.\<close>

definition root_check :: "nat \<Rightarrow> int \<Rightarrow> int \<Rightarrow> bool" where
  "root_check k p n \<longleftrightarrow> 0 \<le> n \<and> n ^ k \<le> p * 2 ^ (32 * k) \<and> p * 2 ^ (32 * k) < (n + 1) ^ k"

lemma root_bits_eq:
  assumes "root_check k p n"
  shows "root_bits k p = word_of_int n"
proof -
  have "(GREATEST n. n ^ k \<le> p * 2 ^ (32 * k)) = n"
  proof (rule Greatest_equality)
    fix y assume y: "y ^ k \<le> p * 2 ^ (32 * k)"
    show "y \<le> n"
    proof (rule ccontr)
      assume "\<not> y \<le> n"
      then have "(n + 1) ^ k \<le> y ^ k"
        using assms by (intro power_mono) (auto simp: root_check_def)
      then show False using assms y by (simp add: root_check_def)
    qed
  qed (use assms in \<open>simp add: root_check_def\<close>)
  then show ?thesis by (simp add: root_bits_def)
qed

lemma map_root_bits:
  "list_all2 (root_check k) ps ns \<Longrightarrow> map (root_bits k) ps = map word_of_int ns"
  by (induction rule: list_all2_induct) (simp_all add: root_bits_eq)

lemma primes_20: "primes_below 20 = [2, 3, 5, 7, 11, 13, 17, 19]"
  by code_simp

lemma primes_312: "primes_below 312 = [
    2, 3, 5, 7, 11, 13, 17, 19, 23, 29, 31, 37, 41, 43, 47, 53, 59, 61, 67, 71, 73, 79, 83, 89,
    97, 101, 103, 107, 109, 113, 127, 131, 137, 139, 149, 151, 157, 163, 167, 173, 179, 181,
    191, 193, 197, 199, 211, 223, 227, 229, 233, 239, 241, 251, 257, 263, 269, 271, 277, 281,
    283, 293, 307, 311]"
  by code_simp

definition cube_roots :: "int list" where
  "cube_roots = [
    0x1428a2f98, 0x171374491, 0x1b5c0fbcf, 0x1e9b5dba5, 0x23956c25b, 0x259f111f1, 0x2923f82a4,
    0x2ab1c5ed5, 0x2d807aa98, 0x312835b01, 0x3243185be, 0x3550c7dc3, 0x372be5d74, 0x380deb1fe,
    0x39bdc06a7, 0x3c19bf174, 0x3e49b69c1, 0x3efbe4786, 0x40fc19dc6, 0x4240ca1cc, 0x42de92c6f,
    0x44a7484aa, 0x45cb0a9dc, 0x476f988da, 0x4983e5152, 0x4a831c66d, 0x4b00327c8, 0x4bf597fc7,
    0x4c6e00bf3, 0x4d5a79147, 0x506ca6351, 0x514292967, 0x527b70a85, 0x52e1b2138, 0x54d2c6dfc,
    0x553380d13, 0x5650a7354, 0x5766a0abb, 0x581c2c92e, 0x592722c85, 0x5a2bfe8a1, 0x5a81a664b,
    0x5c24b8b70, 0x5c76c51a3, 0x5d192e819, 0x5d6990624, 0x5f40e3585, 0x6106aa070, 0x619a4c116,
    0x61e376c08, 0x62748774c, 0x634b0bcb5, 0x6391c0cb3, 0x64ed8aa4a, 0x65b9cca4f, 0x6682e6ff3,
    0x6748f82ee, 0x678a5636f, 0x684c87814, 0x68cc70208, 0x690befffa, 0x6a4506ceb, 0x6bef9a3f7,
    0x6c67178f2]"

definition square_roots :: "int list" where
  "square_roots = [
    0x16a09e667, 0x1bb67ae85, 0x23c6ef372, 0x2a54ff53a, 0x3510e527f, 0x39b05688c, 0x41f83d9ab,
    0x45be0cd19]"

lemma round_constants_eq: "round_constants = map word_of_int cube_roots"
  unfolding round_constants_def primes_312 cube_roots_def
  by (rule map_root_bits) (simp_all add: root_check_def)

lemma initial_hash_eq: "initial_hash = map word_of_int square_roots"
  unfolding initial_hash_def primes_20 square_roots_def
  by (rule map_root_bits) (simp_all add: root_check_def)

section \<open>Padding and parsing\<close>

text \<open>
  The bit 1, as few zero bits as make whole blocks, and the length in bits, in 64 bits with
  the high byte first.
\<close>

definition padding :: "nat \<Rightarrow> bytes" where
  "padding n = 0x80 # replicate (nat ((55 - int n) mod 64)) 0 @
     map (\<lambda>i. word_of_nat (8 * n div 256 ^ i)) [7, 6, 5, 4, 3, 2, 1, 0]"

function blocks :: "bytes \<Rightarrow> bytes list" where
  "blocks m = (if length m < 64 then [] else take 64 m # blocks (drop 64 m))"
  by pat_completeness auto
termination
  by (relation "measure length") auto

declare blocks.simps [simp del]

text \<open>Word \<open>t\<close> of a block, the high byte first.\<close>

definition block_word :: "bytes \<Rightarrow> nat \<Rightarrow> u32" where
  "block_word b t = word_of_nat
     (unat (b ! (4 * t)) * 256 ^ 3 + unat (b ! (4 * t + 1)) * 256 ^ 2 +
      unat (b ! (4 * t + 2)) * 256 + unat (b ! (4 * t + 3)))"

section \<open>Computation\<close>

fun schedule :: "bytes \<Rightarrow> nat \<Rightarrow> u32" where
  "schedule b t = (if t < 16 then block_word b t
     else sigma_1 (schedule b (t - 2)) + schedule b (t - 7) + sigma_0 (schedule b (t - 15)) + schedule b (t - 16))"

declare schedule.simps [simp del]

type_synonym working = "u32 \<times> u32 \<times> u32 \<times> u32 \<times> u32 \<times> u32 \<times> u32 \<times> u32"

fun fips_round :: "bytes \<Rightarrow> nat \<Rightarrow> working \<Rightarrow> working" where
  "fips_round blk t (a, b, c, d, e, f, g, h) =
     (let T1 = h + Sigma_1 e + Ch e f g + round_constants ! t + schedule blk t;
          T2 = Sigma_0 a + Maj a b c
      in (T1 + T2, a, b, c, d + T1, e, f, g))"

fun fips_block :: "working \<Rightarrow> bytes \<Rightarrow> working" where
  "fips_block (h0, h1, h2, h3, h4, h5, h6, h7) blk =
     (case fold (fips_round blk) [0..<64] (h0, h1, h2, h3, h4, h5, h6, h7) of
        (a, b, c, d, e, f, g, h) \<Rightarrow> (a + h0, b + h1, c + h2, d + h3, e + h4, f + h5, g + h6, h + h7))"

fun working_of :: "u32 list \<Rightarrow> working" where
  "working_of v = (v ! 0, v ! 1, v ! 2, v ! 3, v ! 4, v ! 5, v ! 6, v ! 7)"

text \<open>The digest, the eight words of the last hash value, and its hexadecimal digits.\<close>

definition sha_256 :: "bytes \<Rightarrow> u32 list" where
  "sha_256 m = (case foldl fips_block (working_of initial_hash) (blocks (m @ padding (length m))) of
     (a, b, c, d, e, f, g, h) \<Rightarrow> [a, b, c, d, e, f, g, h])"

definition hex8 :: "u32 \<Rightarrow> string" where
  "hex8 w = map (\<lambda>i. ''0123456789abcdef'' ! (unat w div 16 ^ i mod 16)) [7, 6, 5, 4, 3, 2, 1, 0]"

definition sha_256_hex :: "bytes \<Rightarrow> string" where
  "sha_256_hex m = concat (map hex8 (sha_256 m))"

end
