(* ===== verification/Sha256.thy ===== *)
theory Sha256
  imports Fips180
begin

text \<open>
  The hash object of \<open>crypto/src/sha256.cpp\<close> and \<open>crypto/include/sha256.hpp\<close>: its chaining
  state, its buffer of at most 63 bytes between calls and its bit counter. The digest is
  compared with the SHA-256 of the standard, which \<open>Fips180\<close> defines on its own.
\<close>

section \<open>State\<close>

record sha256 =
  sha_state :: "u32 list"
  sha_buffer :: bytes
  total_length :: u64

definition initial_state :: "u32 list" where
  "initial_state = [0x6a09e667, 0xbb67ae85, 0x3c6ef372, 0xa54ff53a,
    0x510e527f, 0x9b05688c, 0x1f83d9ab, 0x5be0cd19]"

definition sha256_new :: sha256 where
  "sha256_new = \<lparr>sha_state = initial_state, sha_buffer = [], total_length = 0\<rparr>"

definition K :: "u32 list" where
  "K = concat [
    [0x428a2f98, 0x71374491, 0xb5c0fbcf, 0xe9b5dba5],
    [0x3956c25b, 0x59f111f1, 0x923f82a4, 0xab1c5ed5],
    [0xd807aa98, 0x12835b01, 0x243185be, 0x550c7dc3],
    [0x72be5d74, 0x80deb1fe, 0x9bdc06a7, 0xc19bf174],
    [0xe49b69c1, 0xefbe4786, 0x0fc19dc6, 0x240ca1cc],
    [0x2de92c6f, 0x4a7484aa, 0x5cb0a9dc, 0x76f988da],
    [0x983e5152, 0xa831c66d, 0xb00327c8, 0xbf597fc7],
    [0xc6e00bf3, 0xd5a79147, 0x06ca6351, 0x14292967],
    [0x27b70a85, 0x2e1b2138, 0x4d2c6dfc, 0x53380d13],
    [0x650a7354, 0x766a0abb, 0x81c2c92e, 0x92722c85],
    [0xa2bfe8a1, 0xa81a664b, 0xc24b8b70, 0xc76c51a3],
    [0xd192e819, 0xd6990624, 0xf40e3585, 0x106aa070],
    [0x19a4c116, 0x1e376c08, 0x2748774c, 0x34b0bcb5],
    [0x391c0cb3, 0x4ed8aa4a, 0x5b9cca4f, 0x682e6ff3],
    [0x748f82ee, 0x78a5636f, 0x84c87814, 0x8cc70208],
    [0x90befffa, 0xa4506ceb, 0xbef9a3f7, 0xc67178f2]]"

section \<open>Compression\<close>

definition rotr :: "u32 \<Rightarrow> nat \<Rightarrow> u32" where
  "rotr word bits = drop_bit bits word OR push_bit (32 - bits) word"

definition ch :: "u32 \<Rightarrow> u32 \<Rightarrow> u32 \<Rightarrow> u32" where
  "ch x y z = (x AND y) XOR (NOT x AND z)"

definition maj :: "u32 \<Rightarrow> u32 \<Rightarrow> u32 \<Rightarrow> u32" where
  "maj x y z = (x AND y) XOR (x AND z) XOR (y AND z)"

definition ep0 :: "u32 \<Rightarrow> u32" where
  "ep0 x = rotr x 2 XOR rotr x 13 XOR rotr x 22"

definition ep1 :: "u32 \<Rightarrow> u32" where
  "ep1 x = rotr x 6 XOR rotr x 11 XOR rotr x 25"

definition sig0 :: "u32 \<Rightarrow> u32" where
  "sig0 x = rotr x 7 XOR rotr x 18 XOR drop_bit 3 x"

definition sig1 :: "u32 \<Rightarrow> u32" where
  "sig1 x = rotr x 17 XOR rotr x 19 XOR drop_bit 10 x"

text \<open>The message words: 16 loaded from the data, 48 more computed from them.\<close>

definition load_word :: "bytes \<Rightarrow> nat \<Rightarrow> u32" where
  "load_word data i =
     push_bit 24 (ucast (data ! (i * 4))) OR push_bit 16 (ucast (data ! (i * 4 + 1))) OR
     push_bit 8 (ucast (data ! (i * 4 + 2))) OR ucast (data ! (i * 4 + 3))"

definition extend_words :: "u32 list \<Rightarrow> nat \<Rightarrow> u32 list" where
  "extend_words w i = w @ [sig1 (w ! (i - 2)) + w ! (i - 7) + sig0 (w ! (i - 15)) + w ! (i - 16)]"

definition message_words :: "bytes \<Rightarrow> u32 list" where
  "message_words data = foldl extend_words (map (load_word data) [0..<16]) [16..<64]"

text \<open>One round on the working variables \<open>a\<close> to \<open>h\<close>, with its two temporaries.\<close>

definition sha_shift :: "u32 list \<Rightarrow> u32 \<Rightarrow> u32 \<Rightarrow> u32 list" where
  "sha_shift v temp1 temp2 =
     [temp1 + temp2, v ! 0, v ! 1, v ! 2, v ! 3 + temp1, v ! 4, v ! 5, v ! 6]"

definition sha_round :: "u32 list \<Rightarrow> u32 list \<Rightarrow> nat \<Rightarrow> u32 list" where
  "sha_round w v i = sha_shift v
     (v ! 7 + ep1 (v ! 4) + ch (v ! 4) (v ! 5) (v ! 6) + K ! i + w ! i)
     (ep0 (v ! 0) + maj (v ! 0) (v ! 1) (v ! 2))"

definition sha_rounds :: "u32 list \<Rightarrow> u32 list \<Rightarrow> u32 list" where
  "sha_rounds w v = foldl (sha_round w) v [0..<64]"

definition add_states :: "u32 list \<Rightarrow> u32 list \<Rightarrow> u32 list" where
  "add_states s v = map (\<lambda>i. s ! i + v ! i) [0..<8]"

definition compress :: "u32 list \<Rightarrow> bytes \<Rightarrow> u32 list" where
  "compress s data = add_states s (sha_rounds (message_words data) s)"

definition transform :: "bytes \<Rightarrow> sha256 \<Rightarrow> sha256" where
  "transform data s = s\<lparr>sha_state := compress (sha_state s) data\<rparr>"

section \<open>Operations\<close>

definition update_byte :: "sha256 \<Rightarrow> byte \<Rightarrow> sha256" where
  "update_byte s x =
     (let s' = s\<lparr>sha_buffer := sha_buffer s @ [x]\<rparr>
      in if length (sha_buffer s') = 64 then (transform (sha_buffer s') s')\<lparr>sha_buffer := []\<rparr> else s')"

definition update :: "sha256 \<Rightarrow> bytes \<Rightarrow> sha256" where
  "update s data =
     foldl update_byte (s\<lparr>total_length := total_length s + word_of_nat (length data) * 8\<rparr>) data"

function zero_fill :: "bytes \<Rightarrow> bytes" where
  "zero_fill buffer = (if length buffer < 56 then zero_fill (buffer @ [0]) else buffer)"
  by pat_completeness auto
termination
  by (relation "measure (\<lambda>buffer. 56 - length buffer)") auto

declare zero_fill.simps [simp del]

definition length_bytes :: "u64 \<Rightarrow> bytes" where
  "length_bytes final_length = map (\<lambda>i. ucast (drop_bit (i * 8) final_length AND 0xFF)) (rev [0..<8])"

definition pad :: "sha256 \<Rightarrow> sha256" where
  "pad s =
     (let buffer = zero_fill (sha_buffer s @ [0x80]) @ length_bytes (total_length s)
      in transform buffer (s\<lparr>sha_buffer := buffer\<rparr>))"

text \<open>\<open>std::hex\<close> with width 8 and fill character 0: the eight digits of a word.\<close>

definition hex_digit :: "nat \<Rightarrow> char" where
  "hex_digit n = ''0123456789abcdef'' ! n"

definition hex_word :: "u32 \<Rightarrow> string" where
  "hex_word w = map (\<lambda>i. hex_digit (unat (drop_bit (4 * i) w AND 0xF))) (rev [0..<8])"

definition digest :: "sha256 \<Rightarrow> string \<times> sha256" where
  "digest s =
     (let p = pad s
      in (concat (map (\<lambda>i. hex_word (sha_state p ! i)) [0..<8]),
          p\<lparr>sha_state := initial_state, sha_buffer := [], total_length := 0\<rparr>))"

text \<open>The use of the class in the client: a fresh object, one update, one digest.\<close>

definition sha256_hex :: "bytes \<Rightarrow> string" where
  "sha256_hex m = fst (digest (update sha256_new m))"

section \<open>Whole blocks\<close>

text \<open>The compression folded over the whole blocks of a message, and the bytes after the last.\<close>

function compress_blocks :: "u32 list \<Rightarrow> bytes \<Rightarrow> u32 list" where
  "compress_blocks s m = (if length m < 64 then s else compress_blocks (compress s (take 64 m)) (drop 64 m))"
  by pat_completeness auto
termination
  by (relation "measure (\<lambda>(s, m). length m)") auto

declare compress_blocks.simps [simp del]

definition rest :: "bytes \<Rightarrow> bytes" where
  "rest m = drop (64 * (length m div 64)) m"

section \<open>Updating folds the compression over whole blocks\<close>

lemma rest_short: "length m < 64 \<Longrightarrow> rest m = m"
  by (simp add: rest_def)

lemma rest_block: "length b = 64 \<Longrightarrow> rest (b @ m) = rest m"
  by (simp add: rest_def div_add_self1)

lemma length_rest: "length (rest m) = length m mod 64"
  by (simp add: rest_def minus_mult_div_eq_mod)

lemma compress_blocks_short: "length m < 64 \<Longrightarrow> compress_blocks s m = s"
  by (simp add: compress_blocks.simps)

lemma compress_blocks_block: "length b = 64 \<Longrightarrow> compress_blocks s (b @ m) = compress_blocks (compress s b) m"
  by (subst compress_blocks.simps) simp

lemma foldl_update_byte:
  assumes "length (sha_buffer s) < 64"
  shows "foldl update_byte s data =
    s\<lparr>sha_state := compress_blocks (sha_state s) (sha_buffer s @ data), sha_buffer := rest (sha_buffer s @ data)\<rparr>"
  using assms
proof (induction data arbitrary: s)
  case Nil
  then show ?case by (simp add: compress_blocks_short rest_short)
next
  case (Cons x data)
  show ?case
  proof (cases "length (sha_buffer s @ [x]) = 64")
    case True
    then have "update_byte s x = s\<lparr>sha_state := compress (sha_state s) (sha_buffer s @ [x]), sha_buffer := []\<rparr>"
      by (simp add: update_byte_def transform_def)
    then show ?thesis
      using Cons.IH compress_blocks_block [OF True] rest_block [OF True] by simp
  next
    case False
    then have "update_byte s x = s\<lparr>sha_buffer := sha_buffer s @ [x]\<rparr>"
      by (simp add: update_byte_def)
    moreover have "length (sha_buffer s @ [x]) < 64"
      using False Cons.prems by simp
    ultimately show ?thesis
      using Cons.IH [of "s\<lparr>sha_buffer := sha_buffer s @ [x]\<rparr>"] by simp
  qed
qed

lemma compress_blocks_rest: "compress_blocks s (m @ p) = compress_blocks (compress_blocks s m) (rest m @ p)"
proof (induction s m rule: compress_blocks.induct)
  case (1 s m)
  show ?case
  proof (cases "length m < 64")
    case True
    then show ?thesis by (simp add: compress_blocks_short rest_short)
  next
    case False
    then have b: "length (take 64 m) = 64" by simp
    have "compress_blocks s (m @ p) = compress_blocks (compress s (take 64 m)) (drop 64 m @ p)"
      using compress_blocks_block [OF b, of s "drop 64 m @ p"] by (simp flip: append_assoc)
    also have "\<dots> = compress_blocks (compress_blocks (compress s (take 64 m)) (drop 64 m)) (rest (drop 64 m) @ p)"
      by (rule "1.IH" [OF False])
    also have "\<dots> = compress_blocks (compress_blocks s m) (rest m @ p)"
      using compress_blocks_block [OF b, of s "drop 64 m"] rest_block [OF b, of "drop 64 m"] by simp
    finally show ?thesis .
  qed
qed

lemma rest_append: "rest (rest m @ b) = rest (m @ b)"
proof -
  have "length m = 64 * (length m div 64) + length (rest m)"
    by (simp add: length_rest)
  moreover have "m = take (64 * (length m div 64)) m @ rest m"
    by (simp add: rest_def)
  moreover have "rest (c @ d) = rest d" if "length c = 64 * k" for c d k
    using that by (simp add: rest_def)
  ultimately show ?thesis
    by (metis append_assoc length_take min.absorb2 mult.commute times_div_less_eq_dividend)
qed

lemma update_eq:
  assumes "length (sha_buffer s) < 64"
  shows "update s data = \<lparr>sha_state = compress_blocks (sha_state s) (sha_buffer s @ data),
    sha_buffer = rest (sha_buffer s @ data), total_length = total_length s + word_of_nat (length data) * 8\<rparr>"
  using assms by (cases s) (simp add: update_def foldl_update_byte)

section \<open>Padding and the last block\<close>

lemma zero_fill_eq: "zero_fill b = b @ replicate (56 - length b) 0"
proof (induction b rule: zero_fill.induct)
  case (1 b)
  show ?case
  proof (cases "length b < 56")
    case True
    then have "56 - length b = Suc (56 - length (b @ [0]))" by simp
    with True "1.IH" show ?thesis by (simp add: zero_fill.simps [of b])
  next
    case False
    then show ?thesis by (simp add: zero_fill.simps [of b])
  qed
qed

lemma length_length_bytes [simp]: "length (length_bytes n) = 8"
  by (simp add: length_bytes_def)

lemma load_word_take: "i < 16 \<Longrightarrow> 64 \<le> length d \<Longrightarrow> load_word (take 64 d) i = load_word d i"
  by (simp add: load_word_def)

lemma compress_take:
  assumes "64 \<le> length d"
  shows "compress s (take 64 d) = compress s d"
proof -
  have "map (load_word (take 64 d)) [0..<16] = map (load_word d) [0..<16]"
    by (rule map_cong) (use assms in \<open>auto simp: load_word_take\<close>)
  then show ?thesis by (simp only: compress_def message_words_def)
qed

lemma pad_state:
  "sha_state (pad s) = compress (sha_state s)
     (zero_fill (sha_buffer s @ [0x80]) @ length_bytes (total_length s))"
  by (simp add: pad_def transform_def Let_def)

text \<open>The hexadecimal form of a state.\<close>

definition hex_state :: "u32 list \<Rightarrow> string" where
  "hex_state v = concat (map (\<lambda>i. hex_word (v ! i)) [0..<8])"

lemma digest_hex: "fst (digest s) = hex_state (sha_state (pad s))"
  by (simp add: digest_def hex_state_def Let_def)

lemma sha256_hex_eq:
  "sha256_hex m = hex_state (compress (compress_blocks initial_state m)
     (zero_fill (rest m @ [0x80]) @ length_bytes (word_of_nat (length m) * 8)))"
  by (simp add: sha256_hex_def digest_hex pad_state update_eq sha256_new_def)

section \<open>Agreement with the standard\<close>

subsection \<open>Functions, constants and message words\<close>

lemma upt_8: "[0..<8] = [0, 1, 2, 3, 4, 5, 6, 7::nat]"
  by (simp add: upt_rec)

lemma rev_upt_8: "rev [0..<8] = [7, 6, 5, 4, 3, 2, 1, 0::nat]"
  by (simp add: upt_8)

lemma rotr_word: "0 < n \<Longrightarrow> n < 32 \<Longrightarrow> rotr w n = word_rotr n w"
proof (rule bit_word_eqI)
  fix i
  assume "0 < n" "n < 32" "i < LENGTH(32)"
  then show "bit (rotr w n) i = bit (word_rotr n w) i"
    by (cases "i + n < 32")
      (auto simp: rotr_def bit_or_iff bit_drop_bit_eq bit_push_bit_iff bit_word_rotr_iff add.commute le_mod_geq
        dest: bit_imp_le_length)
qed

lemma functions_fips:
  "ch = Ch" "maj = Maj" "ep0 = Sigma_0" "ep1 = Sigma_1" "sig0 = sigma_0" "sig1 = sigma_1"
  by (simp_all add: fun_eq_iff ch_def Ch_def maj_def Maj_def ep0_def Sigma_0_def ep1_def Sigma_1_def
      sig0_def sigma_0_def sig1_def sigma_1_def rotr_word)

lemma constants_fips: "K = round_constants" "initial_state = initial_hash"
  by (simp_all add: K_def round_constants_eq cube_roots_def initial_state_def initial_hash_eq square_roots_def)

lemma or_byte: "push_bit (k + 8) x OR push_bit k (ucast (b::byte)) = push_bit (k + 8) x + push_bit k (ucast b)"
  for k and x :: u32 and b
  by (rule disjunctive_add_eq_or [symmetric])
    (rule bit_word_eqI, auto simp: bit_and_iff bit_push_bit_iff bit_unsigned_iff dest: bit_imp_le_length)

lemma load_word_fips: "load_word d i = block_word d i"
proof -
  obtain a b c e where abc: "a = d ! (i * 4)" "b = d ! Suc (i * 4)" "c = d ! Suc (Suc (i * 4))" "e = d ! (i * 4 + 3)" by simp
  have "load_word d i = push_bit 24 (ucast a) + push_bit 16 (ucast b) + push_bit 8 (ucast c) + ucast e"
    using or_byte [of 16 "ucast a" b] or_byte [of 8 "push_bit 8 (ucast a) + ucast b" c] or_byte [of 0 "push_bit 16 (ucast a) + push_bit 8 (ucast b) + ucast c" e]
    by (simp add: load_word_def push_bit_add flip: abc or.assoc)
  then show ?thesis
    by (simp add: block_word_def push_bit_eq_mult mult.commute flip: abc)
qed

lemma message_words_fips:
  assumes "16 \<le> n"
  shows "length (foldl extend_words (map (load_word d) [0..<16]) [16..<n]) = n \<and>
    (\<forall>t < n. foldl extend_words (map (load_word d) [0..<16]) [16..<n] ! t = schedule d t)"
  using assms
proof (induction n rule: dec_induct)
  case base
  then show ?case by (simp add: load_word_fips schedule.simps)
next
  case (step n)
  let ?w = "foldl extend_words (map (load_word d) [0..<16]) [16..<n]"
  have IH: "length ?w = n" "\<And>t. t < n \<Longrightarrow> ?w ! t = schedule d t"
    using step by auto
  then have "extend_words ?w n = ?w @ [schedule d n]"
    using step(1) by (simp add: extend_words_def functions_fips schedule.simps [of d n])
  with IH step(1) show ?case by (auto simp: nth_append less_Suc_eq)
qed

lemma message_words_nth: "t < 64 \<Longrightarrow> message_words d ! t = schedule d t"
  using message_words_fips [of 64 d] by (simp add: message_words_def)

subsection \<open>Compression\<close>

lemma sha_round_fips:
  "t < 64 \<Longrightarrow> working_of (sha_round (message_words d) v t) = fips_round d t (working_of v)"
  by (simp add: sha_round_def sha_shift_def functions_fips constants_fips message_words_nth Let_def)

lemma sha_rounds_fips:
  "n \<le> 64 \<Longrightarrow> working_of (foldl (sha_round (message_words d)) v [0..<n]) = fold (fips_round d) [0..<n] (working_of v)"
  by (induction n) (simp_all add: sha_round_fips del: working_of.simps)

lemma compress_fips: "working_of (compress s d) = fips_block (working_of s) d"
proof -
  define v where "v = sha_rounds (message_words d) s"
  have "fold (fips_round d) [0..<64] (working_of s) = working_of v"
    by (simp add: v_def sha_rounds_def sha_rounds_fips del: working_of.simps)
  then show ?thesis
    by (simp add: compress_def add_states_def upt_8 add.commute flip: v_def)
qed

lemma compress_blocks_fips: "working_of (compress_blocks s m) = foldl fips_block (working_of s) (blocks m)"
  by (induction s m rule: compress_blocks.induct)
    (simp add: compress_blocks.simps blocks.simps compress_fips del: working_of.simps)

subsection \<open>Padding and digits\<close>

lemma length_byte_fips:
  "i < 8 \<Longrightarrow> ucast (drop_bit (i * 8) (word_of_nat n :: u64) AND 0xFF) = (word_of_nat (n div 256 ^ i) :: byte)"
proof (rule bit_word_eqI)
  fix j
  assume "i < 8" "j < LENGTH(8)"
  moreover have "n div 256 ^ i = drop_bit (8 * i) n"
    by (simp add: drop_bit_eq_div power_mult)
  moreover have "bit (0xFF::64 word) j"
    using \<open>j < LENGTH(8)\<close> by (auto simp: less_Suc_eq eval_nat_numeral)
  ultimately show "bit (ucast (drop_bit (i * 8) (word_of_nat n :: u64) AND 0xFF) :: byte) j =
      bit (word_of_nat (n div 256 ^ i) :: byte) j"
    by (simp add: bit_simps bit_of_nat_iff mult.commute)
qed

lemma length_bytes_fips:
  "length_bytes (word_of_nat n * 8) = map (\<lambda>i. word_of_nat (8 * n div 256 ^ i)) [7, 6, 5, 4, 3, 2, 1, 0]"
proof -
  have w: "word_of_nat n * 8 = (word_of_nat (8 * n) :: u64)" by simp
  note u = rev_upt_8
  show ?thesis
    unfolding length_bytes_def w u
    by (rule map_cong [OF refl], rule length_byte_fips) auto
qed

lemma pad_count:
  assumes "n mod 64 < 56"
  shows "nat ((55 - int n) mod 64) = 55 - n mod 64"
proof -
  have "55 - int n = int (55 - n mod 64) + (- int (n div 64)) * 64"
    using assms div_mult_mod_eq [of n 64] by linarith
  then have "(55 - int n) mod 64 = int (55 - n mod 64) mod 64"
    by (simp only: mod_mult_self1)
  then show ?thesis by simp
qed

lemma padding_fits:
  assumes "length m mod 64 < 56"
  shows "rest m @ padding (length m) =
    zero_fill (rest m @ [0x80]) @ length_bytes (word_of_nat (length m) * 8)"
proof -
  have "nat ((55 - int (length m)) mod 64) = 55 - length m mod 64"
    using assms by (rule pad_count)
  then show ?thesis by (simp add: padding_def zero_fill_eq length_rest length_bytes_fips)
qed

lemma hex_word_fips: "hex_word w = hex8 w"
proof -
  note u = rev_upt_8
  have m: "x AND 0xF = take_bit 4 x" for x :: u32 by (simp add: take_bit_eq_mask mask_eq_exp_minus_1)
  have l: "unat w mod 4294967296 = unat w"
    using unsigned_less [of w, where 'a = nat] by simp
  have "unat (drop_bit (4 * i) w AND 0xF) = unat w div 16 ^ i mod 16" for i
    by (simp only: m unsigned_take_bit_eq unsigned_drop_bit_eq)
      (simp add: take_bit_eq_mod drop_bit_eq_div power_mult l)
  then show ?thesis by (simp only: hex_word_def hex8_def hex_digit_def u)
qed

lemma hex_state_fips:
  "hex_state v = concat (map hex8 (case working_of v of (a, b, c, d, e, f, g, h) \<Rightarrow> [a, b, c, d, e, f, g, h]))"
  by (simp add: hex_state_def hex_word_fips upt_8)

lemma sha256_hex_fips:
  assumes "length m mod 64 < 56"
  shows "sha256_hex m = sha_256_hex m"
proof -
  have len: "length (rest m @ padding (length m)) = 64"
    using assms unfolding padding_fits [OF assms] by (simp add: zero_fill_eq length_rest)
  let ?s = "compress_blocks initial_state (m @ padding (length m))"
  have "?s = compress (compress_blocks initial_state m) (rest m @ padding (length m))"
    using compress_blocks_block [OF len, of _ "[]"]
    by (simp add: compress_blocks_rest [of _ m] compress_blocks_short)
  then have "sha256_hex m = hex_state ?s"
    by (simp add: sha256_hex_eq padding_fits [OF assms])
  moreover have "working_of ?s = foldl fips_block (working_of initial_hash) (blocks (m @ padding (length m)))"
    by (simp only: compress_blocks_fips constants_fips)
  ultimately show ?thesis
    by (simp only: sha_256_hex_def sha_256_def hex_state_fips)
qed

section \<open>Properties\<close>

text \<open>
  C34: the digest of a message whose length leaves fewer than 56 bytes in the last block is
  the SHA-256 value that FIPS 180-4 defines, in 64 hexadecimal digits. The reference is the
  one of the theory \<open>Fips180\<close>, which shares no definition with the code: its own functions,
  schedule, rounds, padding, parsing and digits, and constants computed from roots of primes.
\<close>

theorem sha256_correct:
  assumes "length m mod 64 < 56"
  shows "sha256_hex m = sha_256_hex m"
  using assms by (rule sha256_hex_fips)

theorem sha256_correct_witness: "sha256_hex [0x61, 0x62, 0x63] = sha_256_hex [0x61, 0x62, 0x63]"
  by (rule sha256_correct) simp

text \<open>
  C35: the padding adds no second block when the length does not fit into the last one, so
  the hash has collisions that SHA-256 excludes: every 16-byte message has the digest of
  the 63-byte message that continues it with the byte 128 and 46 zeros.
\<close>

theorem sha256_collision:
  assumes "length m = 16"
  shows "sha256_hex m = sha256_hex (m @ 0x80 # replicate 46 0)"
proof -
  have lb: "length_bytes 128 = [0, 0, 0, 0, 0, 0, 0, 0x80]"
    by (simp add: length_bytes_def upt_rec)
  let ?d = "m @ 0x80 # replicate 46 0 @ [0x80]"
  have "replicate 46 (0::byte) = replicate 39 0 @ replicate 7 0"
    by (simp flip: replicate_add)
  moreover have "replicate 7 (0::byte) = [0, 0, 0, 0, 0, 0, 0]"
    by (simp add: eval_nat_numeral)
  ultimately have short: "zero_fill (rest m @ [0x80]) @ length_bytes (word_of_nat (length m) * 8) = ?d"
    using assms by (simp add: zero_fill_eq rest_short lb)
  have long: "zero_fill (rest (m @ 0x80 # replicate 46 0) @ [0x80]) = ?d"
    using assms by (simp add: zero_fill_eq rest_short)
  have "compress s (?d @ t) = compress s ?d" for s t
    using compress_take [of "?d @ t" s] assms by simp
  from this [of initial_state "length_bytes 504"] show ?thesis
    unfolding sha256_hex_eq short using assms long by (simp add: compress_blocks_short)
qed

theorem sha256_collision_witness:
  "replicate 16 1 \<noteq> replicate 16 (1::byte) @ 0x80 # replicate 46 0 \<and>
   sha256_hex (replicate 16 1) = sha256_hex (replicate 16 1 @ 0x80 # replicate 46 0)"
  using sha256_collision [of "replicate 16 1"] by simp

text \<open>
  hashing is incremental and reusable: updating with two pieces is updating with their
  concatenation, the buffer stays below one block, and a digest leaves a fresh object.
\<close>

theorem sha256_incremental:
  assumes "length (sha_buffer s) < 64"
  shows "update (update s a) b = update s (a @ b) \<and> length (sha_buffer (update s a)) < 64 \<and>
    snd (digest s) = sha256_new"
proof -
  let ?m = "sha_buffer s @ a"
  have a: "update s a = \<lparr>sha_state = compress_blocks (sha_state s) ?m, sha_buffer = rest ?m,
      total_length = total_length s + word_of_nat (length a) * 8\<rparr>"
    using assms by (rule update_eq)
  have "length (rest ?m) < 64" by (simp add: length_rest)
  then have "update (update s a) b = update s (a @ b)"
    using assms by (simp add: a update_eq rest_append compress_blocks_rest [of _ ?m b, symmetric] algebra_simps
      flip: append_assoc)
  moreover have "snd (digest s) = sha256_new"
    by (simp add: digest_def pad_def transform_def sha256_new_def Let_def)
  ultimately show ?thesis
    using \<open>length (rest ?m) < 64\<close> by (simp add: a)
qed

theorem sha256_incremental_witness:
  "update (update sha256_new [1, 2]) [3] = update sha256_new ([1, 2] @ [3]) \<and>
   length (sha_buffer (update sha256_new [1, 2])) < 64 \<and> snd (digest sha256_new) = sha256_new"
  by (rule sha256_incremental) (simp add: sha256_new_def)

end
