(* ===== verification/Number_Facts.thy ===== *)
theory Number_Facts
  imports Prelude
begin

text \<open>
  Number theory for the public-key code, on \<open>int\<close> as the model of \<open>cpp_int\<close>: primes,
  Euclid's lemma, Fermat's theorem, square roots of one, and the order of an element of the
  multiplicative group modulo a safe prime.
\<close>

section \<open>Primes\<close>

definition prime_int :: "int \<Rightarrow> bool" where
  "prime_int p \<longleftrightarrow> 1 < p \<and> (\<forall>d. 0 < d \<and> d dvd p \<longrightarrow> d = 1 \<or> d = p)"

lemma prime_int_gt: "prime_int p \<Longrightarrow> 1 < p"
  by (simp add: prime_int_def)

lemma prime_int_divisor: "prime_int p \<Longrightarrow> 0 < d \<Longrightarrow> d dvd p \<Longrightarrow> d = 1 \<or> d = p"
  by (auto simp: prime_int_def)

lemma prime_int_code: "prime_int p \<longleftrightarrow> 1 < p \<and> list_all (\<lambda>d. p mod d \<noteq> 0) [2..p - 1]"
proof
  assume p: "prime_int p"
  have "p mod d \<noteq> 0" if "2 \<le> d" "d \<le> p - 1" for d
    using prime_int_divisor [OF p, of d] that by auto
  then show "1 < p \<and> list_all (\<lambda>d. p mod d \<noteq> 0) [2..p - 1]"
    using prime_int_gt [OF p] by (simp add: list_all_iff)
next
  assume r: "1 < p \<and> list_all (\<lambda>d. p mod d \<noteq> 0) [2..p - 1]"
  have "d = 1 \<or> d = p" if "0 < d" "d dvd p" for d
  proof (rule ccontr)
    assume "\<not> (d = 1 \<or> d = p)"
    then have "d \<in> {2..p - 1}" using that zdvd_imp_le [of d p] r by auto
    then show False using r that(2) by (auto simp: list_all_iff dvd_eq_mod_eq_0)
  qed
  with r show "prime_int p" by (simp add: prime_int_def)
qed

lemma prime_coprime:
  assumes "prime_int p" "\<not> p dvd a"
  shows "coprime p a"
proof -
  have "gcd p a > 0" using prime_int_gt [OF assms(1)] by simp
  with prime_int_divisor [OF assms(1), of "gcd p a"] assms(2)
  show ?thesis by (metis coprime_iff_gcd_eq_1 gcd_dvd1 gcd_dvd2)
qed

lemma prime_dvd_mult: "prime_int p \<Longrightarrow> p dvd a * b \<Longrightarrow> p dvd a \<or> p dvd b"
  using prime_coprime coprime_dvd_mult_right_iff by blast

lemma prime_dvd_power: "prime_int p \<Longrightarrow> p dvd a ^ n \<Longrightarrow> p dvd a"
  by (induction n) (auto dest: prime_dvd_mult prime_int_gt)

lemma mod_eq_dvd: "a mod m = b mod m \<longleftrightarrow> m dvd a - (b::int)"
  by (simp add: mod_eq_dvd_iff)

section \<open>Fermat's theorem\<close>

lemma prime_dvd_choose:
  assumes "prime_int (int p)" "0 < k" "k < p"
  shows "int p dvd int (p choose k)"
proof -
  have "k * (p choose k) = p * ((p - 1) choose (k - 1))"
    using assms(2,3) times_binomial_minus1_eq [of k p] by simp
  then have "int p dvd int k * int (p choose k)"
    by (metis dvd_triv_left of_nat_mult)
  moreover have "\<not> int p dvd int k"
    using assms(2,3) zdvd_imp_le by fastforce
  ultimately show ?thesis using prime_dvd_mult [OF assms(1)] by blast
qed

lemma freshman:
  assumes "prime_int (int p)"
  shows "(a + 1) ^ p mod int p = (a ^ p + 1) mod int p"
proof -
  let ?f = "\<lambda>k. of_nat (p choose k) * a ^ k * 1 ^ (p - k) :: int"
  have p: "0 < p" using prime_int_gt [OF assms] by simp
  have "(a + 1) ^ p = (\<Sum>k\<le>p. ?f k)"
    by (rule binomial_ring)
  also have "{..p} = insert 0 (insert p {1..<p})"
    using p by auto
  also have "(\<Sum>k\<in>insert 0 (insert p {1..<p}). ?f k) = 1 + (a ^ p + (\<Sum>k\<in>{1..<p}. ?f k))"
    using p by simp
  finally have "(a + 1) ^ p = (a ^ p + 1) + (\<Sum>k\<in>{1..<p}. ?f k)"
    by simp
  moreover have "int p dvd (\<Sum>k\<in>{1..<p}. ?f k)"
    using prime_dvd_choose [OF assms] by (intro dvd_sum) (auto intro!: dvd_mult2)
  ultimately show ?thesis
    by (simp add: mod_eq_dvd)
qed

lemma fermat_power_nat:
  assumes "prime_int (int p)"
  shows "int n ^ p mod int p = int n mod int p"
proof (induction n)
  case 0
  then show ?case using prime_int_gt [OF assms] by (simp add: power_0_left)
next
  case (Suc n)
  have "int (Suc n) ^ p mod int p = (int n ^ p mod int p + 1) mod int p"
    using freshman [OF assms, of "int n"] by (simp add: add.commute mod_simps)
  then show ?case by (simp add: Suc mod_simps add.commute)
qed

lemma fermat_power:
  assumes "prime_int p"
  shows "a ^ nat p mod p = a mod p"
proof -
  have p: "int (nat p) = p" using prime_int_gt [OF assms] by simp
  have "(a mod p) ^ nat p mod p = (a mod p) mod p"
    using fermat_power_nat [of "nat p" "nat (a mod p)"] assms p prime_int_gt [OF assms] by simp
  then show ?thesis by (simp add: power_mod)
qed

theorem fermat_little:
  assumes "prime_int p" "\<not> p dvd a"
  shows "a ^ nat (p - 1) mod p = 1"
proof -
  have p: "1 < p" using prime_int_gt [OF assms(1)] .
  then have "nat p = Suc (nat (p - 1))" by simp
  then have "p dvd a * (a ^ nat (p - 1) - 1)"
    using fermat_power [OF assms(1), of a] by (simp add: mod_eq_dvd algebra_simps)
  then have "p dvd a ^ nat (p - 1) - 1"
    using prime_dvd_mult [OF assms(1)] assms(2) by blast
  then have "a ^ nat (p - 1) mod p = 1 mod p" by (simp add: mod_eq_dvd)
  with p show ?thesis by simp
qed

text \<open>The inverse that the code computes: the power \<open>p - 2\<close>.\<close>

lemma prime_inverse:
  assumes "prime_int p" "\<not> p dvd a"
  shows "(a * (a ^ nat (p - 2) mod p)) mod p = 1"
proof -
  have "nat (p - 1) = Suc (nat (p - 2))" using prime_int_gt [OF assms(1)] by simp
  then have "(a * a ^ nat (p - 2)) mod p = 1" using fermat_little [OF assms] by simp
  then show ?thesis by (simp add: mod_simps)
qed

lemma sqrt_one:
  assumes "prime_int p" "x * x mod p = 1" "0 \<le> x" "x < p"
  shows "x = 1 \<or> x = p - 1"
proof -
  have p: "1 < p" using prime_int_gt [OF assms(1)] .
  then have "p dvd (x - 1) * (x + 1)"
    using assms(2) mod_eq_dvd [of "x * x" p 1] by (simp add: algebra_simps)
  then consider "p dvd x - 1" | "p dvd x + 1" using prime_dvd_mult [OF assms(1)] by blast
  then show ?thesis
  proof cases
    case 1
    have "\<bar>x - 1\<bar> < p" using assms(3,4) p by auto
    with 1 have "x - 1 = 0" by (metis dvd_imp_le_int leD abs_of_pos order.strict_trans p zero_less_one)
    then show ?thesis by simp
  next
    case 2
    then have "p \<le> x + 1" using assms(3) by (intro zdvd_imp_le) auto
    then show ?thesis using assms(4) by simp
  qed
qed

section \<open>Orders\<close>

lemma power_gcd_one:
  fixes g :: int
  assumes "1 < m" "g ^ a mod m = 1" "g ^ b mod m = 1"
  shows "g ^ gcd a b mod m = 1"
  using assms(2,3)
proof (induction a b rule: gcd_nat_induct)
  case (step a b)
  have "g ^ a = (g ^ b) ^ (a div b) * g ^ (a mod b)"
    by (simp flip: power_mult power_add)
  then have "g ^ a mod m = ((g ^ b mod m) ^ (a div b) mod m * (g ^ (a mod b))) mod m"
    by (simp add: mod_simps power_mod)
  then have "g ^ (a mod b) mod m = 1"
    using step.prems assms(1) by simp
  then show ?case using step by (simp add: gcd_red_nat [of a b])
qed simp

text \<open>
  Modulo a safe prime \<open>p = 2 q + 1\<close> an element with \<open>g^2\<close> and \<open>g^q\<close> different from 1 has
  order \<open>p - 1\<close>.
\<close>

lemma safe_prime_order:
  assumes p: "prime_int p" and q: "prime_int q" and pq: "p = 2 * q + 1"
    and g: "\<not> p dvd g" and g2: "g ^ 2 mod p \<noteq> 1" and gq: "g ^ nat q mod p \<noteq> 1"
    and k: "g ^ k mod p = 1"
  shows "nat (p - 1) dvd k"
proof -
  let ?d = "gcd k (nat (p - 1))"
  have q1: "1 < q" using prime_int_gt [OF q] .
  have p1: "1 < p" using prime_int_gt [OF p] .
  have gd: "g ^ ?d mod p = 1"
    by (rule power_gcd_one [OF p1 k fermat_little [OF p g]])
  have not2: "\<not> ?d dvd 2"
  proof
    assume "?d dvd 2"
    then obtain c where "2 = ?d * c" by (auto simp: dvd_def)
    then have "g ^ 2 mod p = (g ^ ?d mod p) ^ c mod p" by (simp add: power_mod flip: power_mult)
    with gd g2 p1 show False by simp
  qed
  have notq: "\<not> ?d dvd nat q"
  proof
    assume "?d dvd nat q"
    then obtain c where "nat q = ?d * c" by (auto simp: dvd_def)
    then have "g ^ nat q mod p = (g ^ ?d mod p) ^ c mod p" by (simp add: power_mod flip: power_mult)
    with gd gq p1 show False by simp
  qed
  have "int ?d dvd int (nat (p - 1))" by (simp only: of_nat_dvd_iff gcd_dvd2)
  then have d2q: "int ?d dvd 2 * q" using pq q1 by simp
  have ndvd: "\<not> int ?d dvd int 2" "\<not> int ?d dvd int (nat q)"
    unfolding of_nat_dvd_iff using not2 notq by simp_all
  then have ndvd: "\<not> int ?d dvd 2" "\<not> int ?d dvd q"
    using q1 by simp_all
  have "q dvd int ?d"
  proof (rule ccontr)
    assume "\<not> q dvd int ?d"
    then have "coprime (int ?d) q" using prime_coprime [OF q] coprime_commute by blast
    with d2q ndvd(1) show False by (simp add: coprime_dvd_mult_left_iff)
  qed
  then obtain c where c: "int ?d = q * c" by (auto simp: dvd_def)
  then have "c dvd 2" using d2q q1 by (simp add: mult.commute)
  moreover have "0 < c"
  proof -
    have "0 < ?d" using p1 by simp
    then have "0 < q * c" unfolding c [symmetric] by simp
    then show ?thesis using q1 by (simp add: zero_less_mult_iff)
  qed
  ultimately have "c = 1 \<or> c = 2" using zdvd_imp_le [of c 2] by auto
  with c ndvd(2) have "int ?d = 2 * q" by auto
  then have "?d = nat (p - 1)" using pq by simp
  then show ?thesis by (metis gcd_dvd1)
qed

end
