(* ===== verification/Crypto_Utils.thy ===== *)
theory Crypto_Utils
  imports Number_Facts
begin

text \<open>
  \<open>crypto/src/crypto_utils.cpp\<close>: modular exponentiation, random integers, the Miller-Rabin
  test, the search for generators and the validation of public parameters.

  The random device and the generator \<open>std::mt19937_64\<close> are arguments: \<open>device E k\<close> is the
  \<open>k\<close>-th number the random device returns, \<open>mt64 E s\<close> the sequence the generator yields from
  seed \<open>s\<close>. Nothing is assumed of either. A function that consults the device takes the
  position of the next number and returns the position after it.
\<close>

record entropy =
  device :: "nat \<Rightarrow> u32"
  mt64 :: "u32 \<Rightarrow> nat \<Rightarrow> u64"

section \<open>Modular exponentiation\<close>

function pow_loop :: "int \<Rightarrow> int \<Rightarrow> int \<Rightarrow> int \<Rightarrow> int" where
  "pow_loop modulus result b e =
     (if 0 < e
      then pow_loop modulus (if e smod 2 = 1 then (result * b) smod modulus else result)
        ((b * b) smod modulus) (e sdiv 2)
      else result)"
  by pat_completeness auto
termination
  by (relation "measure (\<lambda>(modulus, result, b, e). nat e)") auto

declare pow_loop.simps [simp del]

definition modular_pow :: "int \<Rightarrow> int \<Rightarrow> int \<Rightarrow> exn + int" where
  "modular_pow base exponent modulus =
     (if modulus = 1 then Inr 0
      else rbind (cpp_mod base modulus) (\<lambda>b. Inr (pow_loop modulus 1 b exponent)))"

section \<open>Random integers\<close>

text \<open>Eight outputs of the generator, shifted together into 512 bits.\<close>

definition draw :: "(nat \<Rightarrow> u64) \<Rightarrow> nat \<Rightarrow> int" where
  "draw gen k = foldl (\<lambda>result i. push_bit 64 result OR uint (gen (k + i))) 0 [0..<8]"

partial_function (option) random_loop :: "(nat \<Rightarrow> u64) \<Rightarrow> nat \<Rightarrow> int \<Rightarrow> int \<Rightarrow> int \<Rightarrow> int comp" where
  "random_loop gen k lo width result =
     (if result < lo
      then (case cpp_mod (draw gen k) width of
          Inl e \<Rightarrow> Some (Inl e)
        | Inr r \<Rightarrow> random_loop gen (k + 8) lo width r)
      else Some (Inr result))"

definition generate_random :: "(nat \<Rightarrow> u64) \<Rightarrow> int \<Rightarrow> int \<Rightarrow> int comp" where
  "generate_random gen lo hi =
     cbind (random_loop gen 0 lo (hi - lo + 1) 0) (\<lambda>result. ret (result + lo))"

text \<open>A call seeds a generator of its own from the random device.\<close>

definition random :: "entropy \<Rightarrow> nat \<Rightarrow> int \<Rightarrow> int \<Rightarrow> int comp" where
  "random E k lo hi = generate_random (mt64 E (device E k)) lo hi"

section \<open>Primality\<close>

partial_function (option) strip_twos :: "int \<Rightarrow> int \<Rightarrow> (int \<times> int) option" where
  "strip_twos d r = (if d smod 2 = 0 then strip_twos (d sdiv 2) (r + 1) else Some (d, r))"

fun square_loop :: "int \<Rightarrow> int \<Rightarrow> nat \<Rightarrow> exn + bool" where
  "square_loop n x 0 = Inr False"
| "square_loop n x (Suc i) =
     rbind (cpp_mod (x * x) n)
       (\<lambda>x. if x = n - 1 then Inr True else if x = 1 then Inr False else square_loop n x i)"

definition miller_rabin_test :: "int \<Rightarrow> int \<Rightarrow> bool comp" where
  "miller_rabin_test n a =
     (case strip_twos (n - 1) 0 of
        None \<Rightarrow> None
      | Some (d, r) \<Rightarrow>
          lift_result (rbind (modular_pow a d n)
            (\<lambda>x. if x = 1 \<or> x = n - 1 then Inr True else square_loop n x (nat (r - 1)))))"

definition small_primes :: "int list" where
  "small_primes = [2, 3, 5, 7, 11, 13, 17, 19, 23, 29, 31, 37]"

fun trial_division :: "int \<Rightarrow> int list \<Rightarrow> bool option" where
  "trial_division n [] = None"
| "trial_division n (p # ps) =
     (if n = p then Some True else if n smod p = 0 then Some False else trial_division n ps)"

fun witness_loop :: "entropy \<Rightarrow> nat \<Rightarrow> int \<Rightarrow> nat \<Rightarrow> (bool \<times> nat) comp" where
  "witness_loop E k n 0 = ret (True, k)"
| "witness_loop E k n (Suc i) =
     cbind (random E k 2 (n - 2)) (\<lambda>a.
       cbind (miller_rabin_test n a) (\<lambda>ok.
         if \<not> ok then ret (False, k + 1) else witness_loop E (k + 1) n i))"

text \<open>The local generator of \<open>is_prime\<close> is never used, but its seed is drawn.\<close>

definition is_prime :: "entropy \<Rightarrow> nat \<Rightarrow> int \<Rightarrow> nat \<Rightarrow> (bool \<times> nat) comp" where
  "is_prime E k n iterations =
     (if n \<le> 1 \<or> n = 4 then ret (False, k)
      else if n \<le> 3 then ret (True, k)
      else case trial_division n small_primes of
          Some b \<Rightarrow> ret (b, k)
        | None \<Rightarrow> witness_loop E (k + 1) n iterations)"

section \<open>Public parameters\<close>

fun check_factors :: "int \<Rightarrow> int \<Rightarrow> int list \<Rightarrow> exn + bool" where
  "check_factors p g [] = Inr True"
| "check_factors p g (factor # factors) =
     rbind (cpp_div (p - 1) factor) (\<lambda>e.
       rbind (modular_pow g e p) (\<lambda>x.
         if x = 1 then Inl (Invalid_argument ''g is not a primitive root modulo p'')
         else check_factors p g factors))"

definition validate_el_gamal_parameters :: "entropy \<Rightarrow> nat \<Rightarrow> int \<Rightarrow> int \<Rightarrow> (bool \<times> nat) comp" where
  "validate_el_gamal_parameters E k p g =
     cbind (is_prime E k p 50) (\<lambda>(prime, k).
       if \<not> prime then throw (Invalid_argument ''The modulus p must be prime'')
       else if g < 2 \<or> p \<le> g then throw (Invalid_argument ''Generator g must be in range [2, p-1]'')
       else cbind (lift_result (check_factors p g [2, (p - 1) sdiv 2])) (\<lambda>ok. ret (ok, k)))"

definition validate_dsa_parameters :: "entropy \<Rightarrow> nat \<Rightarrow> int \<Rightarrow> int \<Rightarrow> int \<Rightarrow> (bool \<times> nat) comp" where
  "validate_dsa_parameters E k p q g =
     cbind (is_prime E k p 50) (\<lambda>(prime_p, k).
       if \<not> prime_p then ret (False, k)
       else cbind (is_prime E k q 50) (\<lambda>(prime_q, k).
         if \<not> prime_q then ret (False, k)
         else cbind (lift_result (cpp_mod (p - 1) q)) (\<lambda>m.
           if m \<noteq> 0 then ret (False, k)
           else if g < 2 \<or> p \<le> g then ret (False, k)
           else cbind (lift_result (modular_pow g q p)) (\<lambda>x. ret (x = 1, k)))))"

section \<open>Generators\<close>

function generator_loop :: "int \<Rightarrow> int \<Rightarrow> int \<Rightarrow> exn + int" where
  "generator_loop p q g =
     (if g < p
      then rbind (modular_pow g 2 p) (\<lambda>g2.
        if g2 \<noteq> 1
        then rbind (modular_pow g q p) (\<lambda>gq. if gq \<noteq> 1 then Inr g else generator_loop p q (g + 1))
        else generator_loop p q (g + 1))
      else Inl (Runtime_error ''Generator not found''))"
  by pat_completeness auto
termination
  by (relation "measure (\<lambda>(p, q, g). nat (p - g))") auto

declare generator_loop.simps [simp del]

definition find_generator :: "int \<Rightarrow> exn + int" where
  "find_generator p = generator_loop p ((p - 1) sdiv 2) 2"

text \<open>\<open>boost::multiprecision::powm\<close> is an argument of the search among fixed candidates.\<close>

definition generator_candidates :: "int list" where
  "generator_candidates = [2, 3, 5, 7, 11, 13, 17, 19, 23, 29, 31, 37, 41, 43, 47,
     53, 59, 61, 67, 71, 73, 79, 83, 89, 97]"

fun candidate_loop :: "(int \<Rightarrow> int \<Rightarrow> int \<Rightarrow> int) \<Rightarrow> int \<Rightarrow> int \<Rightarrow> int list \<Rightarrow> exn + int" where
  "candidate_loop powm p q [] = Inl (Runtime_error ''No valid generator found'')"
| "candidate_loop powm p q (g # gs) =
     (if p \<le> g then Inl (Runtime_error ''No valid generator found'')
      else if powm g 2 p \<noteq> 1 \<and> powm g q p \<noteq> 1 then Inr g
      else candidate_loop powm p q gs)"

definition find_valid_generator :: "(int \<Rightarrow> int \<Rightarrow> int \<Rightarrow> int) \<Rightarrow> int \<Rightarrow> exn + int" where
  "find_valid_generator powm p = candidate_loop powm p ((p - 1) sdiv 2) generator_candidates"

section \<open>What modular exponentiation promises\<close>

lemma smod_two_eq_1 [simp]: "0 \<le> e \<Longrightarrow> (e smod 2 = 1) = odd (e::int)"
  by (simp only: trunc_nonneg zero_less_numeral odd_iff_mod_2_eq_one)

lemma nat_div_two: "nat e = (if odd e then Suc (2 * nat (e div 2)) else 2 * nat (e div 2))"
  if "0 \<le> e" for e :: int
  using that by (auto elim!: oddE evenE simp: nat_mult_distrib Suc_nat_eq_nat_zadd1)

lemma pow_loop_correct:
  assumes "0 \<le> result" "result < m" "0 \<le> b" "b < m"
  shows "pow_loop m result b e = result * b ^ nat e mod m"
  using assms
proof (induction m result b e rule: pow_loop.induct)
  case (1 m result b e)
  show ?case
  proof (cases "0 < e")
    case False
    with 1 show ?thesis by (simp add: pow_loop.simps [of m result b e])
  next
    case True
    let ?h = "nat (e div 2)"
    have m: "0 < m" using 1 by linarith
    have sq: "(b * b) smod m = b * b mod m" and rb: "(result * b) smod m = result * b mod m"
      using 1 m by simp_all
    have e: "e sdiv 2 = e div 2" "(e smod 2 = 1) = odd e"
      using True by (simp_all add: odd_iff_mod_2_eq_one)
    have "pow_loop m result b e
        = (if odd e then result * b mod m else result) * (b * b mod m) ^ ?h mod m"
      using 1(1) [OF True] True 1(2-5) m
      unfolding pow_loop.simps [of m result b e] sq rb e by simp
    also have "\<dots> = (if odd e then result * b else result) * (b * b) ^ ?h mod m"
      by (intro mod_mult_cong) (simp_all add: power_mod)
    also have "\<dots> = result * b ^ nat e mod m"
      using nat_div_two [of e] True by (simp add: power_mult power2_eq_square mult.assoc)
    finally show ?thesis .
  qed
qed

lemma modular_pow_eq:
  assumes "0 \<le> base" "0 < m"
  shows "modular_pow base e m = Inr (base ^ nat e mod m)"
  using assms pow_loop_correct [of 1 m "base mod m" e]
  by (auto simp: modular_pow_def power_mod)

text \<open>The contract that the encryption and signature schemes use.\<close>

locale modular_exponentiation =
  fixes powm :: "int \<Rightarrow> int \<Rightarrow> int \<Rightarrow> exn + int"
  assumes powm: "0 \<le> base \<Longrightarrow> 0 < m \<Longrightarrow> powm base e m = Inr (base ^ nat e mod m)"
begin

lemma powm_bounds: "0 \<le> base \<Longrightarrow> 0 < m \<Longrightarrow> \<exists>x. powm base e m = Inr x \<and> 0 \<le> x \<and> x < m"
  by (simp add: powm)

lemma powm_power:
  assumes "0 \<le> g" "0 < m" "powm g a m = Inr h" "0 \<le> a" "0 \<le> b"
  shows "powm h b m = Inr (g ^ nat (a * b) mod m)"
  using assms by (auto simp: powm power_mod nat_mult_distrib power_mult)

lemma powm_commute:
  assumes "0 \<le> g" "0 < m" "0 \<le> a" "0 \<le> b" "powm g a m = Inr x" "powm g b m = Inr y"
  shows "powm x b m = powm y a m"
  using assms powm_power [of g m a x b] powm_power [of g m b y a] by (simp add: mult.commute)

lemma powm_inverse:
  assumes "prime_int p" "0 \<le> a" "\<not> p dvd a"
  shows "\<exists>x. powm a (p - 2) p = Inr x \<and> 0 \<le> x \<and> x < p \<and> a * x mod p = 1"
  using assms prime_int_gt [OF assms(1)] prime_inverse [OF assms(1,3)] by (simp add: powm)

end

interpretation mp: modular_exponentiation modular_pow
  by unfold_locales (rule modular_pow_eq)

section \<open>What the random integers promise\<close>

lemma draw_nonneg [simp]: "0 \<le> draw gen k"
proof -
  have "0 \<le> foldl (\<lambda>r i. push_bit 64 r OR uint (gen (k + i))) a xs" if "0 \<le> a" for a xs
    using that by (induction xs arbitrary: a) simp_all
  then show ?thesis by (simp add: draw_def)
qed

text \<open>The \<open>i\<close>-th attempt of the loop.\<close>

definition attempt :: "(nat \<Rightarrow> u64) \<Rightarrow> int \<Rightarrow> nat \<Rightarrow> int" where
  "attempt gen width i = draw gen (8 * i) mod width"

lemma attempt_bounds: "0 < width \<Longrightarrow> 0 \<le> attempt gen width i \<and> attempt gen width i < width"
  by (simp add: attempt_def)

lemma random_loop_stop: "lo \<le> result \<Longrightarrow> random_loop gen k lo width result = ret result"
  by (simp add: random_loop.simps ret_def)

lemma random_loop_go:
  "result < lo \<Longrightarrow> 0 < width \<Longrightarrow>
   random_loop gen (8 * i) lo width result = random_loop gen (8 * Suc i) lo width (attempt gen width i)"
  by (subst random_loop.simps) (simp add: attempt_def add.commute)

lemma random_loop_finds:
  assumes "0 < width" "lo \<le> attempt gen width (i + d)" "\<forall>j<d. attempt gen width (i + j) < lo" "result < lo"
  shows "random_loop gen (8 * i) lo width result = ret (attempt gen width (i + d))"
  using assms(2-4)
proof (induction d arbitrary: i result)
  case 0
  then show ?case using assms(1) random_loop_go [of result lo width gen i] random_loop_stop by simp
next
  case (Suc d)
  have "attempt gen width i < lo" using Suc.prems(2) by force
  moreover have "\<forall>j<d. attempt gen width (Suc i + j) < lo" using Suc.prems(2) by force
  ultimately show ?case
    using Suc.IH [of "Suc i" "attempt gen width i"] Suc.prems assms(1)
      random_loop_go [of result lo width gen i] by simp
qed

lemma random_loop_ret:
  assumes "random_loop gen k lo width result = Some r"
  shows "k = 8 * i \<longrightarrow> 0 < width \<longrightarrow> result < lo \<longrightarrow> (\<exists>j\<ge>i. lo \<le> attempt gen width j)"
proof (rule random_loop.raw_induct [OF _ assms, of "\<lambda>gen k lo width result r. \<forall>i. k = 8 * i \<longrightarrow> 0 < width \<longrightarrow>
    result < lo \<longrightarrow> (\<exists>j\<ge>i. lo \<le> attempt gen width j)", THEN spec], intro allI impI)
  fix f :: "(nat \<Rightarrow> u64) \<Rightarrow> nat \<Rightarrow> int \<Rightarrow> int \<Rightarrow> int \<Rightarrow> int comp"
    and gen :: "nat \<Rightarrow> u64" and k :: nat and lo width result :: int and r :: "exn + int" and i :: nat
  assume IH: "\<And>gen k lo width result r. f gen k lo width result = Some r \<Longrightarrow>
      \<forall>i. k = 8 * i \<longrightarrow> 0 < width \<longrightarrow> result < lo \<longrightarrow> (\<exists>j\<ge>i. lo \<le> attempt gen width j)"
    and eq: "(if result < lo then case cpp_mod (draw gen k) width of Inl e \<Rightarrow> Some (Inl e)
        | Inr r \<Rightarrow> f gen (k + 8) lo width r else Some (Inr result)) = Some r"
    and k: "k = 8 * i" and w: "0 < width" and lt: "result < lo"
  have f: "f gen (8 * Suc i) lo width (attempt gen width i) = Some r"
    using eq k w lt by (simp add: attempt_def add.commute)
  show "\<exists>j\<ge>i. lo \<le> attempt gen width j"
  proof (cases "attempt gen width i < lo")
    case True
    then show ?thesis using IH [OF f, THEN spec, of "Suc i"] w by (auto intro: Suc_leD)
  next
    case False
    then show ?thesis by (meson le_refl leI)
  qed
qed

text \<open>The call returns the first attempt that reaches \<open>lo\<close>, shifted by \<open>lo\<close>, or never.\<close>

lemma generate_random_eq:
  assumes "0 < lo" "lo \<le> hi"
  shows "generate_random gen lo hi =
     (if \<exists>i. lo \<le> attempt gen (hi - lo + 1) i
      then ret (attempt gen (hi - lo + 1) (LEAST i. lo \<le> attempt gen (hi - lo + 1) i) + lo) else None)"
proof (cases "\<exists>i. lo \<le> attempt gen (hi - lo + 1) i")
  case True
  let ?i = "LEAST i. lo \<le> attempt gen (hi - lo + 1) i"
  have "lo \<le> attempt gen (hi - lo + 1) ?i" using True by (rule LeastI_ex)
  moreover have "\<forall>j<?i. attempt gen (hi - lo + 1) j < lo" using not_less_Least not_le by blast
  ultimately show ?thesis
    using True random_loop_finds [of "hi - lo + 1" lo gen 0 ?i 0] assms by (simp add: generate_random_def)
next
  case False
  then have "random_loop gen 0 lo (hi - lo + 1) 0 = None"
    using random_loop_ret [of gen 0 lo "hi - lo + 1" 0 _ 0] assms by (cases "random_loop gen 0 lo (hi - lo + 1) 0") auto
  then show ?thesis using False by (simp add: generate_random_def)
qed

section \<open>The Miller-Rabin test\<close>

lemma strip_twos_Some:
  assumes "strip_twos n r = Some dr"
  shows "odd (fst dr) \<and> r \<le> snd dr \<and> n = fst dr * 2 ^ nat (snd dr - r)"
proof (rule strip_twos.raw_induct [OF _ assms])
  fix f :: "int \<Rightarrow> int \<Rightarrow> (int \<times> int) option" and n r :: int and dr :: "int \<times> int"
  assume IH: "\<And>n r dr. f n r = Some dr \<Longrightarrow> odd (fst dr) \<and> r \<le> snd dr \<and> n = fst dr * 2 ^ nat (snd dr - r)"
    and eq: "(if n smod 2 = 0 then f (n sdiv 2) (r + 1) else Some (n, r)) = Some dr"
  show "odd (fst dr) \<and> r \<le> snd dr \<and> n = fst dr * 2 ^ nat (snd dr - r)"
  proof (cases "n smod 2 = 0")
    case True
    then have h: "odd (fst dr)" "r + 1 \<le> snd dr" "n sdiv 2 = fst dr * 2 ^ nat (snd dr - (r + 1))"
      using IH [of "n sdiv 2" "r + 1" dr] eq by simp_all
    have "n = 2 * (n sdiv 2)"
      using True mult_sdiv_smod_eq [of 2 n] by simp
    moreover have "nat (snd dr - r) = Suc (nat (snd dr - (r + 1)))" using h(2) by simp
    ultimately have "n = fst dr * 2 ^ nat (snd dr - r)" using h(3) by simp
    then show ?thesis using h by simp
  next
    case False
    then have "odd n" by (auto simp: signed_modulo_int_def)
    then show ?thesis using False eq by auto
  qed
qed

lemma strip_twos_zero: "strip_twos 0 r = None"
  using strip_twos_Some [of 0 r] by (cases "strip_twos 0 r") auto

lemma strip_twos_returns: "0 < n \<Longrightarrow> \<exists>dr. strip_twos n r = Some dr"
proof (induction "nat n" arbitrary: n r rule: less_induct)
  case less
  show ?case
  proof (cases "n mod 2 = 0")
    case True
    then have "0 < n div 2" "nat (n div 2) < nat n" using less.prems by auto
    then obtain dr where "strip_twos (n div 2) (r + 1) = Some dr" using less.hyps by blast
    then show ?thesis using True less.prems by (subst strip_twos.simps) simp
  next
    case False
    then show ?thesis using less.prems by (subst strip_twos.simps) simp
  qed
qed

text \<open>
  The definition in the literature: \<open>n - 1 = d * 2^r\<close> with \<open>d\<close> odd, and \<open>a^d = 1\<close> or
  \<open>a^(d 2^j) = -1\<close> for some \<open>j < r\<close>.
\<close>

fun odd_part :: "nat \<Rightarrow> nat \<times> nat" where
  "odd_part n = (if n = 0 \<or> odd n then (n, 0) else (let (d, r) = odd_part (n div 2) in (d, Suc r)))"

declare odd_part.simps [simp del]

definition strong_probable_prime :: "int \<Rightarrow> int \<Rightarrow> bool" where
  "strong_probable_prime n a =
     (let (d, r) = odd_part (nat (n - 1))
      in a ^ d mod n = 1 \<or> list_ex (\<lambda>j. a ^ (d * 2 ^ j) mod n = n - 1) [0..<r])"

lemma odd_part_unique: "odd d \<Longrightarrow> odd_part (d * 2 ^ r) = (d, r)"
proof (induction r)
  case (Suc r)
  have "d * 2 ^ Suc r \<noteq> 0" "even (d * 2 ^ Suc r)" "d * 2 ^ Suc r div 2 = d * 2 ^ r"
    using Suc.prems by (auto simp: odd_pos)
  then show ?case using Suc by (subst odd_part.simps) simp
qed (simp add: odd_part.simps)

lemma odd_part_split: "n = fst (odd_part n) * 2 ^ snd (odd_part n)"
proof (induction n rule: odd_part.induct)
  case (1 n)
  show ?case
  proof (cases "n = 0 \<or> odd n")
    case True
    then show ?thesis by (simp add: odd_part.simps [of n])
  next
    case False
    obtain d r where dr: "odd_part (n div 2) = (d, r)" by fastforce
    have "n = 2 * (n div 2)" using False by simp
    also have "\<dots> = 2 * (d * 2 ^ r)" using 1 [OF False] dr by simp
    finally have n: "n = d * 2 ^ Suc r" by simp
    have "odd_part n = (d, Suc r)" using False dr by (subst odd_part.simps) simp
    with n show ?thesis by simp
  qed
qed

lemma square_loop_eq:
  assumes "2 < n" "0 \<le> x" "x < n" "x \<noteq> n - 1"
  shows "square_loop n x i = Inr (\<exists>j\<le>i. x ^ 2 ^ j mod n = n - 1)"
  using assms(2-)
proof (induction i arbitrary: x)
  case 0
  then show ?case by simp
next
  case (Suc i)
  let ?y = "x * x mod n"
  have step: "x ^ 2 ^ Suc j mod n = ?y ^ 2 ^ j mod n" for j
    by (simp add: power_mod power_mult power2_eq_square)
  have shift: "(\<exists>j\<le>Suc i. x ^ 2 ^ j mod n = n - 1) = (\<exists>j\<le>i. ?y ^ 2 ^ j mod n = n - 1)"
  proof
    assume "\<exists>j\<le>Suc i. x ^ 2 ^ j mod n = n - 1"
    then obtain j where j: "j \<le> Suc i" "x ^ 2 ^ j mod n = n - 1" by blast
    then obtain j' where "j = Suc j'" using Suc.prems by (cases j) auto
    with j step show "\<exists>j\<le>i. ?y ^ 2 ^ j mod n = n - 1" by auto
  next
    assume "\<exists>j\<le>i. ?y ^ 2 ^ j mod n = n - 1"
    then show "\<exists>j\<le>Suc i. x ^ 2 ^ j mod n = n - 1" using step by (metis Suc_le_mono)
  qed
  consider "?y = n - 1" | "?y = 1" | "?y \<noteq> n - 1" "?y \<noteq> 1" by blast
  then show ?case
  proof cases
    case 1
    then have "\<exists>j\<le>i. ?y ^ 2 ^ j mod n = n - 1" using assms(1) by (intro exI [of _ 0]) (simp add: zmod_minus1)
    then show ?thesis unfolding shift using 1 assms(1) Suc.prems by simp
  next
    case 2
    then show ?thesis unfolding shift using assms(1) Suc.prems by simp
  next
    case 3
    then show ?thesis unfolding shift using Suc.IH [of ?y] assms(1) Suc.prems by simp
  qed
qed

lemma miller_rabin_eq:
  assumes n: "2 < n" "odd n" and a: "0 \<le> a"
  shows "miller_rabin_test n a = ret (strong_probable_prime n a)"
proof -
  obtain d r where dr: "strip_twos (n - 1) 0 = Some (d, r)"
    using strip_twos_returns [of "n - 1" 0] n by auto
  have d: "odd d" "0 \<le> r" "n - 1 = d * 2 ^ nat r"
    using strip_twos_Some [OF dr] by simp_all
  have "0 < d * 2 ^ nat r" using d(3) n(1) by linarith
  then have d0: "0 < d" by (simp add: zero_less_mult_iff)
  have "nat r \<noteq> 0"
  proof
    assume "nat r = 0"
    with d(1,3) have "odd (n - 1)" by simp
    with n(2) show False by simp
  qed
  then have r: "nat r = Suc (nat (r - 1))" by simp
  have "nat (n - 1) = nat d * 2 ^ nat r" using d(3) d0 by (simp add: nat_mult_distrib nat_power_eq)
  moreover have "odd (nat d)" using d(1) d0 by (simp add: even_nat_iff)
  ultimately have op: "odd_part (nat (n - 1)) = (nat d, nat r)" by (simp add: odd_part_unique)
  let ?x = "a ^ nat d mod n"
  have pow: "?x ^ 2 ^ j mod n = a ^ (nat d * 2 ^ j) mod n" for j
    by (simp add: power_mod power_mult)
  have spp: "strong_probable_prime n a = (?x = 1 \<or> (\<exists>j\<le>nat (r - 1). ?x ^ 2 ^ j mod n = n - 1))"
    unfolding strong_probable_prime_def op pow r
    by (auto simp: list_ex_iff less_Suc_eq_le)
  have mp: "modular_pow a d n = Inr ?x" using a n by (simp add: modular_pow_eq)
  show ?thesis
  proof (cases "?x = 1 \<or> ?x = n - 1")
    case True
    have "\<exists>j\<le>nat (r - 1). ?x ^ 2 ^ j mod n = n - 1" if "?x = n - 1"
      using that n by (intro exI [of _ 0]) (simp add: zmod_minus1)
    then show ?thesis using True unfolding miller_rabin_test_def dr spp by (auto simp: mp)
  next
    case False
    then have "square_loop n ?x (nat (r - 1)) = Inr (\<exists>j\<le>nat (r - 1). ?x ^ 2 ^ j mod n = n - 1)"
      using n by (intro square_loop_eq) simp_all
    then show ?thesis using False unfolding miller_rabin_test_def dr spp by (simp add: mp)
  qed
qed

lemma prime_power_chain:
  assumes p: "prime_int p" and one: "y ^ 2 ^ r mod p = 1"
  shows "y mod p = 1 \<or> (\<exists>j<r. y ^ 2 ^ j mod p = p - 1)"
  using one
proof (induction r)
  case (Suc r)
  let ?z = "y ^ 2 ^ r mod p"
  have "y ^ 2 ^ Suc r mod p = ?z * ?z mod p"
    by (simp add: mod_simps mult_2 flip: power_add)
  then have "?z = 1 \<or> ?z = p - 1"
    using sqrt_one [OF p, of ?z] Suc.prems prime_int_gt [OF p] by simp
  then show ?case using Suc.IH less_Suc_eq by auto
qed simp

lemma prime_strong_probable_prime:
  assumes p: "prime_int p" "2 < p" and a: "\<not> p dvd a"
  shows "strong_probable_prime p a"
proof -
  obtain d r where dr: "odd_part (nat (p - 1)) = (d, r)" by fastforce
  have "nat (p - 1) = d * 2 ^ r" using odd_part_split [of "nat (p - 1)"] dr by simp
  then have "(a ^ d) ^ 2 ^ r mod p = 1" using fermat_little [OF p(1) a] by (simp add: power_mult)
  then have "a ^ d mod p = 1 \<or> (\<exists>j<r. (a ^ d) ^ 2 ^ j mod p = p - 1)"
    by (rule prime_power_chain [OF p(1)])
  then show ?thesis unfolding strong_probable_prime_def dr by (auto simp: list_ex_iff power_mult)
qed

section \<open>The primality test\<close>

lemma random_range:
  assumes "0 < lo" "lo \<le> hi" "random E k lo hi = ret v"
  shows "2 * lo \<le> v \<and> v \<le> hi"
proof -
  let ?P = "\<lambda>i. lo \<le> attempt (mt64 E (device E k)) (hi - lo + 1) i"
  from assms have ex: "\<exists>i. ?P i"
    by (auto simp: random_def generate_random_eq split: if_splits)
  then have "v = attempt (mt64 E (device E k)) (hi - lo + 1) (LEAST i. ?P i) + lo"
    using assms by (simp add: random_def generate_random_eq)
  then show ?thesis
    using LeastI_ex [OF ex] assms(2) attempt_bounds [of "hi - lo + 1" "mt64 E (device E k)" "LEAST i. ?P i"]
    by simp
qed

text \<open>A generator that, from every seed, sooner or later yields a number in range.\<close>

definition productive :: "entropy \<Rightarrow> int \<Rightarrow> int \<Rightarrow> bool" where
  "productive E lo hi \<longleftrightarrow> (\<forall>s. \<exists>i. lo \<le> attempt (mt64 E s) (hi - lo + 1) i)"

lemma random_returns:
  "0 < lo \<Longrightarrow> lo \<le> hi \<Longrightarrow> productive E lo hi \<Longrightarrow> \<exists>v. random E k lo hi = ret v"
  by (simp add: random_def generate_random_eq productive_def)

lemma random_never_throws: "0 < lo \<Longrightarrow> lo \<le> hi \<Longrightarrow> random E k lo hi \<noteq> throw e"
  by (simp add: random_def generate_random_eq)

lemma trial_division_True: "trial_division n ps = Some True \<Longrightarrow> n \<in> set ps"
  by (induction ps) (auto split: if_splits)

lemma trial_division_False:
  "trial_division n ps = Some False \<Longrightarrow> \<exists>p\<in>set ps. n \<noteq> p \<and> n smod p = 0"
  by (induction ps) (auto split: if_splits)

lemma trial_division_None: "trial_division n ps = None \<Longrightarrow> p \<in> set ps \<Longrightarrow> n \<noteq> p \<and> n smod p \<noteq> 0"
  by (induction ps) (auto split: if_splits)

lemma small_primes_prime: "p \<in> set small_primes \<Longrightarrow> prime_int p"
proof -
  have "list_all prime_int small_primes"
    by (simp add: small_primes_def prime_int_code upto_rec1)
  then show "p \<in> set small_primes \<Longrightarrow> prime_int p" by (simp add: list_all_iff)
qed

lemma small_prime_divides: "2 \<le> d \<Longrightarrow> d \<le> 40 \<Longrightarrow> \<exists>p\<in>set small_primes. p dvd d"
proof -
  have "list_all (\<lambda>d. list_ex (\<lambda>p. d mod p = 0) small_primes) [2..40]"
    by (simp add: small_primes_def upto_rec1)
  then show "2 \<le> d \<Longrightarrow> d \<le> 40 \<Longrightarrow> \<exists>p\<in>set small_primes. p dvd d"
    by (simp only: list_all_iff list_ex_iff set_upto atLeastAtMost_iff Ball_def mod_eq_0_iff_dvd)
qed

lemma prime_if_no_small_factor:
  assumes "1 < n" "n < 1681" "\<And>p. p \<in> set small_primes \<Longrightarrow> \<not> p dvd n"
  shows "prime_int n"
proof (rule ccontr)
  assume "\<not> prime_int n"
  then obtain d where d: "0 < d" "d dvd n" "d \<noteq> 1" "d \<noteq> n"
    using assms(1) by (auto simp: prime_int_def)
  then obtain c where c: "n = d * c" by (auto simp: dvd_def)
  have c1: "1 < c"
  proof -
    have "0 < c" using c d(1) assms(1) zero_less_mult_iff [of d c] by linarith
    moreover have "c \<noteq> 1" using c d(4) by auto
    ultimately show ?thesis by simp
  qed
  have "\<exists>f. 2 \<le> f \<and> f \<le> 40 \<and> f dvd n"
  proof (rule ccontr)
    assume no: "\<nexists>f. 2 \<le> f \<and> f \<le> 40 \<and> f dvd n"
    have "c dvd n" using c by simp
    moreover have "2 \<le> d" "2 \<le> c" using d c1 by simp_all
    ultimately have "\<not> d \<le> 40" "\<not> c \<le> 40" using no d(2) by blast+
    then have "41 \<le> d" "41 \<le> c" by simp_all
    then have "41 * 41 \<le> d * c" by (intro mult_mono) simp_all
    then show False using c assms(2) by simp
  qed
  then show False using small_prime_divides assms(3) dvd_trans by blast
qed

lemma witness_loop_accepts:
  assumes n: "prime_int n" "5 < n" and w: "witness_loop E k n i = ret (b, k')"
  shows b
  using w
proof (induction i arbitrary: k)
  case 0
  then show ?case by (simp add: ret_def)
next
  case (Suc i)
  from Suc.prems obtain a ok where r: "random E k 2 (n - 2) = ret a" "miller_rabin_test n a = ret ok"
      and rest: "(if \<not> ok then ret (False, k + 1) else witness_loop E (k + 1) n i) = ret (b, k')"
    by (auto simp: cbind_ret_iff)
  have a: "0 < a" "a < n" using random_range [OF _ _ r(1)] n by simp_all
  have odd_n: "odd n"
    using prime_int_divisor [OF n(1), of 2] n(2) by auto
  have "strong_probable_prime n a"
    using n a zdvd_not_zless [of a n] by (intro prime_strong_probable_prime) simp_all
  then have ok using r(2) n(2) odd_n a by (simp add: miller_rabin_eq)
  then show ?case using rest Suc.IH by simp
qed

lemma witness_loop_returns:
  assumes n: "odd n" "5 < n" and p: "productive E 2 (n - 2)"
  shows "\<exists>r. witness_loop E k n i = ret r"
proof (induction i arbitrary: k)
  case (Suc i)
  obtain a where a: "random E k 2 (n - 2) = ret a" using random_returns [OF _ _ p] n by fastforce
  then have "0 \<le> a" using random_range [OF _ _ a] n by simp
  then have "miller_rabin_test n a = ret (strong_probable_prime n a)" using n by (simp add: miller_rabin_eq)
  with a Suc show ?case by (cases "strong_probable_prime n a") auto
qed auto

lemma is_prime_large:
  assumes "37 < n" "\<And>p. p \<in> set small_primes \<Longrightarrow> \<not> p dvd n"
  shows "is_prime E k n its = witness_loop E (k + 1) n its"
proof -
  have "trial_division n small_primes = None"
  proof (cases "trial_division n small_primes")
    case (Some b)
    then have "\<exists>p\<in>set small_primes. n = p \<or> n smod p = 0"
      using trial_division_True trial_division_False by (cases b) metis+
    then obtain p where p: "p \<in> set small_primes" "n = p \<or> n smod p = 0" by blast
    have "1 < p" using small_primes_prime [OF p(1)] prime_int_gt by blast
    then have "p dvd n" using p(2) assms(1) by (auto simp: dvd_eq_mod_eq_0)
    then show ?thesis using assms(2) p(1) by blast
  qed
  then show ?thesis using assms(1) by (simp add: is_prime_def)
qed

lemma is_prime_small:
  assumes "n \<le> 37 \<or> (\<exists>p\<in>set small_primes. p dvd n)"
  shows "is_prime E k n its = ret (n \<in> set small_primes, k)"
proof -
  consider "n \<le> 1" | "n = 2 \<or> n = 3" | "n = 4" | "5 \<le> n" by linarith
  then show ?thesis
  proof cases
    case 4
    then have n: "\<exists>p\<in>set small_primes. p dvd n"
      using assms small_prime_divides [of n] by fastforce
    have "trial_division n small_primes = Some (n \<in> set small_primes)"
    proof (cases "trial_division n small_primes")
      case None
      from n obtain p where p: "p \<in> set small_primes" "p dvd n" by blast
      then have "n smod p = 0" using 4 small_primes_prime [OF p(1)] prime_int_gt [of p] by simp
      then show ?thesis using trial_division_None [OF None p(1)] by blast
    next
      case (Some b)
      show ?thesis
      proof (cases b)
        case True
        then show ?thesis using Some trial_division_True by simp
      next
        case False
        then obtain p where p: "p \<in> set small_primes" "n \<noteq> p" "n smod p = 0"
          using trial_division_False [of n small_primes] Some by auto
        then have "p dvd n" "1 < p" using 4 small_primes_prime [OF p(1)] prime_int_gt [of p] by auto
        then have "\<not> prime_int n" using p(2) prime_int_divisor [of n p] by auto
        then show ?thesis using Some False small_primes_prime by auto
      qed
    qed
    then show ?thesis using 4 by (simp add: is_prime_def)
  next
    case 1
    then have "n \<notin> set small_primes" using small_primes_prime prime_int_gt by fastforce
    then show ?thesis using 1 by (simp add: is_prime_def)
  next
    case 2
    then show ?thesis by (elim disjE) (simp_all add: is_prime_def small_primes_def)
  next
    case 3
    then show ?thesis by (simp add: is_prime_def small_primes_def)
  qed
qed

text \<open>Every prime is accepted; below 1681 the answer is exact.\<close>

lemma is_prime_complete: "prime_int n \<Longrightarrow> is_prime E k n its = ret (b, k') \<Longrightarrow> b"
proof (cases "n \<le> 37 \<or> (\<exists>p\<in>set small_primes. p dvd n)")
  case True
  assume n: "prime_int n" and r: "is_prime E k n its = ret (b, k')"
  have "\<exists>p\<in>set small_primes. p dvd n"
    using True small_prime_divides [of n] prime_int_gt [OF n] by fastforce
  then have "n \<in> set small_primes"
    using prime_int_divisor [OF n] small_primes_prime prime_int_gt by (metis less_trans less_irrefl zero_less_one)
  then show b using r is_prime_small [OF True] by simp
next
  case False
  assume n: "prime_int n" and r: "is_prime E k n its = ret (b, k')"
  show b using witness_loop_accepts [OF n] r is_prime_large [of n] False by fastforce
qed

lemma is_prime_sound_small:
  assumes "n < 1681" "is_prime E k n its = ret (b, k')" b
  shows "prime_int n"
proof (cases "n \<le> 37 \<or> (\<exists>p\<in>set small_primes. p dvd n)")
  case True
  then show ?thesis using assms is_prime_small small_primes_prime by auto
next
  case False
  then show ?thesis using assms(1) by (intro prime_if_no_small_factor) auto
qed

section \<open>Generators of the multiplicative group\<close>

definition primitive_root :: "int \<Rightarrow> int \<Rightarrow> bool" where
  "primitive_root p g \<longleftrightarrow> \<not> p dvd g \<and> (\<forall>k. g ^ k mod p = 1 \<longrightarrow> nat (p - 1) dvd k)"

definition safe_prime :: "int \<Rightarrow> bool" where
  "safe_prime p \<longleftrightarrow> prime_int p \<and> odd p \<and> prime_int ((p - 1) div 2)"

lemma safe_primeE:
  assumes "safe_prime p"
  obtains q where "prime_int p" "prime_int q" "p = 2 * q + 1"
  using assms by (auto simp: safe_prime_def elim!: oddE)

lemma safe_prime_primitive_root:
  assumes "safe_prime p" "2 \<le> g" "g < p" "g ^ 2 mod p \<noteq> 1" "g ^ nat ((p - 1) div 2) mod p \<noteq> 1"
  shows "primitive_root p g"
proof -
  obtain q where q: "prime_int p" "prime_int q" "p = 2 * q + 1" by (rule safe_primeE [OF assms(1)])
  have nd: "\<not> p dvd g" using assms(2,3) zdvd_not_zless [of g p] by simp
  show ?thesis unfolding primitive_root_def
    using safe_prime_order [OF q nd assms(4)] assms(5) q(3) nd by simp
qed

lemma generator_loop_finds:
  assumes "0 \<le> g" "g \<le> g'" "g' < p" "g' ^ 2 mod p \<noteq> 1" "g' ^ nat q mod p \<noteq> 1"
  shows "\<exists>h. generator_loop p q g = Inr h \<and> g \<le> h \<and> h \<le> g' \<and> h ^ 2 mod p \<noteq> 1 \<and> h ^ nat q mod p \<noteq> 1"
  using assms(1,2)
proof (induction "nat (g' - g)" arbitrary: g rule: less_induct)
  case less
  have p: "0 < p" "g < p" using assms(3) less.prems by simp_all
  have step: "generator_loop p q g
      = (if g ^ 2 mod p \<noteq> 1 \<and> g ^ nat q mod p \<noteq> 1 then Inr g else generator_loop p q (g + 1))"
    using p less.prems by (subst generator_loop.simps) (simp add: modular_pow_eq)
  show ?case
  proof (cases "g ^ 2 mod p \<noteq> 1 \<and> g ^ nat q mod p \<noteq> 1")
    case True
    then show ?thesis using step less.prems by auto
  next
    case False
    then have "g + 1 \<le> g'" using assms(4,5) less.prems by (cases "g = g'") auto
    then have "\<exists>h. generator_loop p q (g + 1) = Inr h \<and> g + 1 \<le> h \<and> h \<le> g' \<and> h ^ 2 mod p \<noteq> 1 \<and>
        h ^ nat q mod p \<noteq> 1"
      using less.hyps [of "g + 1"] less.prems by simp
    then show ?thesis using False step by fastforce
  qed
qed

text \<open>Modulo a safe prime above 5, 2 or \<open>p - 2\<close> has order \<open>p - 1\<close>.\<close>

lemma safe_prime_has_generator:
  assumes p: "prime_int p" and q: "prime_int q" "2 < q" and pq: "p = 2 * q + 1"
  shows "\<exists>g. 2 \<le> g \<and> g < p \<and> g ^ 2 mod p \<noteq> 1 \<and> g ^ nat q mod p \<noteq> 1"
proof -
  have sq: "g ^ 2 mod p \<noteq> 1" if "2 \<le> g" "g \<le> p - 2" for g
    using sqrt_one [OF p, of g] that by (auto simp: power2_eq_square)
  have odd_q: "odd (nat q)"
    using prime_int_divisor [OF q(1), of 2] q(2) by (auto simp: even_nat_iff)
  show ?thesis
  proof (cases "2 ^ nat q mod p = 1")
    case False
    then show ?thesis using sq [of 2] q(2) pq by (intro exI [of _ 2]) simp
  next
    case True
    have "(p - 2) ^ nat q mod p = (- 2) ^ nat q mod p"
      by (metis mod_add_self1 power_mod uminus_add_conv_diff add.commute)
    also have "\<dots> = (- (2 ^ nat q mod p)) mod p" using odd_q by (simp add: mod_minus_eq)
    also have "\<dots> = p - 1" using True q(2) pq by (simp add: zmod_minus1)
    finally have "(p - 2) ^ nat q mod p \<noteq> 1" using q(2) pq by simp
    then show ?thesis using sq [of "p - 2"] q(2) pq by (intro exI [of _ "p - 2"]) simp
  qed
qed

lemma check_factors_accepts:
  assumes "0 < p" "0 \<le> g" "check_factors p g fs = Inr True" "\<forall>f\<in>set fs. 0 < f"
  shows "\<forall>f\<in>set fs. g ^ nat ((p - 1) div f) mod p \<noteq> 1"
  using assms(3,4)
proof (induction fs)
  case (Cons f fs)
  have "cpp_div (p - 1) f = Inr ((p - 1) div f)" using Cons.prems(2) assms(1) by simp
  then show ?case using Cons assms(1,2) by (auto simp: modular_pow_eq split: if_splits)
qed simp

lemma validate_el_gamal_True:
  assumes "validate_el_gamal_parameters E k p g = ret (b, k')" "5 < p" "odd p"
  shows "2 \<le> g \<and> g < p \<and> g ^ 2 mod p \<noteq> 1 \<and> g ^ nat ((p - 1) div 2) mod p \<noteq> 1"
proof -
  from assms(1) obtain pr k1 ok where r: "is_prime E k p 50 = ret (pr, k1)" and pr: "pr"
      and g: "2 \<le> g" "g < p" and ok: "check_factors p g [2, (p - 1) sdiv 2] = Inr ok"
    by (auto simp: validate_el_gamal_parameters_def cbind_ret_iff simp del: check_factors.simps
        split: if_splits)
  obtain h where h: "p = 2 * h + 1" using assms(3) by (auto elim: oddE)
  have sd: "(p - 1) sdiv 2 = h" using h assms(2) by simp
  have True_ok: "check_factors p g fs = Inr b \<Longrightarrow> b" for fs b
    by (induction fs) (auto simp: rbind_Inr_iff split: if_splits)
  have "\<forall>f\<in>set [2, h]. g ^ nat ((p - 1) div f) mod p \<noteq> 1"
    using ok True_ok [OF ok] assms(2) g h unfolding sd by (intro check_factors_accepts) simp_all
  moreover have "(p - 1) div h = 2" using h assms(2) by simp
  ultimately show ?thesis using g h by simp
qed

lemma validate_dsa_True:
  assumes "validate_dsa_parameters E k p q g = ret (True, k')" "0 < q" "0 < p"
  shows "q dvd p - 1 \<and> 2 \<le> g \<and> g < p \<and> g ^ nat q mod p = 1"
  using assms
  by (auto simp: validate_dsa_parameters_def cbind_ret_iff modular_pow_eq split: if_splits prod.splits)

section \<open>Properties\<close>

text \<open>
  \<open>modular_pow\<close> terminates and returns \<open>base ^ exponent mod modulus\<close> for every nonnegative
  base, positive modulus and exponent (a negative exponent counts as 0); a zero modulus raises
  \<open>std::overflow_error\<close>.
\<close>

theorem modular_pow_correct:
  assumes "0 \<le> base" "0 < m"
  shows "modular_pow base e m = Inr (base ^ nat e mod m) \<and>
    modular_pow base e 0 = Inl (Overflow_error ''Division by zero.'')"
  using mp.powm [OF assms] by (simp add: modular_pow_def cpp_mod_def)

theorem modular_pow_correct_witness: "modular_pow 4 13 497 = Inr (445::int)"
  using modular_pow_correct [of 4 497 13] by simp

text \<open>
  \<open>generate_random(min, max)\<close> with \<open>0 < min \<le> max\<close> returns \<open>min\<close> plus the first residue modulo
  \<open>max - min + 1\<close> that is at least \<open>min\<close>, hence a value between \<open>2 * min\<close> and \<open>max\<close>: the lower
  part of the range is never drawn.
\<close>

theorem generate_random_result:
  assumes "0 < lo" "lo \<le> hi" "generate_random gen lo hi = ret v"
  shows "2 * lo \<le> v \<and> v \<le> hi \<and>
    (\<exists>i. v = lo + draw gen (8 * i) mod (hi - lo + 1) \<and>
      list_all (\<lambda>j. draw gen (8 * j) mod (hi - lo + 1) < lo) [0..<i])"
proof -
  let ?P = "\<lambda>i. lo \<le> attempt gen (hi - lo + 1) i"
  have ex: "\<exists>i. ?P i"
    using assms by (auto simp: generate_random_eq split: if_splits)
  have v: "v = attempt gen (hi - lo + 1) (LEAST i. ?P i) + lo"
    using assms ex by (simp add: generate_random_eq)
  define m where "m = (LEAST i. ?P i)"
  have "list_all (\<lambda>j. attempt gen (hi - lo + 1) j < lo) [0..<m]"
    unfolding list_all_iff m_def using not_less_Least [of _ ?P] by (auto simp: not_le)
  moreover have "lo \<le> attempt gen (hi - lo + 1) m" unfolding m_def by (rule LeastI_ex [OF ex])
  moreover have "v = lo + attempt gen (hi - lo + 1) m" using v unfolding m_def by simp
  moreover have "attempt gen (hi - lo + 1) m < hi - lo + 1"
    using assms(2) attempt_bounds [of "hi - lo + 1" gen m] by simp
  ultimately show ?thesis unfolding attempt_def by (intro conjI exI [of _ m]) simp_all
qed

theorem generate_random_result_witness:
  "generate_random (\<lambda>_. 7) 1 10 = ret 2 \<and> 2 * (1::int) \<le> 2 \<and> (2::int) \<le> 10"
proof -
  have d: "draw (\<lambda>_. 7) k mod 10 = 1" for k by (simp add: draw_def upt_rec)
  then have g: "generate_random (\<lambda>_. 7) 1 10 = ret 2"
    by (simp add: generate_random_eq attempt_def)
  show ?thesis using generate_random_result [OF _ _ g] g by simp
qed

text \<open>
  \<open>generate_random\<close> never returns exactly when no residue it draws reaches \<open>min\<close>; with
  \<open>max < 2 * min\<close> that is every run, whatever the generator yields.
\<close>

theorem generate_random_diverges:
  assumes "0 < lo" "lo \<le> hi"
  shows "(generate_random gen lo hi = None \<longleftrightarrow> (\<forall>i. draw gen (8 * i) mod (hi - lo + 1) < lo)) \<and>
    (2 * lo \<le> hi \<or> generate_random gen lo hi = None)"
proof -
  have iff: "generate_random gen lo hi = None \<longleftrightarrow> (\<forall>i. draw gen (8 * i) mod (hi - lo + 1) < lo)"
    using assms by (simp add: generate_random_eq attempt_def) (meson not_le)
  moreover have "draw gen (8 * i) mod (hi - lo + 1) < lo" if "hi < 2 * lo" for i
  proof -
    have "draw gen (8 * i) mod (hi - lo + 1) < hi - lo + 1" using assms by (intro pos_mod_bound) simp
    then show ?thesis using that by simp
  qed
  ultimately show ?thesis by (cases "hi < 2 * lo") auto
qed

theorem generate_random_diverges_witness: "generate_random (\<lambda>i. of_nat i) 2 3 = None"
  using generate_random_diverges [of 2 3 "\<lambda>i. of_nat i"] by simp

text \<open>
  C40: For odd \<open>n > 2\<close> the Miller-Rabin loop returns, and its verdict is the strong probable prime
  test of the literature; a prime passes it for every base that it does not divide.
\<close>

theorem miller_rabin_strong:
  assumes "2 < n" "odd n" "0 \<le> a"
  shows "miller_rabin_test n a = ret (strong_probable_prime n a) \<and>
    (prime_int n \<and> \<not> n dvd a \<longrightarrow> miller_rabin_test n a = ret True)"
  using miller_rabin_eq [OF assms] prime_strong_probable_prime assms(1) by auto

theorem miller_rabin_strong_witness:
  "miller_rabin_test 41 3 = ret True \<and> miller_rabin_test 49 3 = ret False"
proof -
  have "prime_int 41" "\<not> 41 dvd (3::int)"
    by (simp_all add: prime_int_code upto_rec1)
  moreover have "odd_part 48 = (3, 4)" using odd_part_unique [of 3 4] by simp
  then have "\<not> strong_probable_prime 49 3"
    unfolding strong_probable_prime_def by (simp add: upt_rec)
  ultimately show ?thesis
    using miller_rabin_strong [of 41 3] miller_rabin_strong [of 49 3] by auto
qed

text \<open>
  \<open>is_prime\<close> returns whenever the generator is productive, accepts every prime, and below
  \<open>41 * 41\<close> accepts nothing else.
\<close>

theorem is_prime_verdict:
  assumes "productive E 2 (n - 2)"
  shows "\<exists>b k'. is_prime E k n iterations = ret (b, k') \<and> (prime_int n \<longrightarrow> b) \<and>
    (b \<and> n < 1681 \<longrightarrow> prime_int n)"
proof -
  have "\<exists>r. is_prime E k n iterations = ret r"
  proof (cases "n \<le> 37 \<or> (\<exists>p\<in>set small_primes. p dvd n)")
    case True
    then show ?thesis using is_prime_small by blast
  next
    case False
    moreover have "odd n" using False by (auto simp: small_primes_def)
    ultimately show ?thesis using witness_loop_returns [OF _ _ assms] by (simp add: is_prime_large)
  qed
  then obtain b k' where r: "is_prime E k n iterations = ret (b, k')" by auto
  show ?thesis
    using is_prime_complete [OF _ r] is_prime_sound_small [OF _ r]
    by (intro exI [of _ b] exI [of _ k']) (simp add: r)
qed

definition constant_entropy :: entropy where
  "constant_entropy = \<lparr>device = \<lambda>_. 0, mt64 = \<lambda>_ _. 7\<rparr>"

theorem is_prime_verdict_witness: "\<exists>k. is_prime constant_entropy 0 43 3 = ret (True, k)"
proof -
  have "prime_int 43" by (simp add: prime_int_code upto_rec1)
  moreover have "productive constant_entropy 2 (43 - 2)"
    by (simp add: productive_def constant_entropy_def attempt_def draw_def upt_rec)
  ultimately show ?thesis using is_prime_verdict [of constant_entropy 43 0 3] by auto
qed

text \<open>
  Modulo a safe prime above 5, \<open>find_generator\<close> always finds a generator, and it has order
  \<open>p - 1\<close>.
\<close>

theorem find_generator_safe_prime:
  assumes "safe_prime p" "5 < p"
  shows "\<exists>g. find_generator p = Inr g \<and> 2 \<le> g \<and> g < p \<and> primitive_root p g"
proof -
  obtain q where q: "prime_int p" "prime_int q" "p = 2 * q + 1" by (rule safe_primeE [OF assms(1)])
  have q2: "2 < q" using q(3) assms(2) by simp
  obtain g' where g': "2 \<le> g'" "g' < p" "g' ^ 2 mod p \<noteq> 1" "g' ^ nat q mod p \<noteq> 1"
    using safe_prime_has_generator [OF q(1,2) q2 q(3)] by blast
  have "(p - 1) sdiv 2 = q" using q(3) q2 by simp
  then obtain h where h: "find_generator p = Inr h" "2 \<le> h" "h \<le> g'" "h ^ 2 mod p \<noteq> 1" "h ^ nat q mod p \<noteq> 1"
    using generator_loop_finds [of 2 g' p q] g' by (auto simp: find_generator_def)
  moreover have "(p - 1) div 2 = q" using q(3) by simp
  ultimately have "primitive_root p h"
    using safe_prime_primitive_root [OF assms(1)] g'(2) by simp
  then show ?thesis using h g'(2) by auto
qed

theorem find_generator_safe_prime_witness: "\<exists>g. find_generator 23 = Inr g \<and> primitive_root 23 g"
proof -
  have "safe_prime 23" by (simp add: safe_prime_def prime_int_code upto_rec1)
  then show ?thesis using find_generator_safe_prime [of 23] by auto
qed

text \<open>
  When \<open>validate_el_gamal_parameters\<close> accepts a safe prime \<open>p > 5\<close> and a generator \<open>g\<close>, then
  \<open>g\<close> is a primitive root; it accepts \<open>find_generator\<close>'s choice.
\<close>

theorem validate_el_gamal_primitive:
  assumes "validate_el_gamal_parameters E k p g = ret (b, k')" "safe_prime p" "5 < p"
  shows "b \<and> primitive_root p g"
proof -
  have "odd p" using assms(2) by (simp add: safe_prime_def)
  then have v: "2 \<le> g" "g < p" "g ^ 2 mod p \<noteq> 1" "g ^ nat ((p - 1) div 2) mod p \<noteq> 1"
    using validate_el_gamal_True [OF assms(1,3)] by blast+
  have "check_factors p g fs = Inr b \<Longrightarrow> b" for fs b
    by (induction fs) (auto simp: rbind_Inr_iff split: if_splits)
  then have b using assms(1)
    by (auto simp: validate_el_gamal_parameters_def cbind_ret_iff simp del: check_factors.simps
        split: if_splits)
  then show ?thesis using safe_prime_primitive_root [OF assms(2) v] by simp
qed

theorem validate_el_gamal_primitive_witness:
  "validate_el_gamal_parameters constant_entropy 0 23 5 = ret (True, 0) \<and> primitive_root 23 5"
proof -
  have "safe_prime 23" by (simp add: safe_prime_def prime_int_code upto_rec1)
  moreover have v: "validate_el_gamal_parameters constant_entropy 0 23 5 = ret (True, 0)"
    by (simp add: validate_el_gamal_parameters_def is_prime_def small_primes_def modular_pow_eq)
  ultimately show ?thesis using validate_el_gamal_primitive [OF v] by simp
qed

end
