(* ===== verification/El_Gamal.thy ===== *)
theory El_Gamal
  imports Crypto_Utils
begin

text \<open>
  \<open>crypto/src/el_gamal_encryption.cpp\<close>: the object's parameters and key pair, encryption for a
  recipient's public key and decryption with the own private key.
\<close>

section \<open>State and operations\<close>

record key_pair =
  private_key :: int
  public_key :: int

record encrypted_message =
  c1 :: int
  c2 :: int

record el_gamal =
  el_gamal_p :: int
  el_gamal_g :: int
  el_gamal_keys :: key_pair

definition el_gamal_new :: "entropy \<Rightarrow> nat \<Rightarrow> int \<Rightarrow> int \<Rightarrow> (el_gamal \<times> nat) comp" where
  "el_gamal_new E k p g =
     cbind (validate_el_gamal_parameters E k p g) (\<lambda>(ok, k).
       if \<not> ok then throw (Invalid_argument ''Invalid parameters'')
       else cbind (random E k 2 (p - 2)) (\<lambda>x.
         cbind (lift_result (modular_pow g x p)) (\<lambda>y.
           ret (\<lparr>el_gamal_p = p, el_gamal_g = g,
             el_gamal_keys = \<lparr>private_key = x, public_key = y\<rparr>\<rparr>, k + 1))))"

definition el_gamal_get_public_key :: "el_gamal \<Rightarrow> int" where
  "el_gamal_get_public_key eg = public_key (el_gamal_keys eg)"

definition el_gamal_get_keys :: "el_gamal \<Rightarrow> key_pair" where
  "el_gamal_get_keys eg = el_gamal_keys eg"

definition el_gamal_encrypt ::
    "entropy \<Rightarrow> nat \<Rightarrow> el_gamal \<Rightarrow> int \<Rightarrow> int \<Rightarrow> (encrypted_message \<times> nat) comp" where
  "el_gamal_encrypt E n eg message recipient_public_key =
     cbind (random E n 2 (el_gamal_p eg - 2)) (\<lambda>k.
       cbind (lift_result (modular_pow (el_gamal_g eg) k (el_gamal_p eg))) (\<lambda>a.
         cbind (lift_result (modular_pow recipient_public_key k (el_gamal_p eg))) (\<lambda>s.
           cbind (lift_result (cpp_mod (message * s) (el_gamal_p eg))) (\<lambda>b.
             ret (\<lparr>c1 = a, c2 = b\<rparr>, n + 1)))))"

definition el_gamal_decrypt :: "el_gamal \<Rightarrow> encrypted_message \<Rightarrow> exn + int" where
  "el_gamal_decrypt eg em =
     rbind (modular_pow (c1 em) (private_key (el_gamal_keys eg)) (el_gamal_p eg)) (\<lambda>s.
       rbind (modular_pow s (el_gamal_p eg - 2) (el_gamal_p eg)) (\<lambda>s_inverse.
         cpp_mod (c2 em * s_inverse) (el_gamal_p eg)))"

section \<open>What the constructor establishes\<close>

definition el_gamal_wf :: "el_gamal \<Rightarrow> bool" where
  "el_gamal_wf eg \<longleftrightarrow>
     2 \<le> el_gamal_g eg \<and> el_gamal_g eg < el_gamal_p eg \<and> 4 \<le> private_key (el_gamal_keys eg) \<and>
     private_key (el_gamal_keys eg) \<le> el_gamal_p eg - 2 \<and>
     public_key (el_gamal_keys eg) =
       el_gamal_g eg ^ nat (private_key (el_gamal_keys eg)) mod el_gamal_p eg"

lemma validate_el_gamal_range:
  assumes "validate_el_gamal_parameters E k p g = ret (b, k')"
  shows "2 \<le> g \<and> g < p"
  using assms by (auto simp: validate_el_gamal_parameters_def cbind_ret_iff simp del: check_factors.simps
      split: if_splits)

lemma el_gamal_new_wf:
  assumes "el_gamal_new E k p g = ret (eg, k')" "4 \<le> p"
  shows "el_gamal_wf eg \<and> el_gamal_p eg = p \<and> el_gamal_g eg = g"
proof -
  from assms(1) obtain b k1 x y where v: "validate_el_gamal_parameters E k p g = ret (b, k1)"
      and x: "random E k1 2 (p - 2) = ret x" and y: "modular_pow g x p = Inr y"
      and eg: "eg = \<lparr>el_gamal_p = p, el_gamal_g = g, el_gamal_keys = \<lparr>private_key = x, public_key = y\<rparr>\<rparr>"
    by (auto simp: el_gamal_new_def cbind_ret_iff split: if_splits)
  have g: "2 \<le> g" "g < p" using validate_el_gamal_range [OF v] by simp_all
  have "4 \<le> x" "x \<le> p - 2" using random_range [OF _ _ x] assms(2) by simp_all
  then show ?thesis using g y eg by (simp add: el_gamal_wf_def modular_pow_eq)
qed

text \<open>Encryption and decryption over the contract of modular exponentiation.\<close>

context modular_exponentiation
begin

lemma shared_secret:
  assumes "0 \<le> g" "0 < p" "0 \<le> a" "0 \<le> b" "powm g a p = Inr x" "powm g b p = Inr y"
  shows "\<exists>s. powm x b p = Inr s \<and> powm y a p = Inr s"
proof -
  have "0 \<le> x" "0 \<le> y" using assms by (auto simp: powm)
  then show ?thesis
    using powm_commute [OF assms(1-4) assms(5,6)] powm_bounds [OF _ assms(2), of x b] by auto
qed

lemma unmask:
  assumes "prime_int p" "0 \<le> s" "\<not> p dvd s" "0 \<le> m" "powm s (p - 2) p = Inr i"
  shows "(m * s mod p) * i mod p = m mod p"
proof -
  have "s * i mod p = 1" using powm_inverse [OF assms(1-3)] assms(5) by auto
  then have "m * (s * i mod p) mod p = m mod p" by simp
  then show ?thesis by (simp add: mod_simps mult.assoc)
qed

end

lemma el_gamal_decrypt_encrypt:
  assumes p: "prime_int p" and sender: "el_gamal_p a = p" "el_gamal_g a = g"
    and receiver: "el_gamal_p b = p" "el_gamal_g b = g" "el_gamal_wf b"
    and m: "0 \<le> m" and enc: "el_gamal_encrypt E n a m (el_gamal_get_public_key b) = ret (em, n')"
  shows "el_gamal_decrypt b em = Inr (m mod p)"
proof -
  let ?x = "private_key (el_gamal_keys b)"
  have wf: "2 \<le> g" "g < p" "4 \<le> ?x" "?x \<le> p - 2" "el_gamal_get_public_key b = g ^ nat ?x mod p"
    using receiver by (auto simp: el_gamal_wf_def el_gamal_get_public_key_def)
  have p0: "0 < p" using prime_int_gt [OF p] by simp
  from enc sender obtain k u s c where k: "random E n 2 (p - 2) = ret k"
      and u: "modular_pow g k p = Inr u"
      and s: "modular_pow (el_gamal_get_public_key b) k p = Inr s"
      and c: "cpp_mod (m * s) p = Inr c" and em: "em = \<lparr>c1 = u, c2 = c\<rparr>"
    by (auto simp: el_gamal_encrypt_def cbind_ret_iff)
  have k0: "0 \<le> k" using random_range [OF _ _ k] wf by simp
  have pub: "modular_pow g ?x p = Inr (el_gamal_get_public_key b)"
    using wf p0 by (simp add: modular_pow_eq)
  have s_eq: "modular_pow u ?x p = Inr s"
    using mp.shared_secret [OF _ p0 _ k0 pub u] s wf by fastforce
  have s0: "0 \<le> s" and "\<not> p dvd s"
  proof -
    have "s = (g ^ nat ?x mod p) ^ nat k mod p"
      using s wf p0 by (simp add: modular_pow_eq)
    then have s': "s = g ^ (nat ?x * nat k) mod p" by (simp add: power_mod power_mult)
    then show "0 \<le> s" using p0 by simp
    have "\<not> p dvd g" using wf zdvd_not_zless [of g p] by simp
    then have "\<not> p dvd g ^ (nat ?x * nat k)" using prime_dvd_power [OF p] by blast
    then show "\<not> p dvd s" using s' by (simp add: dvd_mod_iff)
  qed
  obtain i where i: "modular_pow s (p - 2) p = Inr i" "0 \<le> i"
    using mp.powm_inverse [OF p s0 \<open>\<not> p dvd s\<close>] by blast
  have "c = m * s mod p" using c m s0 p0 by simp
  then show ?thesis
    using mp.unmask [OF p s0 \<open>\<not> p dvd s\<close> m i(1)] s_eq i p0 receiver(1)
    by (simp add: el_gamal_decrypt_def em)
qed

lemma el_gamal_encrypt_returns:
  assumes "4 \<le> el_gamal_p eg" "productive E 2 (el_gamal_p eg - 2)" "0 \<le> el_gamal_g eg" "0 \<le> pk"
  shows "\<exists>em. el_gamal_encrypt E n eg m pk = ret (em, n + 1)"
proof -
  obtain k where "random E n 2 (el_gamal_p eg - 2) = ret k"
    using random_returns [OF _ _ assms(2)] assms(1) by fastforce
  moreover have "\<exists>c. cpp_mod x (el_gamal_p eg) = Inr c" for x
    using assms(1) by (simp add: cpp_mod_def)
  ultimately show ?thesis using assms by (auto simp: el_gamal_encrypt_def modular_pow_eq cpp_mod_def)
qed

lemma random_constant:
  assumes "0 < lo" "lo \<le> hi" "lo \<le> draw (\<lambda>_. 7) 0 mod (hi - lo + 1)"
  shows "random constant_entropy k lo hi = ret (draw (\<lambda>_. 7) 0 mod (hi - lo + 1) + lo)"
proof -
  have d: "draw (\<lambda>_. 7) i = draw (\<lambda>_. 7) 0" for i by (simp add: draw_def)
  have "attempt (\<lambda>_. 7) w i = draw (\<lambda>_. 7) 0 mod w" for w i
    unfolding attempt_def d [of "8 * i"] by (rule refl)
  then show ?thesis
    using assms by (simp add: random_def constant_entropy_def generate_random_eq)
qed

lemma draw_seven_20: "draw (\<lambda>_. 7) 0 mod 20 = 11"
  by (simp add: draw_def upt_rec)

section \<open>Properties\<close>

text \<open>
  C33: Two parties construct their ElGamal objects with the same prime and generator. What one
  encrypts for the other's public key, the other decrypts: a message below the modulus comes
  back as it was, a larger one reduced modulo \<open>p\<close>.
\<close>

theorem el_gamal_roundtrip:
  assumes "prime_int p" "4 \<le> p" "0 \<le> m"
    and "el_gamal_new E i p g = ret (alice, i')" "el_gamal_new F j p g = ret (bob, j')"
    and "el_gamal_encrypt E n alice m (el_gamal_get_public_key bob) = ret (em, n')"
  shows "el_gamal_decrypt bob em = Inr (m mod p)"
  using el_gamal_decrypt_encrypt [OF assms(1) _ _ _ _ _ assms(3) assms(6)]
    el_gamal_new_wf [OF assms(4,2)] el_gamal_new_wf [OF assms(5,2)] by simp

theorem el_gamal_roundtrip_witness:
  "el_gamal_decrypt \<lparr>el_gamal_p = 23, el_gamal_g = 5,
     el_gamal_keys = \<lparr>private_key = 13, public_key = 21\<rparr>\<rparr> \<lparr>c1 = 21, c2 = 10\<rparr> = Inr 9"
proof -
  have v: "validate_el_gamal_parameters constant_entropy 0 23 5 = ret (True, 0)"
    by (simp add: validate_el_gamal_parameters_def is_prime_def small_primes_def modular_pow_eq)
  have r: "random constant_entropy k 2 21 = ret 13" for k
    using random_constant [of 2 21 k] by (simp add: draw_seven_20)
  have new: "el_gamal_new constant_entropy 0 23 5 = ret (\<lparr>el_gamal_p = 23, el_gamal_g = 5,
     el_gamal_keys = \<lparr>private_key = 13, public_key = 21\<rparr>\<rparr>, 1)"
    using v r by (simp add: el_gamal_new_def modular_pow_eq)
  have enc: "el_gamal_encrypt constant_entropy 0 \<lparr>el_gamal_p = 23, el_gamal_g = 5,
     el_gamal_keys = \<lparr>private_key = 13, public_key = 21\<rparr>\<rparr> 9
     (el_gamal_get_public_key \<lparr>el_gamal_p = 23, el_gamal_g = 5,
     el_gamal_keys = \<lparr>private_key = 13, public_key = 21\<rparr>\<rparr>) = ret (\<lparr>c1 = 21, c2 = 10\<rparr>, 1)"
    using r by (simp add: el_gamal_encrypt_def el_gamal_get_public_key_def modular_pow_eq)
  have "prime_int 23" by (simp add: prime_int_code upto_rec1)
  then show ?thesis using el_gamal_roundtrip [OF _ _ _ new new enc] by simp
qed

end
