(* ===== verification/Dsa.thy ===== *)
theory Dsa
  imports El_Gamal
begin

text \<open>
  \<open>crypto/src/dsa.cpp\<close>: the object's parameters and key pair, signing (a loop that draws a new
  \<open>k\<close> until both parts of the signature are nonzero) and verification.
\<close>

section \<open>State and operations\<close>

record dsa_signature =
  sig_r :: int
  sig_s :: int

record dsa =
  dsa_p :: int
  dsa_q :: int
  dsa_g :: int
  dsa_keys :: key_pair

definition dsa_new :: "entropy \<Rightarrow> nat \<Rightarrow> int \<Rightarrow> int \<Rightarrow> int \<Rightarrow> (dsa \<times> nat) comp" where
  "dsa_new E n p q g =
     cbind (validate_dsa_parameters E n p q g) (\<lambda>(ok, n).
       if \<not> ok then throw (Invalid_argument ''Invalid DSA parameters'')
       else cbind (random E n 1 (q - 1)) (\<lambda>x.
         cbind (lift_result (modular_pow g x p)) (\<lambda>y.
           ret (\<lparr>dsa_p = p, dsa_q = q, dsa_g = g,
             dsa_keys = \<lparr>private_key = x, public_key = y\<rparr>\<rparr>, n + 1))))"

partial_function (option) sign_loop ::
    "entropy \<Rightarrow> nat \<Rightarrow> dsa \<Rightarrow> int \<Rightarrow> dsa_signature \<Rightarrow> (dsa_signature \<times> nat) comp" where
  "sign_loop E n d message_hash sig =
     (if sig_s sig = 0
      then cbind (random E n 1 (dsa_q d - 1)) (\<lambda>k.
        cbind (lift_result (modular_pow (dsa_g d) k (dsa_p d))) (\<lambda>x.
          cbind (lift_result (cpp_mod x (dsa_q d))) (\<lambda>r.
            if r = 0 then sign_loop E (n + 1) d message_hash (sig\<lparr>sig_r := r\<rparr>)
            else cbind (lift_result (modular_pow k (dsa_q d - 2) (dsa_q d))) (\<lambda>k_inv.
              cbind (lift_result (cpp_mod (k_inv * (message_hash + private_key (dsa_keys d) * r)) (dsa_q d)))
                (\<lambda>s. sign_loop E (n + 1) d message_hash \<lparr>sig_r = r, sig_s = s\<rparr>)))))
      else ret (sig, n))"

definition dsa_sign :: "entropy \<Rightarrow> nat \<Rightarrow> dsa \<Rightarrow> int \<Rightarrow> (dsa_signature \<times> nat) comp" where
  "dsa_sign E n d message_hash = sign_loop E n d message_hash \<lparr>sig_r = 0, sig_s = 0\<rparr>"

definition dsa_verify :: "dsa \<Rightarrow> int \<Rightarrow> dsa_signature \<Rightarrow> int \<Rightarrow> exn + bool" where
  "dsa_verify d message_hash sig signer_public_key =
     (if sig_r sig \<le> 0 \<or> dsa_q d \<le> sig_r sig \<or> sig_s sig \<le> 0 \<or> dsa_q d \<le> sig_s sig then Inr False
      else rbind (modular_pow (sig_s sig) (dsa_q d - 2) (dsa_q d)) (\<lambda>w.
        rbind (cpp_mod (message_hash * w) (dsa_q d)) (\<lambda>u1.
          rbind (cpp_mod (sig_r sig * w) (dsa_q d)) (\<lambda>u2.
            rbind (modular_pow (dsa_g d) u1 (dsa_p d)) (\<lambda>a.
              rbind (modular_pow signer_public_key u2 (dsa_p d)) (\<lambda>b.
                rbind (cpp_mod (a * b) (dsa_p d)) (\<lambda>c.
                  rbind (cpp_mod c (dsa_q d)) (\<lambda>v. Inr (v = sig_r sig)))))))))"

definition dsa_get_public_key :: "dsa \<Rightarrow> int" where
  "dsa_get_public_key d = public_key (dsa_keys d)"

definition dsa_get_keys :: "dsa \<Rightarrow> key_pair" where
  "dsa_get_keys d = dsa_keys d"

section \<open>What the constructor establishes\<close>

definition dsa_wf :: "dsa \<Rightarrow> bool" where
  "dsa_wf d \<longleftrightarrow>
     0 < dsa_p d \<and> 2 \<le> dsa_q d \<and> dsa_q d dvd dsa_p d - 1 \<and> 2 \<le> dsa_g d \<and> dsa_g d < dsa_p d \<and>
     dsa_g d ^ nat (dsa_q d) mod dsa_p d = 1 \<and>
     2 \<le> private_key (dsa_keys d) \<and> private_key (dsa_keys d) < dsa_q d \<and>
     public_key (dsa_keys d) = dsa_g d ^ nat (private_key (dsa_keys d)) mod dsa_p d"

lemma dsa_new_wf:
  assumes "dsa_new E n p q g = ret (d, n')" "2 \<le> p" "2 \<le> q"
  shows "dsa_wf d \<and> dsa_p d = p \<and> dsa_q d = q \<and> dsa_g d = g"
proof -
  from assms(1) obtain n1 x y where v: "validate_dsa_parameters E n p q g = ret (True, n1)"
      and x: "random E n1 1 (q - 1) = ret x" and y: "modular_pow g x p = Inr y"
      and d: "d = \<lparr>dsa_p = p, dsa_q = q, dsa_g = g, dsa_keys = \<lparr>private_key = x, public_key = y\<rparr>\<rparr>"
    by (auto simp: dsa_new_def cbind_ret_iff split: if_splits)
  have "q dvd p - 1 \<and> 2 \<le> g \<and> g < p \<and> g ^ nat q mod p = 1"
    using validate_dsa_True [OF v] assms(2,3) by simp
  moreover have "2 \<le> x" "x \<le> q - 1" using random_range [OF _ _ x] assms(3) by simp_all
  ultimately show ?thesis using y d assms(2,3) by (simp add: dsa_wf_def modular_pow_eq)
qed

section \<open>What signing returns\<close>

definition signature_for :: "dsa \<Rightarrow> int \<Rightarrow> int \<Rightarrow> dsa_signature \<Rightarrow> bool" where
  "signature_for d h k sig \<longleftrightarrow>
     0 < k \<and> k < dsa_q d \<and> sig_r sig = dsa_g d ^ nat k mod dsa_p d mod dsa_q d \<and> sig_r sig \<noteq> 0 \<and>
     sig_s sig = k ^ nat (dsa_q d - 2) mod dsa_q d * (h + private_key (dsa_keys d) * sig_r sig) mod dsa_q d"

lemma signature_for_mod:
  assumes "signature_for d h k sig" "prime_int (dsa_q d)"
  shows "k * sig_s sig mod dsa_q d = (h + private_key (dsa_keys d) * sig_r sig) mod dsa_q d"
proof -
  let ?q = "dsa_q d" and ?i = "k ^ nat (dsa_q d - 2) mod dsa_q d"
    and ?m = "h + private_key (dsa_keys d) * sig_r sig"
  have "\<not> ?q dvd k" using assms(1) zdvd_not_zless by (auto simp: signature_for_def)
  then have one: "k * ?i mod ?q = 1" using assms(2) by (intro prime_inverse)
  have s: "sig_s sig = ?i * ?m mod ?q" using assms(1) by (simp add: signature_for_def)
  have "k * sig_s sig mod ?q = (k * ?i) * ?m mod ?q"
    unfolding s by (simp only: mod_mult_right_eq mult.assoc)
  also have "\<dots> = (k * ?i mod ?q) * ?m mod ?q" by (simp only: mod_mult_left_eq)
  also have "\<dots> = ?m mod ?q" unfolding one by simp
  finally show ?thesis .
qed

lemma sign_loop_result:
  assumes "sign_loop E n d h sig0 = Some res"
  shows "dsa_wf d \<longrightarrow> 0 \<le> h \<longrightarrow> (sig_s sig0 \<noteq> 0 \<longrightarrow> (\<exists>k. signature_for d h k sig0)) \<longrightarrow>
    (\<forall>sig n'. res = Inr (sig, n') \<longrightarrow> sig_s sig \<noteq> 0 \<and> (\<exists>k. signature_for d h k sig))"
proof (rule sign_loop.raw_induct [OF _ assms], intro impI allI)
  fix f :: "entropy \<Rightarrow> nat \<Rightarrow> dsa \<Rightarrow> int \<Rightarrow> dsa_signature \<Rightarrow> (dsa_signature \<times> nat) comp"
    and E n d h sig0 res sig n'
  let ?body = "if sig_s sig0 = 0
      then cbind (random E n 1 (dsa_q d - 1)) (\<lambda>k.
        cbind (lift_result (modular_pow (dsa_g d) k (dsa_p d))) (\<lambda>x.
          cbind (lift_result (cpp_mod x (dsa_q d))) (\<lambda>r.
            if r = 0 then f E (n + 1) d h (sig0\<lparr>sig_r := r\<rparr>)
            else cbind (lift_result (modular_pow k (dsa_q d - 2) (dsa_q d))) (\<lambda>k_inv.
              cbind (lift_result (cpp_mod (k_inv * (h + private_key (dsa_keys d) * r)) (dsa_q d)))
                (\<lambda>s. f E (n + 1) d h \<lparr>sig_r = r, sig_s = s\<rparr>)))))
      else ret (sig0, n)"
  assume IH: "\<And>E n d h sig0 res. f E n d h sig0 = Some res \<Longrightarrow>
      dsa_wf d \<longrightarrow> 0 \<le> h \<longrightarrow> (sig_s sig0 \<noteq> 0 \<longrightarrow> (\<exists>k. signature_for d h k sig0)) \<longrightarrow>
      (\<forall>sig n'. res = Inr (sig, n') \<longrightarrow> sig_s sig \<noteq> 0 \<and> (\<exists>k. signature_for d h k sig))"
    and body: "?body = Some res" and wf: "dsa_wf d" and h: "0 \<le> h"
    and init: "sig_s sig0 \<noteq> 0 \<longrightarrow> (\<exists>k. signature_for d h k sig0)" and res: "res = Inr (sig, n')"
  from body res have body: "?body = ret (sig, n')" by (simp add: ret_def)
  show "sig_s sig \<noteq> 0 \<and> (\<exists>k. signature_for d h k sig)"
  proof (cases "sig_s sig0 = 0")
    case False
    with body init show ?thesis by simp
  next
    case True
    let ?q = "dsa_q d" and ?p = "dsa_p d" and ?g = "dsa_g d"
    have q: "0 < ?q" "0 < ?p" "0 \<le> ?g" using wf by (simp_all add: dsa_wf_def)
    from body True obtain k where k: "random E n 1 (?q - 1) = ret k"
      by (auto simp: cbind_ret_iff)
    have kq: "2 \<le> k" "k < ?q" using random_range [OF _ _ k] wf by (simp_all add: dsa_wf_def)
    define r where "r = ?g ^ nat k mod ?p mod ?q"
    have mp_g: "modular_pow ?g k ?p = Inr (?g ^ nat k mod ?p)"
      using q by (simp add: modular_pow_eq)
    have mod_r: "cpp_mod (?g ^ nat k mod ?p) ?q = Inr r" using q by (simp add: r_def)
    show ?thesis
    proof (cases "r = 0")
      case True
      then have "f E (n + 1) d h (sig0\<lparr>sig_r := 0\<rparr>) = Some (Inr (sig, n'))"
        using body \<open>sig_s sig0 = 0\<close> k mp_g mod_r by (simp add: ret_def)
      from IH [OF this] show ?thesis using wf h \<open>sig_s sig0 = 0\<close> by simp
    next
      case False
      define s where "s = k ^ nat (?q - 2) mod ?q * (h + private_key (dsa_keys d) * r) mod ?q"
      have "0 \<le> r" using q by (simp add: r_def)
      then have "0 \<le> k ^ nat (?q - 2) mod ?q * (h + private_key (dsa_keys d) * r)"
        using h q wf by (intro mult_nonneg_nonneg add_nonneg_nonneg) (simp_all add: dsa_wf_def)
      then have "f E (n + 1) d h \<lparr>sig_r = r, sig_s = s\<rparr> = Some (Inr (sig, n'))"
        using body \<open>sig_s sig0 = 0\<close> k mp_g mod_r False kq q
        by (simp add: ret_def modular_pow_eq s_def)
      moreover have "signature_for d h k \<lparr>sig_r = r, sig_s = s\<rparr>"
        using kq False by (simp add: signature_for_def r_def s_def)
      ultimately show ?thesis using IH wf h by blast
    qed
  qed
qed

section \<open>What verification accepts\<close>

lemma power_mod_order:
  fixes g :: int
  assumes "1 < p" "g ^ n mod p = 1"
  shows "g ^ k mod p = g ^ (k mod n) mod p"
proof -
  have "(g ^ n) ^ (k div n) mod p = 1 mod p" by (metis assms(2) power_mod power_one)
  then have "(g ^ n) ^ (k div n) * g ^ (k mod n) mod p = 1 * g ^ (k mod n) mod p"
    by (rule mod_mult_cong) (rule refl)
  then show ?thesis by (simp flip: power_mult power_add)
qed

text \<open>The check of the standard on values already known to be in range.\<close>

definition dsa_check :: "dsa \<Rightarrow> int \<Rightarrow> dsa_signature \<Rightarrow> int \<Rightarrow> bool" where
  "dsa_check d h sig y =
     (let w = sig_s sig ^ nat (dsa_q d - 2) mod dsa_q d
      in dsa_g d ^ nat (h * w mod dsa_q d) * y ^ nat (sig_r sig * w mod dsa_q d)
         mod dsa_p d mod dsa_q d = sig_r sig)"

lemma dsa_verify_eq:
  assumes "dsa_wf d" "0 \<le> h" "0 \<le> y"
  shows "dsa_verify d h sig y =
    Inr (0 < sig_r sig \<and> sig_r sig < dsa_q d \<and> 0 < sig_s sig \<and> sig_s sig < dsa_q d \<and>
      dsa_check d h sig y)"
proof (cases "sig_r sig \<le> 0 \<or> dsa_q d \<le> sig_r sig \<or> sig_s sig \<le> 0 \<or> dsa_q d \<le> sig_s sig")
  case True
  then show ?thesis by (auto simp: dsa_verify_def)
next
  case False
  have pos: "0 < dsa_q d" "0 < dsa_p d" "0 \<le> dsa_g d" using assms(1) by (simp_all add: dsa_wf_def)
  define w where "w = sig_s sig ^ nat (dsa_q d - 2) mod dsa_q d"
  define a where "a = dsa_g d ^ nat (h * w mod dsa_q d)"
  define b where "b = y ^ nat (sig_r sig * w mod dsa_q d)"
  have w0: "0 \<le> w" unfolding w_def by (rule pos_mod_sign [OF pos(1)])
  have s1: "modular_pow (sig_s sig) (dsa_q d - 2) (dsa_q d) = Inr w"
    unfolding w_def using False pos(1) by (intro modular_pow_eq) simp_all
  have s2: "cpp_mod (h * w) (dsa_q d) = Inr (h * w mod dsa_q d)"
      "cpp_mod (sig_r sig * w) (dsa_q d) = Inr (sig_r sig * w mod dsa_q d)"
    using False assms(2) pos(1) w0 by (intro cpp_mod_pos mult_nonneg_nonneg; simp)+
  have s3: "modular_pow (dsa_g d) (h * w mod dsa_q d) (dsa_p d) = Inr (a mod dsa_p d)"
      "modular_pow y (sig_r sig * w mod dsa_q d) (dsa_p d) = Inr (b mod dsa_p d)"
    unfolding a_def b_def using assms(3) pos by (intro modular_pow_eq; simp)+
  have s4: "cpp_mod ((a mod dsa_p d) * (b mod dsa_p d)) (dsa_p d) = Inr (a * b mod dsa_p d)"
    using cpp_mod_pos [of "(a mod dsa_p d) * (b mod dsa_p d)" "dsa_p d"] pos(2)
    by (simp only: mod_mult_eq) simp
  have s5: "cpp_mod (a * b mod dsa_p d) (dsa_q d) = Inr (a * b mod dsa_p d mod dsa_q d)"
    using pos by (intro cpp_mod_pos) simp_all
  note steps = s1 s2 s3 s4 s5
  have "dsa_verify d h sig y = Inr (a * b mod dsa_p d mod dsa_q d = sig_r sig)"
    unfolding dsa_verify_def using False by (simp add: steps)
  moreover have "dsa_check d h sig y = (a * b mod dsa_p d mod dsa_q d = sig_r sig)"
    unfolding dsa_check_def Let_def w_def [symmetric] a_def b_def by (rule refl)
  ultimately show ?thesis using False by simp
qed

lemma signature_accepted:
  assumes wf: "dsa_wf d" and q: "prime_int (dsa_q d)" and h: "0 \<le> h"
    and sig: "signature_for d h k sig" "sig_s sig \<noteq> 0"
    and d': "dsa_p d' = dsa_p d" "dsa_q d' = dsa_q d" "dsa_g d' = dsa_g d" "dsa_wf d'"
  shows "dsa_verify d' h sig (dsa_get_public_key d) = Inr True"
proof -
  let ?q = "dsa_q d" and ?p = "dsa_p d" and ?g = "dsa_g d" and ?x = "private_key (dsa_keys d)"
  let ?r = "sig_r sig" and ?s = "sig_s sig"
  define w where "w = ?s ^ nat (?q - 2) mod ?q"
  let ?u1 = "h * w mod ?q" and ?u2 = "?r * w mod ?q"
  have pub: "dsa_get_public_key d = ?g ^ nat ?x mod ?p"
    using wf by (simp add: dsa_wf_def dsa_get_public_key_def)
  have p1: "1 < ?p" and q0: "0 < ?q" using wf by (auto simp: dsa_wf_def)
  have r: "0 < ?r" "?r < ?q" using sig(1) p1 q0 by (auto simp: signature_for_def order.not_eq_order_implies_strict)
  have s: "0 < ?s" "?s < ?q"
    using sig q0 by (auto simp: signature_for_def order.not_eq_order_implies_strict)
  have w: "?s * w mod ?q = 1" unfolding w_def using q s zdvd_not_zless by (intro prime_inverse) auto
  have nonneg: "0 \<le> ?u1" "0 \<le> ?u2" "0 \<le> ?x" "0 \<le> k"
    using q0 wf sig(1) by (auto simp: dsa_wf_def signature_for_def)
  have "(?u1 + ?x * ?u2) mod ?q = (h * w + ?x * (?r * w)) mod ?q"
    by (intro mod_add_cong mod_mult_cong) simp_all
  also have "h * w + ?x * (?r * w) = (h + ?x * ?r) * w" by (simp add: algebra_simps)
  also have "(h + ?x * ?r) * w mod ?q = (k * ?s) * w mod ?q"
    using signature_for_mod [OF sig(1) q] by (intro mod_mult_cong) simp_all
  also have "\<dots> = k * (?s * w mod ?q) mod ?q" by (simp only: mod_mult_right_eq mult.assoc)
  also have "\<dots> = k" unfolding w using sig(1) by (simp add: signature_for_def)
  finally have "nat (?u1 + ?x * ?u2) mod nat ?q = nat k"
    using nonneg q0 by (metis add_nonneg_nonneg mult_nonneg_nonneg nat_mod_distrib order_less_imp_le)
  then have e: "(nat ?u1 + nat ?x * nat ?u2) mod nat ?q = nat k"
    using nonneg by (simp add: nat_add_distrib nat_mult_distrib)
  have ord: "?g ^ nat ?q mod ?p = 1" using wf by (simp add: dsa_wf_def)
  have "?g ^ nat ?u1 * (?g ^ nat ?x mod ?p) ^ nat ?u2 mod ?p = ?g ^ nat ?u1 * (?g ^ nat ?x) ^ nat ?u2 mod ?p"
    by (intro mod_mult_cong) (simp_all add: power_mod)
  also have "\<dots> = ?g ^ (nat ?u1 + nat ?x * nat ?u2) mod ?p"
    by (simp add: power_add power_mult)
  also have "\<dots> = ?g ^ nat k mod ?p" using power_mod_order [OF p1 ord] e by metis
  finally have "?g ^ nat ?u1 * (?g ^ nat ?x mod ?p) ^ nat ?u2 mod ?p mod ?q = ?r"
    using sig(1) by (simp add: signature_for_def)
  moreover have "0 \<le> dsa_get_public_key d" using pub p1 by simp
  ultimately show ?thesis
    using dsa_verify_eq [OF d'(4) h, of "dsa_get_public_key d" sig] r s
    unfolding dsa_check_def Let_def d'(1-3) w_def [symmetric] pub by simp
qed

text \<open>A first draw with both parts nonzero ends the loop.\<close>

lemma dsa_sign_first:
  assumes "random E n 1 (dsa_q d - 1) = ret k" "dsa_wf d" "0 \<le> h"
    "dsa_g d ^ nat k mod dsa_p d mod dsa_q d = r" "r \<noteq> 0"
    "k ^ nat (dsa_q d - 2) mod dsa_q d * (h + private_key (dsa_keys d) * r) mod dsa_q d = s" "s \<noteq> 0"
  shows "dsa_sign E n d h = ret (\<lparr>sig_r = r, sig_s = s\<rparr>, n + 1)"
proof -
  have pos: "0 < dsa_q d" "0 < dsa_p d" "0 \<le> dsa_g d" "2 \<le> dsa_q d" "0 \<le> private_key (dsa_keys d)"
    using assms(2) by (simp_all add: dsa_wf_def)
  have k: "0 \<le> k" using random_range [OF _ _ assms(1)] pos(4) by simp
  have r0: "0 \<le> r" unfolding assms(4) [symmetric] by (rule pos_mod_sign [OF pos(1)])
  have s1: "modular_pow (dsa_g d) k (dsa_p d) = Inr (dsa_g d ^ nat k mod dsa_p d)"
    using pos by (intro modular_pow_eq) simp_all
  have s2: "cpp_mod (dsa_g d ^ nat k mod dsa_p d) (dsa_q d) = Inr r"
    unfolding assms(4) [symmetric] using pos by (intro cpp_mod_pos) simp_all
  have s3: "modular_pow k (dsa_q d - 2) (dsa_q d) = Inr (k ^ nat (dsa_q d - 2) mod dsa_q d)"
    using pos k by (intro modular_pow_eq) simp_all
  have s4: "cpp_mod (k ^ nat (dsa_q d - 2) mod dsa_q d * (h + private_key (dsa_keys d) * r)) (dsa_q d) = Inr s"
    unfolding assms(6) [symmetric] using pos r0 assms(3)
    by (intro cpp_mod_pos mult_nonneg_nonneg add_nonneg_nonneg) simp_all
  have stop: "sign_loop E (n + 1) d h \<lparr>sig_r = r, sig_s = s\<rparr> = ret (\<lparr>sig_r = r, sig_s = s\<rparr>, n + 1)"
    using assms(7) by (subst sign_loop.simps) simp
  show ?thesis unfolding dsa_sign_def using stop assms(5)
    by (subst sign_loop.simps) (simp add: assms(1) s1 s2 s3 s4)
qed

section \<open>Properties\<close>

text \<open>
  Every signature that \<open>sign\<close> returns is accepted by \<open>verify\<close>, on any object built with the
  same parameters, for the signer's public key and the same hash.
\<close>

theorem dsa_verify_sign:
  assumes "prime_int q" "2 \<le> p" "0 \<le> h"
    and "dsa_new E i p q g = ret (signer, i')" "dsa_new F j p q g = ret (verifier, j')"
    and "dsa_sign G n signer h = ret (sig, n')"
  shows "dsa_verify verifier h sig (dsa_get_public_key signer) = Inr True"
proof -
  have q: "2 \<le> q" using prime_int_gt [OF assms(1)] by simp
  note wf = dsa_new_wf [OF assms(4,2) q] dsa_new_wf [OF assms(5,2) q]
  have loop: "sign_loop G n signer h \<lparr>sig_r = 0, sig_s = 0\<rparr> = Some (Inr (sig, n'))"
    using assms(6) by (simp add: dsa_sign_def ret_def)
  obtain k where "signature_for signer h k sig" "sig_s sig \<noteq> 0"
    using sign_loop_result [OF loop] wf assms(3) by auto
  then show ?thesis using signature_accepted [of signer h k sig verifier] wf assms(1,3) by simp
qed

theorem dsa_verify_sign_witness:
  "dsa_verify \<lparr>dsa_p = 23, dsa_q = 11, dsa_g = 2, dsa_keys = \<lparr>private_key = 2, public_key = 4\<rparr>\<rparr> 5
     \<lparr>sig_r = 4, sig_s = 1\<rparr> 4 = Inr True"
proof -
  let ?d = "\<lparr>dsa_p = 23, dsa_q = 11, dsa_g = 2, dsa_keys = \<lparr>private_key = 2, public_key = 4\<rparr>\<rparr>"
  have "draw (\<lambda>_. 7) 0 mod 10 = 1" by (simp add: draw_def upt_rec)
  then have r: "random constant_entropy k 1 10 = ret 2" for k
    using random_constant [of 1 10 k] by simp
  have v: "validate_dsa_parameters constant_entropy 0 23 11 2 = ret (True, 0)"
    by (simp add: validate_dsa_parameters_def is_prime_def small_primes_def modular_pow_eq)
  have new: "dsa_new constant_entropy 0 23 11 2 = ret (?d, 1)"
    using v r by (simp add: dsa_new_def modular_pow_eq)
  have wf: "dsa_wf ?d" using dsa_new_wf [OF new] by simp
  have sign: "dsa_sign constant_entropy 0 ?d 5 = ret (\<lparr>sig_r = 4, sig_s = 1\<rparr>, 1)"
    using dsa_sign_first [of constant_entropy 0 ?d 2 5 4 1] r wf by simp
  have "prime_int 11" by (simp add: prime_int_code upto_rec1)
  then show ?thesis using dsa_verify_sign [OF _ _ _ new new sign] by (simp add: dsa_get_public_key_def)
qed

text \<open>
  \<open>verify\<close> accepts exactly the signatures with both parts between 1 and \<open>q - 1\<close> that pass the
  check of the standard; and it reads the hash only modulo \<open>q\<close> (the standard truncates a hash
  longer than \<open>q\<close> to its leftmost bits instead), so adding \<open>q\<close> to a hash keeps every signature.
\<close>

theorem dsa_verify_exact:
  assumes "dsa_wf d" "0 \<le> h" "0 \<le> y"
  shows "dsa_verify d h sig y =
      Inr (0 < sig_r sig \<and> sig_r sig < dsa_q d \<and> 0 < sig_s sig \<and> sig_s sig < dsa_q d \<and>
        dsa_check d h sig y) \<and>
    dsa_verify d (h + dsa_q d) sig y = dsa_verify d h sig y"
proof -
  have q: "0 < dsa_q d" using assms(1) by (simp add: dsa_wf_def)
  have "(h + dsa_q d) * w mod dsa_q d = h * w mod dsa_q d" for w
    by (simp add: distrib_right)
  then have "dsa_check d (h + dsa_q d) sig y = dsa_check d h sig y"
    unfolding dsa_check_def Let_def by simp
  then show ?thesis
    using dsa_verify_eq [OF assms] dsa_verify_eq [OF assms(1) _ assms(3), of "h + dsa_q d"] q assms(2)
    by simp
qed

definition example_dsa :: dsa where
  "example_dsa = \<lparr>dsa_p = 23, dsa_q = 11, dsa_g = 2, dsa_keys = \<lparr>private_key = 2, public_key = 4\<rparr>\<rparr>"

theorem dsa_verify_exact_witness:
  "dsa_verify example_dsa 16 \<lparr>sig_r = 4, sig_s = 1\<rparr> 4 = Inr True \<and>
   dsa_verify example_dsa 6 \<lparr>sig_r = 4, sig_s = 1\<rparr> 4 = Inr False"
proof -
  have wf: "dsa_wf example_dsa" by (simp add: dsa_wf_def example_dsa_def)
  have "dsa_check example_dsa 5 \<lparr>sig_r = 4, sig_s = 1\<rparr> 4" "\<not> dsa_check example_dsa 6 \<lparr>sig_r = 4, sig_s = 1\<rparr> 4"
    by (simp_all add: dsa_check_def example_dsa_def)
  moreover have "dsa_q example_dsa = 11" by (simp add: example_dsa_def)
  ultimately show ?thesis
    using dsa_verify_exact [OF wf, of 5 4 "\<lparr>sig_r = 4, sig_s = 1\<rparr>"]
      dsa_verify_exact [OF wf, of 6 4 "\<lparr>sig_r = 4, sig_s = 1\<rparr>"] by simp
qed

end
