(* ===== verification/Json_Lib.thy ===== *)
theory Json_Lib
  imports Prelude
begin

text \<open>
  The operations of the \<open>nlohmann::json\<close> library that the sources call. The library is not part
  of the repository, so a definition that uses it takes the operations as an argument; what the
  properties rely on is the documented behaviour collected in \<open>json_laws\<close>. Integers travel as
  mathematical integers: a C++ integer is written with \<open>sint\<close> or \<open>uint\<close> and read back by the
  getter of its type. Signed and unsigned machine integers are words of their width.
\<close>

section \<open>The operations\<close>

record 'j json_ops =
  null_json :: 'j
  number_json :: "int \<Rightarrow> 'j"
  bool_json :: "bool \<Rightarrow> 'j"
  string_json :: "string \<Rightarrow> 'j"
  is_null :: "'j \<Rightarrow> bool"
  is_object :: "'j \<Rightarrow> bool"
  set_field :: "'j \<Rightarrow> string \<Rightarrow> 'j \<Rightarrow> 'j"
  find_field :: "'j \<Rightarrow> string \<Rightarrow> 'j option"
  update_json :: "'j \<Rightarrow> 'j \<Rightarrow> 'j"
  get_int :: "'j \<Rightarrow> exn + i32"
  get_int64 :: "'j \<Rightarrow> exn + i64"
  get_size :: "'j \<Rightarrow> exn + u64"
  get_bool :: "'j \<Rightarrow> exn + bool"
  get_string :: "'j \<Rightarrow> exn + string"
  equals_string :: "'j \<Rightarrow> string \<Rightarrow> bool"
  parse_json :: "string \<Rightarrow> exn + 'j"
  dump_json :: "'j \<Rightarrow> exn + string"

text \<open>
  \<open>j[key]\<close> on a constant object: undefined when the key is missing, a type error when \<open>j\<close> is
  not an object.
\<close>

definition const_at :: "'j json_ops \<Rightarrow> 'j \<Rightarrow> string \<Rightarrow> exn + 'j" where
  "const_at J j key =
     (if is_object J j
      then (case find_field J j key of
          Some v \<Rightarrow> Inr v
        | None \<Rightarrow> Inl (Undefined_behaviour ''operator[] on a missing key of a const object''))
      else Inl Json_type_error)"

definition contains :: "'j json_ops \<Rightarrow> 'j \<Rightarrow> string \<Rightarrow> bool" where
  "contains J j key \<longleftrightarrow> find_field J j key \<noteq> None"

text \<open>The typed reads \<open>T x = j[key]\<close> on a constant object.\<close>

definition read_int :: "'j json_ops \<Rightarrow> 'j \<Rightarrow> string \<Rightarrow> exn + i32" where
  "read_int J j key = rbind (const_at J j key) (get_int J)"

definition read_int64 :: "'j json_ops \<Rightarrow> 'j \<Rightarrow> string \<Rightarrow> exn + i64" where
  "read_int64 J j key = rbind (const_at J j key) (get_int64 J)"

definition read_size :: "'j json_ops \<Rightarrow> 'j \<Rightarrow> string \<Rightarrow> exn + u64" where
  "read_size J j key = rbind (const_at J j key) (get_size J)"

definition read_bool :: "'j json_ops \<Rightarrow> 'j \<Rightarrow> string \<Rightarrow> exn + bool" where
  "read_bool J j key = rbind (const_at J j key) (get_bool J)"

definition read_string :: "'j json_ops \<Rightarrow> 'j \<Rightarrow> string \<Rightarrow> exn + string" where
  "read_string J j key = rbind (const_at J j key) (get_string J)"

text \<open>The guarded read \<open>if (j.contains(key)) x = j[key]\<close>.\<close>

definition read_optional :: "'j json_ops \<Rightarrow> 'j \<Rightarrow> string \<Rightarrow> exn + i64 option" where
  "read_optional J j key =
     (if contains J j key then rbind (read_int64 J j key) (\<lambda>t. Inr (Some t)) else Inr None)"

text \<open>Writes of C++ values.\<close>

abbreviation put_int :: "'j json_ops \<Rightarrow> string \<Rightarrow> i32 \<Rightarrow> 'j \<Rightarrow> 'j" where
  "put_int J key i j \<equiv> set_field J j key (number_json J (sint i))"

abbreviation put_int64 :: "'j json_ops \<Rightarrow> string \<Rightarrow> i64 \<Rightarrow> 'j \<Rightarrow> 'j" where
  "put_int64 J key i j \<equiv> set_field J j key (number_json J (sint i))"

abbreviation put_size :: "'j json_ops \<Rightarrow> string \<Rightarrow> u64 \<Rightarrow> 'j \<Rightarrow> 'j" where
  "put_size J key n j \<equiv> set_field J j key (number_json J (uint n))"

abbreviation put_bool :: "'j json_ops \<Rightarrow> string \<Rightarrow> bool \<Rightarrow> 'j \<Rightarrow> 'j" where
  "put_bool J key b j \<equiv> set_field J j key (bool_json J b)"

abbreviation put_string :: "'j json_ops \<Rightarrow> string \<Rightarrow> string \<Rightarrow> 'j \<Rightarrow> 'j" where
  "put_string J key s j \<equiv> set_field J j key (string_json J s)"

definition put_optional :: "'j json_ops \<Rightarrow> string \<Rightarrow> i64 option \<Rightarrow> 'j \<Rightarrow> 'j" where
  "put_optional J key t j = (case t of None \<Rightarrow> j | Some i \<Rightarrow> put_int64 J key i j)"

section \<open>The documented behaviour\<close>

text \<open>Fields can be written to an object, and to \<open>null\<close>, which then becomes an object.\<close>

definition holds_fields :: "'j json_ops \<Rightarrow> 'j \<Rightarrow> bool" where
  "holds_fields J j \<longleftrightarrow> is_object J j \<or> is_null J j"

definition json_laws :: "'j json_ops \<Rightarrow> bool" where
  "json_laws J \<longleftrightarrow>
     is_null J (null_json J) \<and>
     (\<forall>k. find_field J (null_json J) k = None) \<and>
     (\<forall>j. is_object J j \<longrightarrow> \<not> is_null J j) \<and>
     (\<forall>j k v. holds_fields J j \<longrightarrow> is_object J (set_field J j k v)) \<and>
     (\<forall>j k v k'. holds_fields J j \<longrightarrow>
        find_field J (set_field J j k v) k' = (if k' = k then Some v else find_field J j k')) \<and>
     (\<forall>a b. holds_fields J a \<and> is_object J b \<longrightarrow> is_object J (update_json J a b)) \<and>
     (\<forall>a b k. holds_fields J a \<and> is_object J b \<longrightarrow>
        find_field J (update_json J a b) k =
          (case find_field J b k of Some v \<Rightarrow> Some v | None \<Rightarrow> find_field J a k)) \<and>
     (\<forall>i. get_int J (number_json J (sint i)) = Inr i) \<and>
     (\<forall>i. get_int64 J (number_json J (sint i)) = Inr i) \<and>
     (\<forall>n. get_size J (number_json J (uint n)) = Inr n) \<and>
     (\<forall>b. get_bool J (bool_json J b) = Inr b) \<and>
     (\<forall>s. get_string J (string_json J s) = Inr s) \<and>
     (\<forall>s s'. equals_string J (string_json J s) s' = (s = s')) \<and>
     (\<forall>s. \<not> equals_string J (null_json J) s) \<and>
     (\<forall>s. \<not> is_null J (string_json J s)) \<and>
     (\<forall>i. \<not> is_null J (number_json J i)) \<and>
     (\<forall>j s. dump_json J j = Inr s \<longrightarrow> parse_json J s = Inr j)"

named_theorems json_simps "reads and writes of json objects"

lemma json_null [json_simps]:
  "json_laws J \<Longrightarrow> is_null J (null_json J)"
  "json_laws J \<Longrightarrow> find_field J (null_json J) k = None"
  by (simp_all add: json_laws_def)

lemma holds_fields [json_simps]:
  "json_laws J \<Longrightarrow> holds_fields J (null_json J)"
  "is_object J j \<Longrightarrow> holds_fields J j"
  by (simp_all add: json_laws_def holds_fields_def)

lemma json_object [json_simps]:
  "json_laws J \<Longrightarrow> holds_fields J j \<Longrightarrow> is_object J (set_field J j k v)"
  "json_laws J \<Longrightarrow> holds_fields J j \<Longrightarrow>
     find_field J (set_field J j k v) k' = (if k' = k then Some v else find_field J j k')"
  "json_laws J \<Longrightarrow> holds_fields J a \<Longrightarrow> is_object J b \<Longrightarrow> is_object J (update_json J a b)"
  "json_laws J \<Longrightarrow> holds_fields J a \<Longrightarrow> is_object J b \<Longrightarrow>
     find_field J (update_json J a b) k =
       (case find_field J b k of Some v \<Rightarrow> Some v | None \<Rightarrow> find_field J a k)"
  by (simp_all add: json_laws_def)

lemma json_values [json_simps]:
  "json_laws J \<Longrightarrow> get_int J (number_json J (sint i)) = Inr i"
  "json_laws J \<Longrightarrow> get_int64 J (number_json J (sint i')) = Inr i'"
  "json_laws J \<Longrightarrow> get_size J (number_json J (uint n)) = Inr n"
  "json_laws J \<Longrightarrow> get_bool J (bool_json J b) = Inr b"
  "json_laws J \<Longrightarrow> get_string J (string_json J s) = Inr s"
  "json_laws J \<Longrightarrow> equals_string J (string_json J s) s' = (s = s')"
  "json_laws J \<Longrightarrow> \<not> equals_string J (null_json J) s'"
  "json_laws J \<Longrightarrow> \<not> is_null J (string_json J s)"
  "json_laws J \<Longrightarrow> \<not> is_null J (number_json J n')"
  by (simp_all add: json_laws_def)

lemma json_parse_dump: "json_laws J \<Longrightarrow> dump_json J j = Inr s \<Longrightarrow> parse_json J s = Inr j"
  unfolding json_laws_def by blast

lemma const_at_found [json_simps]:
  "is_object J j \<Longrightarrow> find_field J j key = Some v \<Longrightarrow> const_at J j key = Inr v"
  by (simp add: const_at_def)

lemmas json_reads = read_int_def read_int64_def read_size_def read_bool_def read_string_def
  const_at_def contains_def

lemma put_optional_object [json_simps]:
  "json_laws J \<Longrightarrow> is_object J j \<Longrightarrow> is_object J (put_optional J key t j)"
  "json_laws J \<Longrightarrow> is_object J j \<Longrightarrow>
     find_field J (put_optional J key t j) k =
       (if k = key then (case t of None \<Rightarrow> find_field J j k | Some i \<Rightarrow> Some (number_json J (sint i)))
        else find_field J j k)"
  by (auto simp: put_optional_def json_simps split: option.splits)

section \<open>Printing\<close>

text \<open>
  Documented: \<open>dump\<close> throws for a string that is not UTF-8. Objects built from numbers, truth values
  and ASCII strings can be printed; that is what the properties on sent messages rely on.
\<close>

definition ascii :: "string \<Rightarrow> bool" where
  "ascii s \<longleftrightarrow> (\<forall>c \<in> set s. (of_char c :: nat) < 128)"

inductive plain_value :: "'j json_ops \<Rightarrow> 'j \<Rightarrow> bool" for J where
  plain_number: "plain_value J (number_json J i)"
| plain_bool: "plain_value J (bool_json J b)"
| plain_string: "ascii s \<Longrightarrow> plain_value J (string_json J s)"

inductive plain_fields :: "'j json_ops \<Rightarrow> 'j \<Rightarrow> bool" for J where
  plain_null: "plain_fields J (null_json J)"
| plain_set: "plain_fields J j \<Longrightarrow> ascii k \<Longrightarrow> plain_value J v \<Longrightarrow> plain_fields J (set_field J j k v)"
| plain_update: "plain_fields J a \<Longrightarrow> plain_fields J b \<Longrightarrow> plain_fields J (update_json J a b)"

definition dump_laws :: "'j json_ops \<Rightarrow> bool" where
  "dump_laws J \<longleftrightarrow>
     (\<forall>j. plain_fields J j \<and> is_object J j \<longrightarrow> (\<exists>s. dump_json J j = Inr s)) \<and>
     (\<forall>j s. dump_json J j \<noteq> Inl (Undefined_behaviour s))"

text \<open>An object that can be printed.\<close>

definition plain :: "'j json_ops \<Rightarrow> 'j \<Rightarrow> bool" where
  "plain J j \<longleftrightarrow> plain_fields J j \<and> is_object J j"

lemma plain_start: "json_laws J \<Longrightarrow> ascii k \<Longrightarrow> plain_value J v \<Longrightarrow> plain J (set_field J (null_json J) k v)"
  by (simp add: plain_def json_simps plain_fields.intros)

lemma plain_field: "json_laws J \<Longrightarrow> plain J j \<Longrightarrow> ascii k \<Longrightarrow> plain_value J v \<Longrightarrow> plain J (set_field J j k v)"
  by (simp add: plain_def json_simps plain_fields.intros)

lemma plain_joined:
  "json_laws J \<Longrightarrow> plain J a \<or> a = null_json J \<Longrightarrow> plain J b \<Longrightarrow> plain J (update_json J a b)"
  by (auto simp: plain_def json_simps plain_fields.intros)

lemmas plain_intros = plain_start plain_field plain_value.intros

lemma ascii_simps [simp]:
  "ascii []" "ascii (c # s) \<longleftrightarrow> (of_char c :: nat) < 128 \<and> ascii s" "ascii (s @ t) \<longleftrightarrow> ascii s \<and> ascii t"
  by (auto simp: ascii_def)

lemma ascii_concat: "ascii (concat ss) \<longleftrightarrow> (\<forall>s \<in> set ss. ascii s)"
  by (auto simp: ascii_def)

lemma dump_plain: "dump_laws J \<Longrightarrow> plain J j \<Longrightarrow> \<exists>s. dump_json J j = Inr s"
  by (simp add: dump_laws_def plain_def)

text \<open>
  Documented: without an indentation the printed text has no line breaks (they are escaped inside
  strings), and white space behind a value is skipped by the parser.
\<close>

definition wire_laws :: "'j json_ops \<Rightarrow> bool" where
  "wire_laws J \<longleftrightarrow>
     (\<forall>j s. dump_json J j = Inr s \<longrightarrow> CHR 0x0A \<notin> set s \<and>
        (\<forall>w. set w \<subseteq> {CHR 0x0D, CHR 0x0A} \<longrightarrow> parse_json J (s @ w) = Inr j))"

lemma wire_parse:
  "wire_laws J \<Longrightarrow> dump_json J j = Inr s \<Longrightarrow> set w \<subseteq> {CHR 0x0D, CHR 0x0A} \<Longrightarrow> parse_json J (s @ w) = Inr j"
  unfolding wire_laws_def by blast

lemma wire_one_line: "wire_laws J \<Longrightarrow> dump_json J j = Inr s \<Longrightarrow> CHR 0x0A \<notin> set s"
  unfolding wire_laws_def by blast

end
