(* ===== verification/Json_Example.thy ===== *)
theory Json_Example
  imports Json_Lib "HOL-Library.AList"
begin

text \<open>
  A small json implementation that satisfies \<open>json_laws\<close>. The witnesses run the model on it; no
  property is stated for it alone. Objects are association lists; only flat objects are dumped.
\<close>

datatype jval =
    JNull
  | JNum int
  | JBool bool
  | JStr string
  | JObj "(string \<times> jval) list"

fun jset :: "jval \<Rightarrow> string \<Rightarrow> jval \<Rightarrow> jval" where
  "jset (JObj fs) k v = JObj (AList.update k v fs)"
| "jset _ k v = JObj [(k, v)]"

fun jfind :: "jval \<Rightarrow> string \<Rightarrow> jval option" where
  "jfind (JObj fs) k = map_of fs k"
| "jfind _ k = None"

fun jupdate :: "jval \<Rightarrow> jval \<Rightarrow> jval" where
  "jupdate (JObj a) (JObj b) = JObj (AList.merge a b)"
| "jupdate _ b = b"

fun jget_num :: "(int \<Rightarrow> 'a) \<Rightarrow> jval \<Rightarrow> exn + 'a" where
  "jget_num f (JNum i) = Inr (f i)"
| "jget_num f _ = Inl Json_type_error"

fun jget_bool :: "jval \<Rightarrow> exn + bool" where
  "jget_bool (JBool b) = Inr b"
| "jget_bool _ = Inl Json_type_error"

fun jget_string :: "jval \<Rightarrow> exn + string" where
  "jget_string (JStr s) = Inr s"
| "jget_string _ = Inl Json_type_error"

fun is_JObj :: "jval \<Rightarrow> bool" where
  "is_JObj (JObj _) = True"
| "is_JObj _ = False"

text \<open>The text format: strings character by character, line breaks escaped, numbers in unary.\<close>

fun write_string :: "string \<Rightarrow> string" where
  "write_string [] = ''.''"
| "write_string (c # s) = (if c = CHR 0x0A then ''!'' else [CHR ''+'', c]) @ write_string s"

fun read_str :: "string \<Rightarrow> (string \<times> string) option" where
  "read_str (a # r) =
     (if a = CHR ''.'' then Some ([], r)
      else if a = CHR ''!''
      then (case read_str r of None \<Rightarrow> None | Some (s, r') \<Rightarrow> Some (CHR 0x0A # s, r'))
      else if a = CHR ''+''
      then (case r of [] \<Rightarrow> None
        | c # r' \<Rightarrow> (case read_str r' of None \<Rightarrow> None | Some (s, r'') \<Rightarrow> Some (c # s, r'')))
      else None)"
| "read_str [] = None"

fun write_scalar :: "jval \<Rightarrow> string option" where
  "write_scalar JNull = Some ''n''"
| "write_scalar (JNum i) =
     Some ((if i < 0 then CHR ''-'' else CHR ''#'') # write_string (replicate (nat \<bar>i\<bar>) CHR ''1''))"
| "write_scalar (JBool b) = Some (if b then ''t'' else ''f'')"
| "write_scalar (JStr s) = Some (CHR ''s'' # write_string s)"
| "write_scalar (JObj _) = None"

fun read_scalar :: "string \<Rightarrow> (jval \<times> string) option" where
  "read_scalar (a # r) =
     (if a = CHR ''n'' then Some (JNull, r)
      else if a = CHR ''t'' then Some (JBool True, r)
      else if a = CHR ''f'' then Some (JBool False, r)
      else case read_str r of
        None \<Rightarrow> None
      | Some (s, r') \<Rightarrow>
          (if a = CHR ''s'' then Some (JStr s, r')
           else if a = CHR ''#'' then Some (JNum (int (length s)), r')
           else if a = CHR ''-'' then Some (JNum (- int (length s)), r')
           else None))"
| "read_scalar [] = None"

fun write_fields :: "(string \<times> jval) list \<Rightarrow> string option" where
  "write_fields [] = Some ''.''"
| "write_fields ((k, v) # fs) =
     (case (write_scalar v, write_fields fs) of
        (Some a, Some b) \<Rightarrow> Some (CHR '','' # write_string k @ a @ b)
      | _ \<Rightarrow> None)"

fun read_fields :: "nat \<Rightarrow> string \<Rightarrow> (string \<times> jval) list option" where
  "read_fields 0 _ = None"
| "read_fields (Suc n) [] = None"
| "read_fields (Suc n) (a # r) =
     (if a = CHR ''.'' then (if set r \<subseteq> {CHR 0x0D, CHR 0x0A} then Some [] else None)
      else if a = CHR '','' then
        (case read_str r of
           None \<Rightarrow> None
         | Some (k, r') \<Rightarrow> (case read_scalar r' of
             None \<Rightarrow> None
           | Some (v, r'') \<Rightarrow> (case read_fields n r'' of
               None \<Rightarrow> None
             | Some fs \<Rightarrow> Some ((k, v) # fs))))
      else None)"

fun jdump :: "jval \<Rightarrow> exn + string" where
  "jdump (JObj fs) = (case write_fields fs of Some s \<Rightarrow> Inr s | None \<Rightarrow> Inl Json_type_error)"
| "jdump _ = Inl Json_type_error"

definition jparse :: "string \<Rightarrow> exn + jval" where
  "jparse s = (case read_fields (Suc (length s)) s of Some fs \<Rightarrow> Inr (JObj fs) | None \<Rightarrow> Inl Json_parse_error)"

definition example_json :: "jval json_ops" where
  "example_json = \<lparr>null_json = JNull, number_json = JNum, bool_json = JBool, string_json = JStr,
     is_null = (\<lambda>j. j = JNull), is_object = is_JObj, set_field = jset, find_field = jfind,
     update_json = jupdate, get_int = jget_num word_of_int, get_int64 = jget_num word_of_int,
     get_size = jget_num word_of_int, get_bool = jget_bool, get_string = jget_string,
     equals_string = (\<lambda>j s. j = JStr s), parse_json = jparse, dump_json = jdump\<rparr>"

lemma read_write_string: "read_str (write_string s @ r) = Some (s, r)"
  by (induction s) auto

lemma read_write_scalar: "write_scalar v = Some s \<Longrightarrow> read_scalar (s @ r) = Some (v, r)"
  by (cases v) (auto simp: read_write_string split: if_splits)

lemma read_write_fields:
  "write_fields fs = Some s \<Longrightarrow> length fs < n \<Longrightarrow> set w \<subseteq> {CHR 0x0D, CHR 0x0A} \<Longrightarrow>
   read_fields n (s @ w) = Some fs"
proof (induction fs arbitrary: s n)
  case Nil
  then show ?case by (cases n) auto
next
  case (Cons f fs)
  then obtain k v a b where s: "f = (k, v)" "write_scalar v = Some a" "write_fields fs = Some b"
      "s = CHR '','' # write_string k @ a @ b"
    by (cases f) (auto split: option.splits)
  obtain m where "n = Suc m" "length fs < m" using Cons.prems(2) by (cases n) auto
  then show ?case using s Cons.IH [OF s(3)] Cons.prems(3) by (simp add: read_write_string read_write_scalar)
qed

lemma write_fields_length: "write_fields fs = Some s \<Longrightarrow> length fs \<le> length s"
  by (induction fs arbitrary: s) (fastforce split: option.splits)+

lemma example_parse_space:
  assumes "jdump j = Inr s" "set w \<subseteq> {CHR 0x0D, CHR 0x0A}"
  shows "jparse (s @ w) = Inr j"
proof -
  obtain fs where fs: "j = JObj fs" "write_fields fs = Some s"
    using assms(1) by (cases j) (auto split: option.splits)
  have "length fs < Suc (length (s @ w))" using write_fields_length [OF fs(2)] by simp
  then show ?thesis using read_write_fields [OF fs(2) _ assms(2)] by (simp add: jparse_def fs(1))
qed

lemma example_parse_dump: "jdump j = Inr s \<Longrightarrow> jparse s = Inr j"
  using example_parse_space [of j s "[]"] by simp

lemma write_string_line: "CHR 0x0A \<notin> set (write_string s)"
  by (induction s) auto

lemma write_scalar_line: "write_scalar v = Some s \<Longrightarrow> CHR 0x0A \<notin> set s"
  by (cases v) (auto simp: write_string_line split: if_splits)

lemma write_fields_line: "write_fields fs = Some s \<Longrightarrow> CHR 0x0A \<notin> set s"
proof (induction fs arbitrary: s)
  case (Cons f fs)
  obtain k v where "f = (k, v)" by fastforce
  then show ?case using Cons write_scalar_line [of v] by (auto simp: write_string_line split: option.splits)
qed simp

lemma example_json_laws: "json_laws example_json"
proof -
  have set_obj: "is_JObj (jset j k v)" for j k v by (cases j) simp_all
  have find_set: "is_JObj j \<or> j = JNull \<Longrightarrow> jfind (jset j k v) k' = (if k' = k then Some v else jfind j k')"
    for j k v k' by (cases j) (auto simp: update_conv')
  have upd_obj: "is_JObj b \<Longrightarrow> is_JObj (jupdate a b)" for a b by (cases a; cases b) simp_all
  have find_upd: "is_JObj a \<or> a = JNull \<Longrightarrow> is_JObj b \<Longrightarrow>
      jfind (jupdate a b) k = (case jfind b k of Some v \<Rightarrow> Some v | None \<Rightarrow> jfind a k)" for a b k
    by (cases a; cases b) (auto simp: merge_conv' map_add_def split: option.splits)
  show ?thesis
    unfolding json_laws_def example_json_def holds_fields_def
    by (simp add: set_obj find_set upd_obj find_upd example_parse_dump) (auto split: option.splits)
qed

lemma write_fields_update:
  "write_fields fs = Some s \<Longrightarrow> write_scalar v \<noteq> None \<Longrightarrow> write_fields (AList.update k v fs) \<noteq> None"
  by (induction fs arbitrary: s) (auto split: option.splits)

lemma write_fields_iff: "write_fields fs \<noteq> None \<longleftrightarrow> (\<forall>(k, v) \<in> set fs. write_scalar v \<noteq> None)"
  by (induction fs) (auto split: option.splits)

lemma write_fields_merge:
  "write_fields a \<noteq> None \<Longrightarrow> write_fields b \<noteq> None \<Longrightarrow> write_fields (AList.merge a b) \<noteq> None"
proof (induction b)
  case (Cons f b)
  obtain k v where f: "f = (k, v)" by fastforce
  then obtain s where "write_fields (AList.merge a b) = Some s" "write_scalar v \<noteq> None"
    using Cons by (auto split: option.splits)
  then show ?case using write_fields_update by (simp add: f merge_simps)
qed simp

lemma example_dump_laws: "dump_laws example_json"
proof -
  have ops: "set_field example_json = jset" "update_json example_json = jupdate" "null_json example_json = JNull"
    "dump_json example_json = jdump" "is_object example_json = is_JObj"
    by (simp_all add: example_json_def)
  have scalar: "write_scalar v \<noteq> None" if "plain_value example_json v" for v
    using that by cases (auto simp: example_json_def)
  have "j = JNull \<or> (\<exists>fs. j = JObj fs \<and> write_fields fs \<noteq> None)" if "plain_fields example_json j" for j
    using that
  proof induction
    case (plain_set j k v)
    then show ?case using scalar [of v] write_fields_update by (auto simp: ops)
  next
    case (plain_update a b)
    then show ?case using write_fields_merge by (auto simp: ops)
  qed (simp add: ops)
  moreover have "jdump j \<noteq> Inl (Undefined_behaviour s)" for j s by (cases j) (auto split: option.splits)
  ultimately show ?thesis unfolding dump_laws_def ops by fastforce
qed

lemma example_wire_laws: "wire_laws example_json"
proof -
  have "CHR 0x0A \<notin> set s" if "jdump j = Inr s" for j s
    using that by (cases j) (auto dest: write_fields_line split: option.splits)
  then show ?thesis by (simp add: wire_laws_def example_json_def example_parse_space)
qed

end
