(* ===== verification/Entities.thy ===== *)
theory Entities
  imports Json_Lib Json_Example
begin

text \<open>
  The value classes of \<open>common/src\<close>: users, message metadata, message texts, messages and chats,
  with their accessors and their json form. A time point is its count of nanoseconds; the
  current time is an argument of the constructors that read the clock.
\<close>

type_synonym timestamp = i64

section \<open>Users\<close>

record user =
  user_id :: i32
  nickname :: string
  password :: string
  registered_timestamp :: timestamp
  last_online_timestamp :: timestamp
  online :: bool

text \<open>
  \<open>User()\<close> leaves \<open>_online\<close> uninitialised: its value is the argument \<open>indeterminate\<close>. The class
  counter is passed and returned.
\<close>

definition user_default :: "bool \<Rightarrow> user" where
  "user_default indeterminate = \<lparr>user_id = 0, nickname = [], password = [],
     registered_timestamp = 0, last_online_timestamp = 0, online = indeterminate\<rparr>"

definition user_named :: "bool \<Rightarrow> string \<Rightarrow> user" where
  "user_named indeterminate nick = (user_default indeterminate)\<lparr>nickname := nick\<rparr>"

definition user_new :: "timestamp \<Rightarrow> i32 \<Rightarrow> string \<Rightarrow> string \<Rightarrow> user \<times> i32" where
  "user_new now counter nick pass =
     (\<lparr>user_id = counter, nickname = nick, password = pass,
       registered_timestamp = now, last_online_timestamp = 0, online = True\<rparr>, counter + 1)"

definition user_get_id :: "user \<Rightarrow> i32" where
  "user_get_id x = user_id x"

definition user_get_nickname :: "user \<Rightarrow> string" where
  "user_get_nickname x = nickname x"

definition user_get_password :: "user \<Rightarrow> string" where
  "user_get_password x = password x"

definition user_get_registered_timestamp :: "user \<Rightarrow> timestamp" where
  "user_get_registered_timestamp x = registered_timestamp x"

definition user_get_last_online_timestamp :: "user \<Rightarrow> timestamp" where
  "user_get_last_online_timestamp x = last_online_timestamp x"

definition user_is_online :: "user \<Rightarrow> bool" where
  "user_is_online x = online x"

definition user_check_password :: "user \<Rightarrow> string \<Rightarrow> bool" where
  "user_check_password x pass = (pass = password x)"

definition user_set_id :: "i32 \<Rightarrow> user \<Rightarrow> user" where
  "user_set_id v x = x\<lparr>user_id := v\<rparr>"

definition user_set_nickname :: "string \<Rightarrow> user \<Rightarrow> user" where
  "user_set_nickname v x = x\<lparr>nickname := v\<rparr>"

definition user_set_password :: "string \<Rightarrow> user \<Rightarrow> user" where
  "user_set_password v x = x\<lparr>password := v\<rparr>"

definition user_set_registered_timestamp :: "timestamp \<Rightarrow> user \<Rightarrow> user" where
  "user_set_registered_timestamp v x = x\<lparr>registered_timestamp := v\<rparr>"

definition user_set_last_online_timestamp :: "timestamp \<Rightarrow> user \<Rightarrow> user" where
  "user_set_last_online_timestamp v x = x\<lparr>last_online_timestamp := v\<rparr>"

definition user_set_online :: "bool \<Rightarrow> user \<Rightarrow> user" where
  "user_set_online v x = x\<lparr>online := v\<rparr>"

definition user_to_json :: "'j json_ops \<Rightarrow> user \<Rightarrow> 'j" where
  "user_to_json J x =
     put_bool J ''online'' (online x)
       (put_int64 J ''last_online_timestamp'' (last_online_timestamp x)
         (put_int64 J ''registered_timestamp'' (registered_timestamp x)
           (put_string J ''password'' (password x)
             (put_string J ''nickname'' (nickname x)
               (put_int J ''id'' (user_id x) (null_json J))))))"

text \<open>The two time stamps are not read back.\<close>

definition user_from_json :: "'j json_ops \<Rightarrow> 'j \<Rightarrow> exn + user" where
  "user_from_json J j =
     rbind (read_int J j ''id'') (\<lambda>i.
       rbind (read_string J j ''nickname'') (\<lambda>nick.
         rbind (read_string J j ''password'') (\<lambda>pass.
           rbind (read_bool J j ''online'') (\<lambda>b.
             Inr \<lparr>user_id = i, nickname = nick, password = pass,
               registered_timestamp = 0, last_online_timestamp = 0, online = b\<rparr>))))"

section \<open>Message metadata\<close>

record message_metadata =
  meta_id :: i32
  sender_id :: i32
  receiver_id :: i32
  chat_id :: i32
  deleted :: bool
  created_timestamp :: timestamp
  deleted_timestamp :: "timestamp option"
  last_edited_timestamp :: "timestamp option"

definition metadata_new :: "timestamp \<Rightarrow> i32 \<Rightarrow> i32 \<Rightarrow> i32 \<Rightarrow> i32 \<Rightarrow> message_metadata" where
  "metadata_new now i sender receiver chat =
     \<lparr>meta_id = i, sender_id = sender, receiver_id = receiver, chat_id = chat, deleted = False,
      created_timestamp = now, deleted_timestamp = None, last_edited_timestamp = None\<rparr>"

definition metadata_get_id :: "message_metadata \<Rightarrow> i32" where
  "metadata_get_id x = meta_id x"

definition metadata_get_sender_id :: "message_metadata \<Rightarrow> i32" where
  "metadata_get_sender_id x = sender_id x"

definition metadata_get_receiver_id :: "message_metadata \<Rightarrow> i32" where
  "metadata_get_receiver_id x = receiver_id x"

definition metadata_get_chat_id :: "message_metadata \<Rightarrow> i32" where
  "metadata_get_chat_id x = chat_id x"

definition metadata_is_deleted :: "message_metadata \<Rightarrow> bool" where
  "metadata_is_deleted x = deleted x"

definition metadata_get_created_timestamp :: "message_metadata \<Rightarrow> timestamp" where
  "metadata_get_created_timestamp x = created_timestamp x"

definition metadata_get_deleted_timestamp :: "message_metadata \<Rightarrow> timestamp option" where
  "metadata_get_deleted_timestamp x = deleted_timestamp x"

definition metadata_get_last_edited_timestamp :: "message_metadata \<Rightarrow> timestamp option" where
  "metadata_get_last_edited_timestamp x = last_edited_timestamp x"

definition metadata_set_id :: "i32 \<Rightarrow> message_metadata \<Rightarrow> message_metadata" where
  "metadata_set_id v x = x\<lparr>meta_id := v\<rparr>"

definition metadata_set_sender_id :: "i32 \<Rightarrow> message_metadata \<Rightarrow> message_metadata" where
  "metadata_set_sender_id v x = x\<lparr>sender_id := v\<rparr>"

definition metadata_set_chat_id :: "i32 \<Rightarrow> message_metadata \<Rightarrow> message_metadata" where
  "metadata_set_chat_id v x = x\<lparr>chat_id := v\<rparr>"

definition metadata_set_created_timestamp :: "timestamp \<Rightarrow> message_metadata \<Rightarrow> message_metadata" where
  "metadata_set_created_timestamp v x = x\<lparr>created_timestamp := v\<rparr>"

definition metadata_set_last_edited_timestamp :: "timestamp \<Rightarrow> message_metadata \<Rightarrow> message_metadata" where
  "metadata_set_last_edited_timestamp v x = x\<lparr>last_edited_timestamp := Some v\<rparr>"

definition metadata_set_deleted_timestamp :: "timestamp \<Rightarrow> message_metadata \<Rightarrow> message_metadata" where
  "metadata_set_deleted_timestamp v x = x\<lparr>deleted_timestamp := Some v\<rparr>"

definition metadata_set_deleted :: "bool \<Rightarrow> message_metadata \<Rightarrow> message_metadata" where
  "metadata_set_deleted v x = x\<lparr>deleted := v\<rparr>"

definition metadata_to_json :: "'j json_ops \<Rightarrow> message_metadata \<Rightarrow> 'j" where
  "metadata_to_json J x =
     put_optional J ''last_edited_timestamp'' (last_edited_timestamp x)
       (put_optional J ''deleted_timestamp'' (deleted_timestamp x)
         (put_int64 J ''created_timestamp'' (created_timestamp x)
           (put_bool J ''deleted'' (deleted x)
             (put_int J ''chat_id'' (chat_id x)
               (put_int J ''receiver_id'' (receiver_id x)
                 (put_int J ''sender_id'' (sender_id x)
                   (put_int J ''id'' (meta_id x) (null_json J))))))))"

definition metadata_from_json :: "'j json_ops \<Rightarrow> 'j \<Rightarrow> exn + message_metadata" where
  "metadata_from_json J j =
     rbind (read_int J j ''id'') (\<lambda>i.
       rbind (read_int J j ''sender_id'') (\<lambda>sender.
         rbind (read_int J j ''receiver_id'') (\<lambda>receiver.
           rbind (read_int J j ''chat_id'') (\<lambda>chat.
             rbind (read_bool J j ''deleted'') (\<lambda>del.
               rbind (read_int64 J j ''created_timestamp'') (\<lambda>created.
                 rbind (read_optional J j ''deleted_timestamp'') (\<lambda>del_at.
                   rbind (read_optional J j ''last_edited_timestamp'') (\<lambda>edited.
                     Inr \<lparr>meta_id = i, sender_id = sender, receiver_id = receiver, chat_id = chat,
                       deleted = del, created_timestamp = created, deleted_timestamp = del_at,
                       last_edited_timestamp = edited\<rparr>))))))))"

section \<open>Message texts and messages\<close>

record message_text =
  text_id :: i32
  text_of :: string

definition text_new :: "i32 \<Rightarrow> string \<Rightarrow> message_text" where
  "text_new i t = \<lparr>text_id = i, text_of = t\<rparr>"

definition text_get_id :: "message_text \<Rightarrow> i32" where
  "text_get_id x = text_id x"

definition text_get_text :: "message_text \<Rightarrow> string" where
  "text_get_text x = text_of x"

definition text_set_id :: "i32 \<Rightarrow> message_text \<Rightarrow> message_text" where
  "text_set_id v x = x\<lparr>text_id := v\<rparr>"

definition text_set_text :: "string \<Rightarrow> message_text \<Rightarrow> message_text" where
  "text_set_text v x = x\<lparr>text_of := v\<rparr>"

definition text_to_json :: "'j json_ops \<Rightarrow> message_text \<Rightarrow> 'j" where
  "text_to_json J x = put_string J ''text'' (text_of x) (put_int J ''id'' (text_id x) (null_json J))"

definition text_from_json :: "'j json_ops \<Rightarrow> 'j \<Rightarrow> exn + message_text" where
  "text_from_json J j =
     rbind (read_int J j ''id'') (\<lambda>i.
       rbind (read_string J j ''text'') (\<lambda>t. Inr \<lparr>text_id = i, text_of = t\<rparr>))"

record message =
  metadata :: message_metadata
  msg_text :: message_text

definition message_new :: "timestamp \<Rightarrow> i32 \<Rightarrow> i32 \<Rightarrow> string \<Rightarrow> message" where
  "message_new now sender receiver t =
     \<lparr>metadata = metadata_new now 0 sender receiver 0, msg_text = text_new 0 t\<rparr>"

definition message_to_json :: "'j json_ops \<Rightarrow> message \<Rightarrow> 'j" where
  "message_to_json J x =
     update_json J (update_json J (null_json J) (metadata_to_json J (metadata x)))
       (text_to_json J (msg_text x))"

definition message_get_id :: "message \<Rightarrow> i32" where
  "message_get_id x = metadata_get_id (metadata x)"

definition message_get_text :: "message \<Rightarrow> message_text" where
  "message_get_text x = msg_text x"

definition message_get_metadata :: "message \<Rightarrow> message_metadata" where
  "message_get_metadata x = metadata x"

definition message_set_id :: "i32 \<Rightarrow> message \<Rightarrow> message" where
  "message_set_id i x =
     x\<lparr>metadata := metadata_set_id i (metadata x), msg_text := text_set_id i (msg_text x)\<rparr>"

section \<open>Chats\<close>

record chat =
  chat_key :: i32
  user1_id :: i32
  user2_id :: i32
  chat_deleted :: bool
  chat_deleted_timestamp :: "timestamp option"
  chat_created_timestamp :: timestamp
  chat_last_edited_timestamp :: "timestamp option"

definition chat_new :: "timestamp \<Rightarrow> i32 \<Rightarrow> i32 \<Rightarrow> i32 \<Rightarrow> chat" where
  "chat_new now i user1 user2 =
     \<lparr>chat_key = i, user1_id = user1, user2_id = user2, chat_deleted = False,
      chat_deleted_timestamp = None, chat_created_timestamp = now,
      chat_last_edited_timestamp = None\<rparr>"

definition chat_get_id :: "chat \<Rightarrow> i32" where
  "chat_get_id x = chat_key x"

definition chat_get_user1_id :: "chat \<Rightarrow> i32" where
  "chat_get_user1_id x = user1_id x"

definition chat_get_user2_id :: "chat \<Rightarrow> i32" where
  "chat_get_user2_id x = user2_id x"

definition chat_is_deleted :: "chat \<Rightarrow> bool" where
  "chat_is_deleted x = chat_deleted x"

definition chat_get_created_timestamp :: "chat \<Rightarrow> timestamp" where
  "chat_get_created_timestamp x = chat_created_timestamp x"

definition chat_get_deleted_timestamp :: "chat \<Rightarrow> timestamp option" where
  "chat_get_deleted_timestamp x = chat_deleted_timestamp x"

definition chat_get_last_edited_timestamp :: "chat \<Rightarrow> timestamp option" where
  "chat_get_last_edited_timestamp x = chat_last_edited_timestamp x"

definition chat_set_id :: "i32 \<Rightarrow> chat \<Rightarrow> chat" where
  "chat_set_id v x = x\<lparr>chat_key := v\<rparr>"

definition chat_set_user1_id :: "i32 \<Rightarrow> chat \<Rightarrow> chat" where
  "chat_set_user1_id v x = x\<lparr>user1_id := v\<rparr>"

definition chat_set_user2_id :: "i32 \<Rightarrow> chat \<Rightarrow> chat" where
  "chat_set_user2_id v x = x\<lparr>user2_id := v\<rparr>"

definition chat_set_created_timestamp :: "timestamp \<Rightarrow> chat \<Rightarrow> chat" where
  "chat_set_created_timestamp v x = x\<lparr>chat_created_timestamp := v\<rparr>"

definition chat_set_last_edited_timestamp :: "timestamp \<Rightarrow> chat \<Rightarrow> chat" where
  "chat_set_last_edited_timestamp v x = x\<lparr>chat_last_edited_timestamp := Some v\<rparr>"

definition chat_set_deleted_timestamp :: "timestamp \<Rightarrow> chat \<Rightarrow> chat" where
  "chat_set_deleted_timestamp v x = x\<lparr>chat_deleted_timestamp := Some v\<rparr>"

definition chat_set_deleted :: "bool \<Rightarrow> chat \<Rightarrow> chat" where
  "chat_set_deleted v x = x\<lparr>chat_deleted := v\<rparr>"

definition chat_to_json :: "'j json_ops \<Rightarrow> chat \<Rightarrow> 'j" where
  "chat_to_json J x =
     put_optional J ''last_edited_timestamp'' (chat_last_edited_timestamp x)
       (put_optional J ''deleted_timestamp'' (chat_deleted_timestamp x)
         (put_int64 J ''created_timestamp'' (chat_created_timestamp x)
           (put_bool J ''deleted'' (chat_deleted x)
             (put_int J ''user2_id'' (user2_id x)
               (put_int J ''user1_id'' (user1_id x)
                 (put_int J ''id'' (chat_key x) (null_json J)))))))"

definition chat_from_json :: "'j json_ops \<Rightarrow> 'j \<Rightarrow> exn + chat" where
  "chat_from_json J j =
     rbind (read_int J j ''id'') (\<lambda>i.
       rbind (read_int J j ''user1_id'') (\<lambda>user1.
         rbind (read_int J j ''user2_id'') (\<lambda>user2.
           rbind (read_bool J j ''deleted'') (\<lambda>del.
             rbind (read_int64 J j ''created_timestamp'') (\<lambda>created.
               rbind (read_optional J j ''deleted_timestamp'') (\<lambda>del_at.
                 rbind (read_optional J j ''last_edited_timestamp'') (\<lambda>edited.
                   Inr \<lparr>chat_key = i, user1_id = user1, user2_id = user2, chat_deleted = del,
                     chat_deleted_timestamp = del_at, chat_created_timestamp = created,
                     chat_last_edited_timestamp = edited\<rparr>)))))))"

section \<open>The contract of the json forms\<close>

text \<open>
  \<open>to_json\<close> writes an object whose fields \<open>from_json\<close> reads, up to \<open>kept\<close>: the part of the value
  that survives.
\<close>

locale entity_codec =
  fixes to_json :: "'j json_ops \<Rightarrow> 'a \<Rightarrow> 'j"
    and from_json :: "'j json_ops \<Rightarrow> 'j \<Rightarrow> exn + 'a"
    and kept :: "'a \<Rightarrow> 'a"
  assumes object: "json_laws J \<Longrightarrow> is_object J (to_json J x)"
    and reads_fields: "json_laws J \<Longrightarrow> is_object J j \<Longrightarrow> is_object J j' \<Longrightarrow>
      (\<And>k. find_field J j k = find_field J j' k) \<Longrightarrow> from_json J j = from_json J j'"
    and roundtrip: "json_laws J \<Longrightarrow> from_json J (to_json J x) = Inr (kept x)"
begin

lemma injective: "json_laws J \<Longrightarrow> to_json J x = to_json J y \<Longrightarrow> kept x = kept y"
  using roundtrip [of J x] roundtrip [of J y] by simp

text \<open>Through the wire: whatever \<open>dump\<close> writes, \<open>parse\<close> and \<open>from_json\<close> read back.\<close>

lemma wire: "json_laws J \<Longrightarrow> dump_json J (to_json J x) = Inr s \<Longrightarrow>
    rbind (parse_json J s) (from_json J) = Inr (kept x)"
  by (simp add: json_parse_dump roundtrip)

lemma updated: "json_laws J \<Longrightarrow> from_json J (update_json J (null_json J) (to_json J x)) = Inr (kept x)"
  using reads_fields [of J "update_json J (null_json J) (to_json J x)" "to_json J x"]
  by (simp add: roundtrip object json_simps split: option.splits)

end

lemma const_at_eq:
  "is_object J j \<Longrightarrow> const_at J j k =
     (case find_field J j k of Some v \<Rightarrow> Inr v
      | None \<Rightarrow> Inl (Undefined_behaviour ''operator[] on a missing key of a const object''))"
  by (simp add: const_at_def)

lemmas entity_defs = user_to_json_def user_from_json_def metadata_to_json_def metadata_from_json_def
  text_to_json_def text_from_json_def chat_to_json_def chat_from_json_def

lemma read_optional_put:
  "json_laws J \<Longrightarrow> is_object J j \<Longrightarrow>
   find_field J j k = (case t of None \<Rightarrow> None | Some i \<Rightarrow> Some (number_json J (sint i))) \<Longrightarrow>
   read_optional J j k = Inr t"
  by (cases t) (simp_all add: read_optional_def json_reads json_simps)

lemma user_fields:
  assumes "json_laws J"
  shows "is_object J (user_to_json J x)"
    and "user_from_json J (user_to_json J x) =
      Inr (x\<lparr>registered_timestamp := 0, last_online_timestamp := 0\<rparr>)"
  using assms by (simp_all add: entity_defs json_reads json_simps)

interpretation users: entity_codec user_to_json user_from_json
  "\<lambda>x. x\<lparr>registered_timestamp := 0, last_online_timestamp := 0\<rparr>"
proof unfold_locales
  fix J :: "'a json_ops" and j j' :: 'a
  assume "json_laws J" "is_object J j" "is_object J j'" "\<And>k. find_field J j k = find_field J j' k"
  then show "user_from_json J j = user_from_json J j'"
    by (simp add: user_from_json_def json_reads)
qed (simp_all add: user_fields)

lemma metadata_fields:
  assumes "json_laws J"
  shows "is_object J (metadata_to_json J x)"
    and "metadata_from_json J (metadata_to_json J x) = Inr x"
proof -
  show o: "is_object J (metadata_to_json J x)"
    using assms by (simp add: entity_defs json_simps)
  have "read_optional J (metadata_to_json J x) ''deleted_timestamp'' = Inr (deleted_timestamp x)"
    "read_optional J (metadata_to_json J x) ''last_edited_timestamp'' = Inr (last_edited_timestamp x)"
    using assms by (intro read_optional_put; simp add: o; simp add: entity_defs json_simps split: option.split)+
  then show "metadata_from_json J (metadata_to_json J x) = Inr x"
    using assms o by (simp add: metadata_from_json_def json_reads)
      (simp add: entity_defs json_simps)
qed

interpretation metadata: entity_codec metadata_to_json metadata_from_json "\<lambda>x. x"
proof unfold_locales
  fix J :: "'a json_ops" and j j' :: 'a
  assume "json_laws J" "is_object J j" "is_object J j'" "\<And>k. find_field J j k = find_field J j' k"
  then show "metadata_from_json J j = metadata_from_json J j'"
    by (simp add: metadata_from_json_def json_reads read_optional_def)
qed (simp_all add: metadata_fields)

lemma text_fields:
  assumes "json_laws J"
  shows "is_object J (text_to_json J x)" and "text_from_json J (text_to_json J x) = Inr x"
  using assms by (simp_all add: entity_defs json_reads json_simps)

interpretation texts: entity_codec text_to_json text_from_json "\<lambda>x. x"
proof unfold_locales
  fix J :: "'a json_ops" and j j' :: 'a
  assume "json_laws J" "is_object J j" "is_object J j'" "\<And>k. find_field J j k = find_field J j' k"
  then show "text_from_json J j = text_from_json J j'"
    by (simp add: text_from_json_def json_reads)
qed (simp_all add: text_fields)

lemma chat_fields:
  assumes "json_laws J"
  shows "is_object J (chat_to_json J x)" and "chat_from_json J (chat_to_json J x) = Inr x"
proof -
  show o: "is_object J (chat_to_json J x)"
    using assms by (simp add: entity_defs json_simps)
  have "read_optional J (chat_to_json J x) ''deleted_timestamp'' = Inr (chat_deleted_timestamp x)"
    "read_optional J (chat_to_json J x) ''last_edited_timestamp'' = Inr (chat_last_edited_timestamp x)"
    using assms by (intro read_optional_put; simp add: o; simp add: entity_defs json_simps split: option.split)+
  then show "chat_from_json J (chat_to_json J x) = Inr x"
    using assms o by (simp add: chat_from_json_def json_reads)
      (simp add: entity_defs json_simps)
qed

interpretation chats: entity_codec chat_to_json chat_from_json "\<lambda>x. x"
proof unfold_locales
  fix J :: "'a json_ops" and j j' :: 'a
  assume "json_laws J" "is_object J j" "is_object J j'" "\<And>k. find_field J j k = find_field J j' k"
  then show "chat_from_json J j = chat_from_json J j'"
    by (simp add: chat_from_json_def json_reads read_optional_def)
qed (simp_all add: chat_fields)

text \<open>The merged object of a message, field by field.\<close>

lemma message_object: "json_laws J \<Longrightarrow> is_object J (message_to_json J x)"
  by (simp add: message_to_json_def json_simps metadata_fields text_fields)

lemma message_find:
  "json_laws J \<Longrightarrow> find_field J (message_to_json J x) k =
     (case find_field J (text_to_json J (msg_text x)) k of
        Some v \<Rightarrow> Some v
      | None \<Rightarrow> find_field J (metadata_to_json J (metadata x)) k)"
  by (simp add: message_to_json_def json_simps metadata_fields text_fields split: option.splits)

lemma metadata_ignores_text:
  "json_laws J \<Longrightarrow> is_object J j \<Longrightarrow>
   metadata_from_json J (put_string J ''text'' t j) = metadata_from_json J j"
  by (simp add: metadata_from_json_def json_reads read_optional_def json_simps)

lemma metadata_set_id_find:
  "json_laws J \<Longrightarrow> find_field J (metadata_to_json J (metadata_set_id i m)) k =
     (if k = ''id'' then Some (number_json J (sint i)) else find_field J (metadata_to_json J m) k)"
  by (cases "deleted_timestamp m"; cases "last_edited_timestamp m")
    (simp_all add: metadata_to_json_def metadata_set_id_def put_optional_def json_simps)

lemma message_parts:
  assumes "json_laws J"
  shows "metadata_from_json J (message_to_json J y) = Inr (metadata_set_id (text_id (msg_text y)) (metadata y))"
    and "text_from_json J (message_to_json J y) = Inr (msg_text y)"
proof -
  let ?m = "metadata_set_id (text_id (msg_text y)) (metadata y)"
  have "find_field J (message_to_json J y) k
      = find_field J (put_string J ''text'' (text_of (msg_text y)) (metadata_to_json J ?m)) k" for k
    using assms by (simp add: message_find json_simps metadata_fields metadata_set_id_find text_to_json_def)
  then have "metadata_from_json J (message_to_json J y)
      = metadata_from_json J (put_string J ''text'' (text_of (msg_text y)) (metadata_to_json J ?m))"
    using assms by (intro metadata.reads_fields) (simp_all add: message_object json_simps metadata_fields)
  then show "metadata_from_json J (message_to_json J y) = Inr ?m"
    using assms by (simp add: metadata_ignores_text metadata_fields)
  have "find_field J (message_to_json J y) ''id'' = Some (number_json J (sint (text_id (msg_text y))))"
    "find_field J (message_to_json J y) ''text'' = Some (string_json J (text_of (msg_text y)))"
    using assms by (simp_all add: message_find text_to_json_def json_simps)
  then show "text_from_json J (message_to_json J y) = Inr (msg_text y)"
    using assms by (simp add: text_from_json_def json_reads message_object json_simps)
qed

section \<open>Properties\<close>

text \<open>
  The json forms of metadata, texts and chats are read back without loss; a user loses exactly
  its two time stamps.
\<close>

theorem entities_roundtrip:
  assumes "json_laws J"
  shows "metadata_from_json J (metadata_to_json J m) = Inr m \<and>
    text_from_json J (text_to_json J t) = Inr t \<and>
    chat_from_json J (chat_to_json J c) = Inr c \<and>
    user_from_json J (user_to_json J u) =
      Inr (u\<lparr>registered_timestamp := 0, last_online_timestamp := 0\<rparr>)"
  using metadata.roundtrip [OF assms] texts.roundtrip [OF assms] chats.roundtrip [OF assms]
    users.roundtrip [OF assms] by blast

theorem entities_roundtrip_witness:
  "chat_from_json example_json (chat_to_json example_json (chat_new 5 1 2 3)) = Inr (chat_new 5 1 2 3) \<and>
   user_from_json example_json (user_to_json example_json (fst (user_new 7 1 ''ann'' ''pw''))) =
     Inr \<lparr>user_id = 1, nickname = ''ann'', password = ''pw'', registered_timestamp = 0,
       last_online_timestamp = 0, online = True\<rparr>"
  using entities_roundtrip [OF example_json_laws, of _ _ "chat_new 5 1 2 3" "fst (user_new 7 1 ''ann'' ''pw'')"]
  by (simp add: user_new_def)

text \<open>
  The object that \<open>Message::to_json\<close> merges from metadata and text holds both: after
  \<open>set_id\<close> each part is read back from it; before, the metadata comes back with the text's id.
\<close>

theorem message_json_recovers:
  assumes "json_laws J"
  shows "metadata_from_json J (message_to_json J (message_set_id i x)) = Inr (metadata (message_set_id i x)) \<and>
    text_from_json J (message_to_json J (message_set_id i x)) = Inr (msg_text (message_set_id i x)) \<and>
    metadata_from_json J (message_to_json J x) = Inr (metadata_set_id (text_id (msg_text x)) (metadata x))"
  using message_parts [OF assms, of "message_set_id i x"] message_parts [OF assms, of x]
  by (simp add: message_set_id_def metadata_set_id_def text_set_id_def)

theorem message_json_recovers_witness:
  "metadata_from_json example_json (message_to_json example_json (message_set_id 9 (message_new 5 1 2 ''hi'')))
     = Inr (metadata_new 5 9 1 2 0)"
  using message_json_recovers [OF example_json_laws, of 9 "message_new 5 1 2 ''hi''"]
  by (simp add: message_set_id_def message_new_def metadata_set_id_def metadata_new_def)

end
