(* ===== verification/Std_Map.thy ===== *)
theory Std_Map
  imports Prelude
begin

text \<open>
  \<open>std::map\<close> as an association list in the order of its keys. The order is the one of a measure
  of the keys (\<open>sint\<close> for \<open>int\<close>), because iteration visits the keys in that order.
\<close>

fun map_set :: "('k \<Rightarrow> int) \<Rightarrow> 'k \<Rightarrow> 'v \<Rightarrow> ('k \<times> 'v) list \<Rightarrow> ('k \<times> 'v) list" where
  "map_set f k v [] = [(k, v)]"
| "map_set f k v ((k', v') # m) =
     (if f k = f k' then (k', v) # m
      else if f k < f k' then (k, v) # (k', v') # m
      else (k', v') # map_set f k v m)"

fun map_find :: "'k \<Rightarrow> ('k \<times> 'v) list \<Rightarrow> 'v option" where
  "map_find k [] = None"
| "map_find k ((k', v') # m) = (if k = k' then Some v' else map_find k m)"

fun map_erase :: "'k \<Rightarrow> ('k \<times> 'v) list \<Rightarrow> ('k \<times> 'v) list" where
  "map_erase k [] = []"
| "map_erase k ((k', v') # m) = (if k = k' then m else (k', v') # map_erase k m)"

definition map_ok :: "('k \<Rightarrow> int) \<Rightarrow> ('k \<times> 'v) list \<Rightarrow> bool" where
  "map_ok f m \<longleftrightarrow> sorted_wrt (<) (map (\<lambda>(k, v). f k) m)"

section \<open>The contract of a keyed map\<close>

text \<open>
  What the classes that keep a map rely on. The number of entries follows: it is the number of
  keys that are found.
\<close>

locale keyed_map =
  fixes empty :: 'm
    and find :: "'k \<Rightarrow> 'm \<Rightarrow> 'v option"
    and set :: "'k \<Rightarrow> 'v \<Rightarrow> 'm \<Rightarrow> 'm"
    and erase :: "'k \<Rightarrow> 'm \<Rightarrow> 'm"
    and size :: "'m \<Rightarrow> nat"
    and ok :: "'m \<Rightarrow> bool"
  assumes ok_empty: "ok empty"
    and ok_set: "ok m \<Longrightarrow> ok (set k v m)"
    and ok_erase: "ok m \<Longrightarrow> ok (erase k m)"
    and find_empty: "find k empty = None"
    and find_set: "ok m \<Longrightarrow> find k' (set k v m) = (if k' = k then Some v else find k' m)"
    and find_erase: "ok m \<Longrightarrow> find k' (erase k m) = (if k' = k then None else find k' m)"
    and size_empty: "size empty = 0"
    and size_set: "ok m \<Longrightarrow> size (set k v m) = (if find k m = None then Suc (size m) else size m)"
    and size_erase: "ok m \<Longrightarrow> size (erase k m) = (if find k m = None then size m else size m - 1)"
    and size_pos: "ok m \<Longrightarrow> find k m = Some v \<Longrightarrow> 0 < size m"
begin

lemma erase_set: "ok m \<Longrightarrow> find k' (erase k (set k v m)) = find k' (erase k m)"
  by (simp add: find_set find_erase ok_set)

lemma set_size_back: "ok m \<Longrightarrow> find k m = None \<Longrightarrow> size (erase k (set k v m)) = size m"
  by (simp add: size_erase size_set ok_set find_set)

text \<open>A sequence of writes ends in the last value written for each key.\<close>

definition write_all :: "('k \<times> 'v) list \<Rightarrow> 'm \<Rightarrow> 'm" where
  "write_all ws m = foldl (\<lambda>m (k, v). set k v m) m ws"

lemma ok_write_all: "ok m \<Longrightarrow> ok (write_all ws m)"
  unfolding write_all_def by (induction ws arbitrary: m) (auto simp: ok_set split: prod.splits)

lemma find_write_all:
  "ok m \<Longrightarrow> find k (write_all ws m) = (case map_of (rev ws) k of Some v \<Rightarrow> Some v | None \<Rightarrow> find k m)"
  unfolding write_all_def
proof (induction ws arbitrary: m)
  case (Cons w ws)
  then show ?case
    by (cases w) (auto simp: ok_set find_set map_add_def split: option.splits)
qed simp

end

section \<open>The association list keeps the contract\<close>

lemma map_ok_Nil: "map_ok f []"
  by (simp add: map_ok_def)

lemma map_ok_Cons: "map_ok f ((k, v) # m) \<longleftrightarrow> (\<forall>(k', v') \<in> set m. f k < f k') \<and> map_ok f m"
  by (auto simp: map_ok_def)

lemma map_set_keys: "(k', v') \<in> set (map_set f k v m) \<Longrightarrow> k' = k \<or> f k' = f k \<or> (\<exists>w. (k', w) \<in> set m)"
  by (induction m) (auto split: if_splits)

lemma map_ok_set: "map_ok f m \<Longrightarrow> map_ok f (map_set f k v m)"
proof (induction m)
  case (Cons e m)
  obtain k' v' where e: "e = (k', v')" by fastforce
  show ?case
  proof (cases "f k' < f k")
    case True
    have "f k' < f k''" if "(k'', v'') \<in> set (map_set f k v m)" for k'' v''
      using map_set_keys [OF that] True Cons.prems by (auto simp: e map_ok_Cons)
    then show ?thesis using True Cons by (auto simp: e map_ok_Cons)
  next
    case False
    then show ?thesis using Cons.prems by (auto simp: e map_ok_Cons)
  qed
qed (simp add: map_ok_def)

lemma map_erase_subset: "e \<in> set (map_erase k m) \<Longrightarrow> e \<in> set m"
  by (induction m) (auto split: if_splits)

lemma map_ok_erase: "map_ok f m \<Longrightarrow> map_ok f (map_erase k m)"
  by (induction m) (auto simp: map_ok_Cons map_ok_Nil dest!: map_erase_subset)

lemma map_find_below: "map_ok f ((k', v') # m) \<Longrightarrow> f k \<le> f k' \<Longrightarrow> map_find k m = None"
  by (induction m) (auto simp: map_ok_Cons)

lemma map_find_set:
  "inj f \<Longrightarrow> map_ok f m \<Longrightarrow> map_find k' (map_set f k v m) = (if k' = k then Some v else map_find k' m)"
  by (induction m) (auto simp: map_ok_Cons dest: injD)

lemma map_find_erase:
  "map_ok f m \<Longrightarrow> map_find k' (map_erase k m) = (if k' = k then None else map_find k' m)"
proof (induction m)
  case (Cons e m)
  obtain k1 v1 where e: "e = (k1, v1)" by fastforce
  have "map_find k1 m = None" using map_find_below Cons.prems e by fastforce
  then show ?case using Cons by (auto simp: e map_ok_Cons)
qed simp

lemma map_size_set:
  "inj f \<Longrightarrow> map_ok f m \<Longrightarrow>
   length (map_set f k v m) = (if map_find k m = None then Suc (length m) else length m)"
proof (induction m)
  case (Cons e m)
  obtain k1 v1 where e: "e = (k1, v1)" by fastforce
  have "map_find k m = None" if "f k < f k1" using map_find_below [of f k1 v1 m k] Cons.prems that e by simp
  then show ?case using Cons by (auto simp: e map_ok_Cons dest: injD)
qed simp

lemma map_size_erase:
  "length (map_erase k m) = (if map_find k m = None then length m else length m - 1)"
proof (induction m)
  case (Cons e m)
  obtain k1 v1 where e: "e = (k1, v1)" by fastforce
  have "m \<noteq> []" if "map_find k m = Some v" for v using that by auto
  then show ?case using Cons by (auto simp: e Suc_diff_1)
qed simp

lemma map_find_Nil: "map_find k m = Some v \<Longrightarrow> m \<noteq> []"
  by auto

lemma inj_sint: "inj (sint :: i32 \<Rightarrow> int)"
  by (rule inj_on_inverseI [of _ word_of_int]) simp

lemma map_find_dom: "dom (\<lambda>k. map_find k m) = fst ` set m"
proof (induction m)
  case (Cons e m)
  have "dom (\<lambda>k. map_find k (e # m)) = insert (fst e) (dom (\<lambda>k. map_find k m))"
    by (cases e) (auto simp: dom_def)
  then show ?case using Cons by simp
qed simp

lemma map_size_card: "map_ok f m \<Longrightarrow> length m = card (dom (\<lambda>k. map_find k m))"
  unfolding map_find_dom by (induction m) (fastforce simp: map_ok_Cons card_insert_if)+

text \<open>\<open>std::map<int, T>\<close>.\<close>

abbreviation imap_set :: "i32 \<Rightarrow> 'v \<Rightarrow> (i32 \<times> 'v) list \<Rightarrow> (i32 \<times> 'v) list" where
  "imap_set \<equiv> map_set sint"

abbreviation imap_ok :: "(i32 \<times> 'v) list \<Rightarrow> bool" where
  "imap_ok \<equiv> map_ok sint"

interpretation imap: keyed_map "[]" map_find imap_set map_erase length imap_ok
  by unfold_locales
    (simp_all add: map_ok_Nil map_ok_set map_ok_erase map_find_set map_find_erase map_size_set
      map_size_erase inj_sint map_find_Nil)

end
