(* ===== verification/Clients.thy ===== *)
theory Clients
  imports Std_Map
begin

text \<open>
  \<open>server/src/connected_clients_manager.cpp\<close>: the map from the ids of the connected users to
  their sockets. A socket is the identity of the shared object, a number.
\<close>

type_synonym socket = nat

type_synonym clients = "(i32 \<times> socket) list"

section \<open>Operations\<close>

definition add_client :: "i32 \<Rightarrow> socket \<Rightarrow> clients \<Rightarrow> clients" where
  "add_client user s m = imap_set user s m"

definition remove_client :: "i32 \<Rightarrow> clients \<Rightarrow> clients" where
  "remove_client user m = map_erase user m"

text \<open>The loop erases the first entry, in the order of the user ids, and stops.\<close>

fun remove_client_by_socket :: "socket \<Rightarrow> clients \<Rightarrow> clients" where
  "remove_client_by_socket s [] = []"
| "remove_client_by_socket s ((user, s') # m) =
     (if s' = s then m else (user, s') # remove_client_by_socket s m)"

definition get_client_socket :: "i32 \<Rightarrow> clients \<Rightarrow> socket option" where
  "get_client_socket user m = map_find user m"

definition is_client_connected :: "i32 \<Rightarrow> clients \<Rightarrow> bool" where
  "is_client_connected user m = (map_find user m \<noteq> None)"

definition get_connected_count :: "clients \<Rightarrow> nat" where
  "get_connected_count m = length m"

lemmas clients_defs = add_client_def remove_client_def get_client_socket_def
  is_client_connected_def get_connected_count_def

section \<open>Lemmas\<close>

lemma remove_by_socket_subset: "e \<in> set (remove_client_by_socket s m) \<Longrightarrow> e \<in> set m"
  by (induction s m rule: remove_client_by_socket.induct) (auto split: if_splits)

lemma remove_by_socket_ok: "imap_ok m \<Longrightarrow> imap_ok (remove_client_by_socket s m)"
  by (induction s m rule: remove_client_by_socket.induct)
    (auto simp: map_ok_Cons map_ok_Nil dest!: remove_by_socket_subset)

lemma remove_by_socket_is_erase:
  "imap_ok m \<Longrightarrow> remove_client_by_socket s m =
     (case filter (\<lambda>(user, s'). s' = s) m of [] \<Rightarrow> m | (user, s') # _ \<Rightarrow> map_erase user m)"
proof (induction s m rule: remove_client_by_socket.induct)
  case (2 s user s' m)
  have "user \<noteq> user'" if "filter (\<lambda>(user, s'). s' = s) m = (user', s'') # r" for user' s'' r
  proof -
    have "(user', s'') \<in> set m" using arg_cong [OF that, of set] by auto
    then show ?thesis using "2.prems" by (auto simp: map_ok_Cons)
  qed
  then show ?case using 2 by (auto simp: map_ok_Cons split: list.splits)
qed simp

lemma map_find_filter:
  "imap_ok m \<Longrightarrow> (map_find user m = Some s) \<longleftrightarrow> (user, s) \<in> set m"
proof (induction m)
  case (Cons e m)
  obtain k v where e: "e = (k, v)" by fastforce
  show ?case using Cons by (auto simp: e map_ok_Cons)
qed simp

section \<open>Properties\<close>

text \<open>
  When a socket disconnects, exactly one of its users is removed, the one with the least id;
  every other user keeps its socket. So the disconnected socket stays reachable exactly when it
  was registered for a second user.
\<close>

theorem disconnect_removes_first:
  assumes "imap_ok m"
  shows "imap_ok (remove_client_by_socket s m) \<and>
    (case filter (\<lambda>(user, s'). s' = s) m of
       [] \<Rightarrow> remove_client_by_socket s m = m
     | (first, _) # others \<Rightarrow>
         (\<forall>user. get_client_socket user (remove_client_by_socket s m) =
           (if user = first then None else get_client_socket user m)) \<and>
         get_connected_count (remove_client_by_socket s m) = get_connected_count m - 1 \<and>
         ((\<exists>user. get_client_socket user (remove_client_by_socket s m) = Some s) = (others \<noteq> [])))"
proof (cases "filter (\<lambda>(user, s'). s' = s) m")
  case Nil
  then show ?thesis using assms by (simp add: remove_by_socket_ok remove_by_socket_is_erase)
next
  case (Cons e others)
  obtain first s' where e: "e = (first, s')" by fastforce
  have mem: "(user, s) \<in> set m \<longleftrightarrow> (user, s) \<in> set (e # others)" for user
    unfolding Cons [symmetric] by auto
  have all: "\<forall>(user, t) \<in> set (e # others). t = s" unfolding Cons [symmetric] by auto
  have "sorted_wrt (<) (map (\<lambda>(k, v). sint k) (e # others))"
    unfolding Cons [symmetric] using assms unfolding map_ok_def sorted_wrt_map
    by (rule sorted_wrt_filter)
  then have distinct: "(first, t) \<notin> set others" for t by (auto simp: e)
  have erase: "remove_client_by_socket s m = map_erase first m"
    using assms by (simp add: remove_by_socket_is_erase Cons e)
  have "map_find first m \<noteq> None"
    using map_find_filter [OF assms, of first s] mem [of first] all by (auto simp: e)
  then have size: "length (map_erase first m) = length m - 1" using map_size_erase [of first m] by metis
  have "(\<exists>user. user \<noteq> first \<and> (user, s) \<in> set m) = (others \<noteq> [])"
  proof (cases others)
    case (Cons x xs)
    obtain user t where x: "x = (user, t)" by fastforce
    have "t = s" using all Cons x by simp
    then have "(user, s) \<in> set m" "user \<noteq> first"
      using mem [of user] distinct [of s] Cons x by auto
    then show ?thesis using Cons by auto
  qed (use mem in \<open>auto simp: e\<close>)
  then show ?thesis
    using assms by (auto simp: Cons e erase clients_defs imap.ok_erase imap.find_erase
        size map_find_filter)
qed

theorem disconnect_removes_first_witness:
  "get_client_socket 7 (remove_client_by_socket 3 (add_client 7 3 (add_client 5 3 []))) = Some 3"
proof -
  have "imap_ok (add_client 7 3 (add_client 5 3 []))"
    unfolding add_client_def by (intro imap.ok_set imap.ok_empty)
  from disconnect_removes_first [OF this, of 3] show ?thesis
    by (simp add: clients_defs)
qed

end
