(* ===== verification/User_Keys.thy ===== *)
theory User_Keys
  imports Std_Map Json_Lib Json_Example
begin

text \<open>
  \<open>crypto/src/user_crypto_keys.cpp\<close>: the public keys of a user, their json form, and the set of
  keys that a client keeps. The text form of \<open>cpp_int\<close> in base 16 is written and read by the
  streams of \<open>boost::multiprecision\<close>; both directions are arguments.
\<close>

record hex_ops =
  cpp_int_to_hex :: "int \<Rightarrow> exn + string"
  hex_to_cpp_int :: "string \<Rightarrow> exn + int"

text \<open>
  Documented: nonnegative numbers are printed and read back, negative numbers raise
  \<open>std::runtime_error\<close> in base 16. No stream operation is undefined.
\<close>

definition hex_laws :: "hex_ops \<Rightarrow> bool" where
  "hex_laws H \<longleftrightarrow>
     (\<forall>n. 0 \<le> n \<longrightarrow> (\<exists>s. cpp_int_to_hex H n = Inr s \<and> hex_to_cpp_int H s = Inr n)) \<and>
     (\<forall>n. n < 0 \<longrightarrow> (\<exists>m. cpp_int_to_hex H n = Inl (Runtime_error m))) \<and>
     (\<forall>s m. hex_to_cpp_int H s \<noteq> Inl (Undefined_behaviour m))"

lemma hex_roundtrip:
  "hex_laws H \<Longrightarrow> cpp_int_to_hex H n = Inr s \<Longrightarrow> hex_to_cpp_int H s = Inr n"
  unfolding hex_laws_def by (cases "0 \<le> n") (fastforce simp: not_le)+

lemma hex_prints: "hex_laws H \<Longrightarrow> (\<exists>s. cpp_int_to_hex H n = Inr s) \<longleftrightarrow> 0 \<le> n"
  unfolding hex_laws_def by (cases "0 \<le> n") (fastforce simp: not_le)+

section \<open>The keys of one user\<close>

record user_keys =
  uk_dsa :: int
  uk_el_gamal :: int
  uk_aes :: int

definition user_keys_default :: user_keys where
  "user_keys_default = \<lparr>uk_dsa = 0, uk_el_gamal = 0, uk_aes = 0\<rparr>"

definition user_keys_new :: "int \<Rightarrow> int \<Rightarrow> int \<Rightarrow> user_keys" where
  "user_keys_new dsa_key el_gamal_key aes_key =
     \<lparr>uk_dsa = dsa_key, uk_el_gamal = el_gamal_key, uk_aes = aes_key\<rparr>"

definition get_dsa_public_key :: "user_keys \<Rightarrow> int" where
  "get_dsa_public_key u = uk_dsa u"

definition get_el_gamal_public_key :: "user_keys \<Rightarrow> int" where
  "get_el_gamal_public_key u = uk_el_gamal u"

definition get_aes_key :: "user_keys \<Rightarrow> int" where
  "get_aes_key u = uk_aes u"

definition set_dsa_public_key :: "int \<Rightarrow> user_keys \<Rightarrow> user_keys" where
  "set_dsa_public_key key u = u\<lparr>uk_dsa := key\<rparr>"

definition set_el_gamal_public_key :: "int \<Rightarrow> user_keys \<Rightarrow> user_keys" where
  "set_el_gamal_public_key key u = u\<lparr>uk_el_gamal := key\<rparr>"

definition set_aes_key :: "int \<Rightarrow> user_keys \<Rightarrow> user_keys" where
  "set_aes_key key u = u\<lparr>uk_aes := key\<rparr>"

text \<open>\<open>from_json\<close>: a null field gives \<open>-1\<close>, any exception gives three times \<open>-1\<close>.\<close>

definition key_field :: "'j json_ops \<Rightarrow> hex_ops \<Rightarrow> 'j \<Rightarrow> string \<Rightarrow> exn + int" where
  "key_field J H j key =
     rbind (const_at J j key) (\<lambda>v.
       if is_null J v then Inr (-1) else rbind (get_string J v) (hex_to_cpp_int H))"

definition user_keys_from_json :: "'j json_ops \<Rightarrow> hex_ops \<Rightarrow> 'j \<Rightarrow> exn + user_keys" where
  "user_keys_from_json J H j =
     catch_std
       (rbind (key_field J H j ''dsa_public_key'') (\<lambda>dsa_key.
         rbind (key_field J H j ''el_gamal_public_key'') (\<lambda>el_gamal_key.
           Inr (user_keys_new dsa_key el_gamal_key (-1)))))
       (\<lambda>e. Inr (user_keys_new (-1) (-1) (-1)))"

section \<open>The key set\<close>

type_synonym key_set = "(i32 \<times> user_keys) list"

definition add_user_keys :: "i32 \<Rightarrow> user_keys \<Rightarrow> key_set \<Rightarrow> key_set" where
  "add_user_keys user keys ks = imap_set user keys ks"

text \<open>\<open>operator[]\<close> inserts default keys for an unknown user.\<close>

definition key_set_set_aes_key :: "i32 \<Rightarrow> int \<Rightarrow> key_set \<Rightarrow> key_set" where
  "key_set_set_aes_key user key ks =
     imap_set user
       (set_aes_key key (case map_find user ks of Some u \<Rightarrow> u | None \<Rightarrow> user_keys_default)) ks"

definition get_user_keys :: "i32 \<Rightarrow> key_set \<Rightarrow> user_keys option" where
  "get_user_keys user ks = map_find user ks"

definition remove_user_keys :: "i32 \<Rightarrow> key_set \<Rightarrow> bool \<times> key_set" where
  "remove_user_keys user ks = (map_find user ks \<noteq> None, map_erase user ks)"

definition has_user :: "i32 \<Rightarrow> key_set \<Rightarrow> bool" where
  "has_user user ks = (map_find user ks \<noteq> None)"

definition key_set_size :: "key_set \<Rightarrow> nat" where
  "key_set_size ks = length ks"

definition key_set_clear :: "key_set \<Rightarrow> key_set" where
  "key_set_clear ks = []"

text \<open>A run of the operations that change the set.\<close>

datatype key_op =
    Add_keys i32 user_keys
  | Set_aes i32 int
  | Remove_keys i32
  | Clear_keys

fun run_key_op :: "key_op \<Rightarrow> key_set \<Rightarrow> key_set" where
  "run_key_op (Add_keys user keys) ks = add_user_keys user keys ks"
| "run_key_op (Set_aes user key) ks = key_set_set_aes_key user key ks"
| "run_key_op (Remove_keys user) ks = snd (remove_user_keys user ks)"
| "run_key_op Clear_keys ks = key_set_clear ks"

text \<open>The abstract set: a partial function.\<close>

fun spec_key_op :: "key_op \<Rightarrow> (i32 \<Rightarrow> user_keys option) \<Rightarrow> i32 \<Rightarrow> user_keys option" where
  "spec_key_op (Add_keys user keys) M = M(user \<mapsto> keys)"
| "spec_key_op (Set_aes user key) M =
     M(user \<mapsto> (case M user of Some u \<Rightarrow> u\<lparr>uk_aes := key\<rparr> | None \<Rightarrow> \<lparr>uk_dsa = 0, uk_el_gamal = 0, uk_aes = key\<rparr>))"
| "spec_key_op (Remove_keys user) M = M(user := None)"
| "spec_key_op Clear_keys M = Map.empty"

lemmas key_set_defs = add_user_keys_def key_set_set_aes_key_def remove_user_keys_def
  key_set_clear_def get_user_keys_def has_user_def key_set_size_def

lemma key_op_ok: "imap_ok ks \<Longrightarrow> imap_ok (run_key_op op ks)"
  by (cases op) (simp_all add: key_set_defs imap.ok_set imap.ok_erase imap.ok_empty)

lemma key_op_refines:
  "imap_ok ks \<Longrightarrow>
   (\<lambda>user. get_user_keys user (run_key_op op ks)) = spec_key_op op (\<lambda>user. get_user_keys user ks)"
  by (cases op) (auto simp: key_set_defs fun_eq_iff imap.find_set imap.find_erase imap.find_empty
      set_aes_key_def user_keys_default_def split: option.splits)

section \<open>Properties\<close>

text \<open>
  C31: Every run of the key set refines a partial function from users to keys: what
  \<open>get_user_keys\<close> finds afterwards is what the same updates of a map give, and \<open>has_user\<close>,
  the result of \<open>remove_user_keys\<close> and \<open>size\<close> agree with it.
\<close>

theorem key_set_refines:
  "(\<lambda>user. get_user_keys user (foldl (\<lambda>ks op. run_key_op op ks) [] ops)) =
     foldl (\<lambda>M op. spec_key_op op M) Map.empty ops \<and>
   has_user u (foldl (\<lambda>ks op. run_key_op op ks) [] ops) =
     (foldl (\<lambda>M op. spec_key_op op M) Map.empty ops u \<noteq> None) \<and>
   fst (remove_user_keys u (foldl (\<lambda>ks op. run_key_op op ks) [] ops)) =
     (foldl (\<lambda>M op. spec_key_op op M) Map.empty ops u \<noteq> None) \<and>
   key_set_size (foldl (\<lambda>ks op. run_key_op op ks) [] ops) =
     card (dom (foldl (\<lambda>M op. spec_key_op op M) Map.empty ops))"
proof -
  let ?ks = "foldl (\<lambda>ks op. run_key_op op ks) [] ops"
  let ?M = "foldl (\<lambda>M op. spec_key_op op M) Map.empty ops"
  have ok: "imap_ok (foldl (\<lambda>ks op. run_key_op op ks) ks ops)" if "imap_ok ks" for ks ops
    using that by (induction ops arbitrary: ks) (simp_all add: key_op_ok)
  have ref: "(\<lambda>user. get_user_keys user (foldl (\<lambda>ks op. run_key_op op ks) ks ops)) =
      foldl (\<lambda>M op. spec_key_op op M) (\<lambda>user. get_user_keys user ks) ops" if "imap_ok ks" for ks ops
    using that by (induction ops arbitrary: ks) (simp_all add: key_op_ok key_op_refines)
  have M: "(\<lambda>user. map_find user ?ks) = ?M"
    using ref [of "[]" ops] imap.ok_empty by (simp add: get_user_keys_def)
  have at: "map_find u ?ks = ?M u" using fun_cong [OF M, of u] .
  have size: "length ?ks = card (dom ?M)"
    unfolding M [symmetric] by (rule map_size_card [OF ok [OF imap.ok_empty]])
  show ?thesis unfolding key_set_defs M at size by simp
qed

section \<open>Reading keys\<close>

text \<open>The object that the server sends for a user is read back.\<close>

lemma user_keys_from_json_reads:
  assumes "json_laws J" "hex_laws H" "is_object J j"
    and "find_field J j ''dsa_public_key'' = Some (string_json J sd)" "cpp_int_to_hex H d = Inr sd"
    and "find_field J j ''el_gamal_public_key'' = Some (string_json J se)" "cpp_int_to_hex H e = Inr se"
  shows "user_keys_from_json J H j = Inr (user_keys_new d e (-1))"
  using assms hex_roundtrip [OF assms(2)]
  by (simp add: user_keys_from_json_def key_field_def const_at_def json_simps)

text \<open>Any throw on a complete object is turned into three times \<open>-1\<close>.\<close>

lemma key_field_no_ub:
  "hex_laws H \<Longrightarrow> find_field J j key = Some v \<Longrightarrow> (\<And>m. get_string J v \<noteq> Inl (Undefined_behaviour m)) \<Longrightarrow>
   key_field J H j key \<noteq> Inl (Undefined_behaviour m)"
  unfolding key_field_def const_at_def hex_laws_def
  by (cases "get_string J v") auto

lemma user_keys_from_json_total:
  assumes "hex_laws H" "\<And>v m. get_string J v \<noteq> Inl (Undefined_behaviour m)"
    and "find_field J j ''dsa_public_key'' \<noteq> None" "find_field J j ''el_gamal_public_key'' \<noteq> None"
  shows "\<exists>u. user_keys_from_json J H j = Inr u"
proof -
  obtain v w where f: "find_field J j ''dsa_public_key'' = Some v" "find_field J j ''el_gamal_public_key'' = Some w"
    using assms(3,4) by auto
  have "key_field J H j ''dsa_public_key'' \<noteq> Inl (Undefined_behaviour m)"
    "key_field J H j ''el_gamal_public_key'' \<noteq> Inl (Undefined_behaviour m)" for m
    by (rule key_field_no_ub [OF assms(1) f(1) assms(2)], rule key_field_no_ub [OF assms(1) f(2) assms(2)])
  then show ?thesis unfolding user_keys_from_json_def
    by (cases "key_field J H j ''dsa_public_key''"; cases "key_field J H j ''el_gamal_public_key''")
      (auto split: exn.splits)
qed

end
