(* ===== verification/Hybrid.thy ===== *)
theory Hybrid
  imports Aes_Text Dsa User_Keys
begin

text \<open>
  \<open>crypto/src/hybrid_crypto_system.cpp\<close>: the object of a client that holds an ElGamal and a DSA
  key pair over fixed parameters, and a pointer to an AES object that no code assigns.
\<close>

section \<open>State and operations\<close>

record hybrid =
  hybrid_el_gamal :: el_gamal
  hybrid_dsa :: dsa
  hybrid_aes :: "aes256 option"

definition el_gamal_p_hex :: string where
  "el_gamal_p_hex =
     ''ffffffffffffffffc90fdaa22168c234c4c6628b80dc1cd129024e088a67cc74'' @
     ''020bbea63b139b22514a08798e3404ddef9519b3cd3a431b302b0a6df25f1437'' @
     ''4fe1356d6d51c245e485b576625e7ec6f44c42e9a637ed6b0bff5cb6f406b7ed'' @
     ''ee386bfb5a899fa5ae9f24117c4b1fe649286651ece45b3dc2007cb8a163bf05'' @
     ''98da48361c55d39a69163fa8fd24cf5f83655d23dca3ad961c62f356208552bb'' @
     ''9ed529077096966d670c354e4abc9804f1746c08ca18217c32905e462e36ce3b'' @
     ''e39e772c180e86039b2783a2ec07a28fb5c55df06f4c52c9de2bcbf695581718'' @
     ''3995497cea956ae515d2261898fa051015728e5a8aacaa68ffffffffffffffff''"

definition dsa_p_hex :: string where
  "dsa_p_hex =
     ''8df2a494492276aa3d25759bb06869cbeac0d83afb8d0cf7cbb8324f0d7882e5'' @
     ''d0762fc5b7210eafc2e9adac32ab7aac49693dfbf83724c2ec0736ee31c80291''"

definition dsa_q_hex :: string where
  "dsa_q_hex = ''c773218c737ec8ee993b4f2ded30f48edace915f''"

definition dsa_g_hex :: string where
  "dsa_g_hex =
     ''626d027839ea0a13413163a55b4cb500299d5522956cefcb3bff10f399ce2c2e'' @
     ''71cb9de5fa24babf58e5b79521925c9cc42e9f6f464b088cc572af53e6d78802''"

definition hybrid_new :: "hex_ops \<Rightarrow> entropy \<Rightarrow> nat \<Rightarrow> (hybrid \<times> nat) comp" where
  "hybrid_new H E k =
     cbind (lift_result (hex_to_cpp_int H el_gamal_p_hex)) (\<lambda>el_gamal_p.
       cbind (el_gamal_new E k el_gamal_p 11) (\<lambda>(el_gamal, k).
         cbind (lift_result (hex_to_cpp_int H dsa_p_hex)) (\<lambda>dsa_p.
           cbind (lift_result (hex_to_cpp_int H dsa_q_hex)) (\<lambda>dsa_q.
             cbind (lift_result (hex_to_cpp_int H dsa_g_hex)) (\<lambda>dsa_g.
               cbind (dsa_new E k dsa_p dsa_q dsa_g) (\<lambda>(dsa, k).
                 ret (\<lparr>hybrid_el_gamal = el_gamal, hybrid_dsa = dsa, hybrid_aes = None\<rparr>, k)))))))"

definition get_el_gamal_key :: "hybrid \<Rightarrow> int" where
  "get_el_gamal_key s = el_gamal_get_public_key (hybrid_el_gamal s)"

definition get_dsa_key :: "hybrid \<Rightarrow> int" where
  "get_dsa_key s = dsa_get_public_key (hybrid_dsa s)"

text \<open>The key bytes themselves, not their hex digits, are read as a hexadecimal number.\<close>

definition encrypt_message ::
    "hex_ops \<Rightarrow> entropy \<Rightarrow> nat \<Rightarrow> hybrid \<Rightarrow> string \<Rightarrow> (encrypted_message \<times> nat) comp" where
  "encrypt_message H E k s recipients_public_key =
     (case hybrid_aes s of
        None \<Rightarrow> throw (Undefined_behaviour ''null _aes dereferenced'')
      | Some aes \<Rightarrow>
          cbind (lift_result (hex_to_cpp_int H (map (\<lambda>b. char_of (unat b)) (get_key aes)))) (\<lambda>key.
            cbind (lift_result (hex_to_cpp_int H recipients_public_key)) (\<lambda>public_key.
              el_gamal_encrypt E k (hybrid_el_gamal s) key public_key)))"

definition decrypt_message :: "hybrid \<Rightarrow> encrypted_message \<Rightarrow> exn + int" where
  "decrypt_message s em = el_gamal_decrypt (hybrid_el_gamal s) em"

definition hybrid_sign :: "entropy \<Rightarrow> nat \<Rightarrow> hybrid \<Rightarrow> int \<Rightarrow> (dsa_signature \<times> nat) comp" where
  "hybrid_sign E k s message_hash = dsa_sign E k (hybrid_dsa s) message_hash"

definition hybrid_verify :: "hybrid \<Rightarrow> int \<Rightarrow> dsa_signature \<Rightarrow> int \<Rightarrow> exn + bool" where
  "hybrid_verify s message_hash sig signer_public_key =
     dsa_verify (hybrid_dsa s) message_hash sig signer_public_key"

lemma hybrid_new_parts:
  assumes "hybrid_new H E k = ret (s, k')"
  shows "hybrid_aes s = None"
    and "\<exists>p i j. hex_to_cpp_int H el_gamal_p_hex = Inr p \<and> el_gamal_new E i p 11 = ret (hybrid_el_gamal s, j)"
    and "\<exists>p q g i j. hex_to_cpp_int H dsa_p_hex = Inr p \<and> hex_to_cpp_int H dsa_q_hex = Inr q \<and>
      hex_to_cpp_int H dsa_g_hex = Inr g \<and> dsa_new E i p q g = ret (hybrid_dsa s, j)"
  using assms by (force simp: hybrid_new_def cbind_ret_iff)+

section \<open>Properties\<close>

text \<open>
  On every object that the constructor builds, \<open>encrypt_message\<close> dereferences the null
  pointer \<open>_aes\<close>: it never returns a ciphertext.
\<close>

theorem hybrid_encrypt_undefined:
  assumes "hybrid_new H E k = ret (s, k')"
  shows "\<exists>m. encrypt_message H F n s recipients_public_key = throw (Undefined_behaviour m)"
  using hybrid_new_parts(1) [OF assms] by (simp add: encrypt_message_def)

definition small_hex :: hex_ops where
  "small_hex = \<lparr>cpp_int_to_hex = \<lambda>n. Inr (if n = 11 then dsa_q_hex else if n = 2 then dsa_g_hex else dsa_p_hex),
     hex_to_cpp_int = \<lambda>s. Inr (if s = dsa_q_hex then 11 else if s = dsa_g_hex then 2 else 23)\<rparr>"

definition example_hybrid :: hybrid where
  "example_hybrid = \<lparr>
     hybrid_el_gamal = \<lparr>el_gamal_p = 23, el_gamal_g = 11, el_gamal_keys = \<lparr>private_key = 13, public_key = 17\<rparr>\<rparr>,
     hybrid_dsa = \<lparr>dsa_p = 23, dsa_q = 11, dsa_g = 2, dsa_keys = \<lparr>private_key = 2, public_key = 4\<rparr>\<rparr>,
     hybrid_aes = None\<rparr>"

lemma example_hybrid_new: "hybrid_new small_hex constant_entropy 0 = ret (example_hybrid, 2)"
proof -
  have hex: "hex_to_cpp_int small_hex el_gamal_p_hex = Inr 23" "hex_to_cpp_int small_hex dsa_p_hex = Inr 23"
    "hex_to_cpp_int small_hex dsa_q_hex = Inr 11" "hex_to_cpp_int small_hex dsa_g_hex = Inr 2"
    by (simp_all add: small_hex_def el_gamal_p_hex_def dsa_p_hex_def dsa_q_hex_def dsa_g_hex_def)
  have r: "random constant_entropy k 2 21 = ret 13" for k
    using random_constant [of 2 21 k] by (simp add: draw_seven_20)
  have "draw (\<lambda>_. 7) 0 mod 10 = 1" by (simp add: draw_def upt_rec)
  then have r': "random constant_entropy k 1 10 = ret 2" for k
    using random_constant [of 1 10 k] by simp
  have v: "validate_el_gamal_parameters constant_entropy k 23 11 = ret (True, k)"
    "validate_dsa_parameters constant_entropy k 23 11 2 = ret (True, k)" for k
    by (simp_all add: validate_el_gamal_parameters_def validate_dsa_parameters_def is_prime_def
        small_primes_def modular_pow_eq)
  have e: "el_gamal_new constant_entropy 0 23 11 = ret (hybrid_el_gamal example_hybrid, 1)"
    using v r by (simp add: el_gamal_new_def modular_pow_eq example_hybrid_def)
  have d: "dsa_new constant_entropy (Suc 0) 23 11 2 = ret (hybrid_dsa example_hybrid, 2)"
    using v r' by (simp add: dsa_new_def modular_pow_eq example_hybrid_def)
  show ?thesis by (simp add: hybrid_new_def hex e d) (simp add: example_hybrid_def)
qed

theorem hybrid_encrypt_undefined_witness:
  "\<exists>m. encrypt_message small_hex constant_entropy 2 example_hybrid ''11'' = throw (Undefined_behaviour m)"
  by (rule hybrid_encrypt_undefined [OF example_hybrid_new])

text \<open>
  Two clients built over the same parameters, with \<open>q\<close> prime and \<open>p > 1\<close>, accept each other's
  signatures.
\<close>

lemma hybrid_signatures:
  assumes alice: "hybrid_new H E i = ret (alice, i')" and bob: "hybrid_new H F j = ret (bob, j')"
    and dsa: "hex_to_cpp_int H dsa_p_hex = Inr p" "hex_to_cpp_int H dsa_q_hex = Inr q" "prime_int q" "2 \<le> p"
    and sign: "0 \<le> h" "hybrid_sign G n alice h = ret (sig, n')"
  shows "hybrid_verify bob h sig (get_dsa_key alice) = Inr True"
proof -
  obtain g i1 i2 j1 j2 where "dsa_new E i1 p q g = ret (hybrid_dsa alice, i2)"
    "dsa_new F j1 p q g = ret (hybrid_dsa bob, j2)"
    using hybrid_new_parts(3) [OF alice] hybrid_new_parts(3) [OF bob] dsa by auto
  then have wf: "dsa_wf (hybrid_dsa alice) \<and> dsa_p (hybrid_dsa alice) = p \<and> dsa_q (hybrid_dsa alice) = q \<and>
      dsa_g (hybrid_dsa alice) = g" "dsa_wf (hybrid_dsa bob) \<and> dsa_p (hybrid_dsa bob) = p \<and>
      dsa_q (hybrid_dsa bob) = q \<and> dsa_g (hybrid_dsa bob) = g"
    using dsa_new_wf dsa prime_int_gt [OF dsa(3)] by simp_all
  have "sign_loop G n (hybrid_dsa alice) h \<lparr>sig_r = 0, sig_s = 0\<rparr> = Some (Inr (sig, n'))"
    using sign(2) by (simp add: hybrid_sign_def dsa_sign_def ret_def)
  from sign_loop_result [OF this] obtain k where "signature_for (hybrid_dsa alice) h k sig" "sig_s sig \<noteq> 0"
    using wf sign(1) by auto
  then show ?thesis
    using signature_accepted [of "hybrid_dsa alice" h k sig "hybrid_dsa bob"] wf dsa(3) sign(1)
    by (simp add: hybrid_verify_def get_dsa_key_def)
qed

end
