(* ===== verification/Calendar.thy ===== *)
theory Calendar
  imports Text_Format
begin

text \<open>
  Time stamps and their text form \<open>%Y-%m-%d %H:%M:%S\<close>: what \<open>std::put_time\<close> writes of a broken-down
  time and \<open>std::get_time\<close> reads, \<open>format_timestamp\<close> of the repositories (through \<open>gmtime\<close>) and the two
  \<open>parse_timestamp\<close> functions (through \<open>mktime\<close>, which depends on the time zone of the process).
\<close>

section \<open>Broken-down times\<close>

text \<open>As in C: years count from 1900, months from 0.\<close>

record tm =
  tm_sec :: int
  tm_min :: int
  tm_hour :: int
  tm_mday :: int
  tm_mon :: int
  tm_year :: int

text \<open>
  The proleptic Gregorian date of a day counted from 1970-01-01, by eras of 400 years that begin on
  the first of March, and back.
\<close>

definition year_of_era :: "int \<Rightarrow> int" where
  "year_of_era doe = (doe - doe div 1460 + doe div 36524 - doe div 146096) div 365"

definition civil_from_days :: "int \<Rightarrow> int \<times> int \<times> int" where
  "civil_from_days days =
     (let z = days + 719468;
          era = z div 146097;
          doe = z mod 146097;
          yoe = year_of_era doe;
          doy = doe - (365 * yoe + yoe div 4 - yoe div 100);
          mp = (5 * doy + 2) div 153;
          d = doy - (153 * mp + 2) div 5 + 1;
          m = (if mp < 10 then mp + 3 else mp - 9)
      in (yoe + era * 400 + (if m \<le> 2 then 1 else 0), m, d))"

definition days_from_civil :: "int \<Rightarrow> int \<Rightarrow> int \<Rightarrow> int" where
  "days_from_civil y m d =
     (let y' = (if m \<le> 2 then y - 1 else y);
          era = y' div 400;
          yoe = y' mod 400;
          doy = (153 * (if 2 < m then m - 3 else m + 9) + 2) div 5 + d - 1;
          doe = yoe * 365 + yoe div 4 - yoe div 100 + doy
      in era * 146097 + doe - 719468)"

definition gmtime :: "int \<Rightarrow> tm" where
  "gmtime t =
     (let (y, m, d) = civil_from_days (t div 86400); s = t mod 86400
      in \<lparr>tm_sec = s mod 60, tm_min = s div 60 mod 60, tm_hour = s div 3600,
          tm_mday = d, tm_mon = m - 1, tm_year = y - 1900\<rparr>)"

text \<open>The time in UTC that a broken-down time names.\<close>

definition timegm :: "tm \<Rightarrow> int" where
  "timegm t =
     days_from_civil (tm_year t + 1900) (tm_mon t + 1) (tm_mday t) * 86400 +
     tm_hour t * 3600 + tm_min t * 60 + tm_sec t"

section \<open>Writing\<close>

text \<open>Width two with a leading zero.\<close>

definition two_digits :: "int \<Rightarrow> string" where
  "two_digits n = (if n < 10 then CHR ''0'' # to_string n else to_string n)"

definition put_time :: "tm \<Rightarrow> string" where
  "put_time t =
     to_string (tm_year t + 1900) @ ''-'' @ two_digits (tm_mon t + 1) @ ''-'' @ two_digits (tm_mday t) @ '' '' @
     two_digits (tm_hour t) @ '':'' @ two_digits (tm_min t) @ '':'' @ two_digits (tm_sec t)"

text \<open>\<open>to_time_t\<close> truncates the nanoseconds of a time point towards zero.\<close>

definition format_timestamp :: "i64 \<Rightarrow> string" where
  "format_timestamp ts = put_time (gmtime (sint ts sdiv 1000000000))"

section \<open>Reading\<close>

text \<open>
  \<open>std::get_time\<close>: a field takes at most its number of digits and must lie in its range. Reading stops
  at the first mismatch and keeps the fields read so far; nobody looks at the state of the stream.
\<close>

definition number_field :: "nat \<Rightarrow> int \<Rightarrow> int \<Rightarrow> string \<Rightarrow> (int \<times> string) option" where
  "number_field len lo hi s =
     (let ds = takeWhile digit (take len s); v = int (digits_value 0 ds)
      in if ds = [] \<or> v < lo \<or> hi < v then None else Some (v, drop (length ds) s))"

definition read_field ::
    "nat \<Rightarrow> int \<Rightarrow> int \<Rightarrow> (int \<Rightarrow> tm \<Rightarrow> tm) \<Rightarrow> tm \<times> string option \<Rightarrow> tm \<times> string option" where
  "read_field len lo hi store = (\<lambda>(t, input).
     case Option.bind input (number_field len lo hi) of
       None \<Rightarrow> (t, None)
     | Some (v, s) \<Rightarrow> (store v t, Some s))"

definition read_char :: "char \<Rightarrow> tm \<times> string option \<Rightarrow> tm \<times> string option" where
  "read_char c = (\<lambda>(t, input).
     case input of Some (x # s) \<Rightarrow> (t, if x = c then Some s else None) | _ \<Rightarrow> (t, None))"

definition read_spaces :: "tm \<times> string option \<Rightarrow> tm \<times> string option" where
  "read_spaces = (\<lambda>(t, input). (t, map_option (dropWhile space_char) input))"

definition get_time :: "string \<Rightarrow> tm" where
  "get_time s =
     (let year = read_field 4 0 9999 (\<lambda>v t. t\<lparr>tm_year := v - 1900\<rparr>);
          month = read_field 2 1 12 (\<lambda>v t. t\<lparr>tm_mon := v - 1\<rparr>);
          day = read_field 2 1 31 (\<lambda>v t. t\<lparr>tm_mday := v\<rparr>);
          hour = read_field 2 0 23 (\<lambda>v t. t\<lparr>tm_hour := v\<rparr>);
          minute = read_field 2 0 59 (\<lambda>v t. t\<lparr>tm_min := v\<rparr>);
          second = read_field 2 0 60 (\<lambda>v t. t\<lparr>tm_sec := v\<rparr>);
          start = (\<lparr>tm_sec = 0, tm_min = 0, tm_hour = 0, tm_mday = 0, tm_mon = 0, tm_year = 0\<rparr>, Some s)
      in fst (second (read_char (CHR '':'') (minute (read_char (CHR '':'') (hour (read_spaces
           (day (read_char (CHR ''-'') (month (read_char (CHR ''-'') (year (read_spaces start)))))))))))))"

text \<open>\<open>mktime\<close> reads the broken-down time in the time zone of the process.\<close>

definition parse_timestamp :: "(tm \<Rightarrow> int) \<Rightarrow> string \<Rightarrow> i64" where
  "parse_timestamp mktime s = word_of_int (mktime (get_time s) * 1000000000)"

text \<open>\<open>User::parse_timestamp\<close> is a second copy of the function.\<close>

definition user_parse_timestamp :: "(tm \<Rightarrow> int) \<Rightarrow> string \<Rightarrow> i64" where
  "user_parse_timestamp mktime s = word_of_int (mktime (get_time s) * 1000000000)"

section \<open>Days and dates\<close>

text \<open>Days before a year of the era.\<close>

definition days_before :: "int \<Rightarrow> int" where
  "days_before y = 365 * y + y div 4 - y div 100"

lemma year_of_era_mono:
  assumes "a \<le> b"
  shows "year_of_era a \<le> year_of_era b"
proof -
  have fourths: "x div 146096 = x div 36524 div 4" for x :: int
    by (simp add: zdiv_zmult2_eq [symmetric])
  have "a - a div 1460 \<le> b - b div 1460"
    using assms by linarith
  moreover have "a div 36524 \<le> b div 36524"
    using assms by (simp add: zdiv_mono1)
  then have "a div 36524 - a div 146096 \<le> b div 36524 - b div 146096"
    unfolding fourths by linarith
  ultimately show ?thesis
    unfolding year_of_era_def by (intro zdiv_mono1) linarith+
qed

lemma years_table:
  "\<forall>y \<in> set [0..399]. year_of_era (days_before y) = y \<and>
     (y < 399 \<longrightarrow> year_of_era (days_before (y + 1) - 1) = y)"
  by code_simp

lemma year_of_era_range:
  assumes "0 \<le> e" "e < 146097"
  shows "0 \<le> year_of_era e" "year_of_era e \<le> 399"
proof -
  have "year_of_era 0 = 0" "year_of_era 146096 = 399"
    by (simp_all add: year_of_era_def)
  then show "0 \<le> year_of_era e" "year_of_era e \<le> 399"
    using year_of_era_mono [of 0 e] year_of_era_mono [of e 146096] assms by auto
qed

lemma year_length: "days_before (y + 1) \<le> days_before y + 366"
proof -
  have "y div 100 \<le> (y + 1) div 100"
    by (simp add: zdiv_mono1)
  moreover have "(y + 1) div 4 \<le> y div 4 + 1"
    by linarith
  ultimately show ?thesis
    unfolding days_before_def by simp
qed

lemma day_of_year_range:
  assumes e: "0 \<le> e" "e < 146097"
  shows "days_before (year_of_era e) \<le> e" "e \<le> days_before (year_of_era e) + 365"
proof -
  let ?y = "year_of_era e"
  note y = year_of_era_range [OF e]
  show "days_before ?y \<le> e"
  proof (rule ccontr)
    assume "\<not> ?thesis"
    then have less: "e \<le> days_before ?y - 1" by simp
    have "?y \<noteq> 0" using less e(1) by (auto simp: days_before_def)
    then have "year_of_era (days_before ?y - 1) = ?y - 1"
      using years_table [THEN bspec, of "?y - 1"] y by simp
    then show False using year_of_era_mono [OF less] by simp
  qed
  show "e \<le> days_before ?y + 365"
  proof (cases "?y = 399")
    case True
    then show ?thesis using e by (simp add: days_before_def)
  next
    case False
    have "e < days_before (?y + 1)"
    proof (rule ccontr)
      assume "\<not> ?thesis"
      then have more: "days_before (?y + 1) \<le> e" by simp
      have "year_of_era (days_before (?y + 1)) = ?y + 1"
        using years_table [THEN bspec, of "?y + 1"] y False by simp
      then show False using year_of_era_mono [OF more] by simp
    qed
    moreover have "days_before (?y + 1) \<le> days_before ?y + 366"
      by (rule year_length)
    ultimately show ?thesis by simp
  qed
qed

lemma day_of_month_range:
  assumes "0 \<le> doy" "doy \<le> 365"
  shows "0 \<le> (5 * doy + 2) div 153" "(5 * doy + 2) div 153 \<le> (11 :: int)"
    "1 \<le> doy - (153 * ((5 * doy + 2) div 153) + 2) div 5 + 1"
    "doy - (153 * ((5 * doy + 2) div 153) + 2) div 5 + 1 \<le> (31 :: int)"
  using assms by linarith+

lemma civil_of_day:
  assumes "civil_from_days days = (y, m, d)"
  shows "days_from_civil y m d = days" "1 \<le> m" "m \<le> 12" "1 \<le> d" "d \<le> 31"
    "400 * ((days + 719468) div 146097) \<le> y" "y \<le> 400 * ((days + 719468) div 146097) + 400"
proof -
  define era where "era = (days + 719468) div 146097"
  define e where "e = (days + 719468) mod 146097"
  define yoe where "yoe = year_of_era e"
  define doy where "doy = e - (365 * yoe + yoe div 4 - yoe div 100)"
  define mp where "mp = (5 * doy + 2) div 153"
  have e: "0 \<le> e" "e < 146097" by (simp_all add: e_def)
  note yoe = year_of_era_range [OF e, folded yoe_def]
  have doy: "0 \<le> doy" "doy \<le> 365"
    using day_of_year_range [OF e, folded yoe_def] by (simp_all add: doy_def days_before_def)
  note mp = day_of_month_range [OF doy, folded mp_def]
  have ymd: "y = yoe + era * 400 + (if m \<le> 2 then 1 else 0)" "m = (if mp < 10 then mp + 3 else mp - 9)"
    "d = doy - (153 * mp + 2) div 5 + 1"
    using assms [unfolded civil_from_days_def Let_def, folded era_def e_def, folded yoe_def,
        folded doy_def, folded mp_def]
    by auto
  show "1 \<le> m" "m \<le> 12" "1 \<le> d" "d \<le> 31"
    using mp by (auto simp: ymd(2,3))
  show "400 * ((days + 719468) div 146097) \<le> y" "y \<le> 400 * ((days + 719468) div 146097) + 400"
    using yoe by (auto simp: ymd(1) simp flip: era_def)
  have era': "(yoe + era * 400) div 400 = era" "(yoe + era * 400) mod 400 = yoe"
    using yoe by (simp_all add: div_pos_pos_trivial)
  have mp': "(if 2 < m then m - 3 else m + 9) = mp"
    using mp by (auto simp: ymd(2))
  have y': "(if m \<le> 2 then y - 1 else y) = yoe + era * 400"
    by (simp add: ymd(1))
  have "days_from_civil y m d = era * 146097 + e - 719468"
    unfolding days_from_civil_def Let_def y' mp' era' ymd(3) by (simp add: doy_def)
  also have "\<dots> = days"
    by (simp add: era_def e_def)
  finally show "days_from_civil y m d = days" .
qed

lemma seconds_of_day:
  fixes s :: int
  shows "s div 3600 * 3600 + s div 60 mod 60 * 60 + s mod 60 = s"
proof -
  have scaled: "d * 3600 + m * 60 + r = s" if "d * 60 + m = q" "q * 60 + r = s" for d m q r
    using that by simp
  have "s div 3600 = s div 60 div 60"
    by (simp add: zdiv_zmult2_eq [symmetric])
  then have "s div 3600 * 60 + s div 60 mod 60 = s div 60"
    by simp
  then show ?thesis
    by (rule scaled) (rule div_mult_mod_eq)
qed

lemma timegm_gmtime: "timegm (gmtime t) = t"
proof -
  obtain y m d where c: "civil_from_days (t div 86400) = (y, m, d)"
    by (cases "civil_from_days (t div 86400)") auto
  have "timegm (gmtime t) = t div 86400 * 86400 +
      (t mod 86400 div 3600 * 3600 + t mod 86400 div 60 mod 60 * 60 + t mod 86400 mod 60)"
    by (simp add: timegm_def gmtime_def c civil_of_day(1) [OF c] Let_def del: mod_mod_cancel minus_mod_eq_mult_div)
  then show ?thesis
    unfolding seconds_of_day by simp
qed

section \<open>Reading what was written\<close>

definition calendar_tm :: "tm \<Rightarrow> bool" where
  "calendar_tm t \<longleftrightarrow>
     - 900 \<le> tm_year t \<and> tm_year t \<le> 8099 \<and> 0 \<le> tm_mon t \<and> tm_mon t \<le> 11 \<and>
     1 \<le> tm_mday t \<and> tm_mday t \<le> 31 \<and> 0 \<le> tm_hour t \<and> tm_hour t \<le> 23 \<and>
     0 \<le> tm_min t \<and> tm_min t \<le> 59 \<and> 0 \<le> tm_sec t \<and> tm_sec t \<le> 60"

lemma number_field_digits:
  assumes "length ds = len" "ds \<noteq> []" "\<And>c. c \<in> set ds \<Longrightarrow> digit c" "int (digits_value 0 ds) = v"
    "lo \<le> v" "v \<le> hi"
  shows "number_field len lo hi (ds @ s) = Some (v, s)"
proof -
  have "takeWhile digit (take len (ds @ s)) = ds"
    using assms(1,3) by (simp add: takeWhile_eq_all_conv)
  then show ?thesis
    using assms(2,4-6) by (simp add: number_field_def Let_def)
qed

lemma two_digits_field:
  assumes "0 \<le> v" "v \<le> 99" "lo \<le> v" "v \<le> hi"
  shows "number_field 2 lo hi (two_digits v @ s) = Some (v, s)"
proof (rule number_field_digits)
  have small: "nat v < 100" using assms by linarith
  have zero: "digit (CHR ''0'')" by (simp add: digit_def)
  show "length (two_digits v) = 2"
    using assms small
    by (auto simp: two_digits_def to_string_def nat_digits.simps [of "nat v"] nat_digits.simps [of "nat v div 10"])
  then show "two_digits v \<noteq> []" by auto
  show "digit c" if "c \<in> set (two_digits v)" for c
    using that assms zero by (auto simp: two_digits_def to_string_def split: if_splits dest: digits_are_digits)
  show "int (digits_value 0 (two_digits v)) = v"
    using assms by (simp add: two_digits_def to_string_def)
qed (use assms in auto)

lemma year_field:
  assumes "1000 \<le> v" "v \<le> 9999"
  shows "number_field 4 0 9999 (to_string v @ s) = Some (v, s)"
proof (rule number_field_digits)
  have small: "1000 \<le> nat v" "nat v < 10000" using assms by linarith+
  have four: "length (nat_digits n) = 4" if "1000 \<le> n" "n < 10000" for n
    using that
    by (simp add: nat_digits.simps [of n] nat_digits.simps [of "n div 10"] nat_digits.simps [of "n div 10 div 10"]
        nat_digits.simps [of "n div 10 div 10 div 10"] del: div_mult2_eq [symmetric]) linarith
  show "length (to_string v) = 4"
    using assms four [OF small] by (simp add: to_string_def)
  then show "to_string v \<noteq> []" by auto
  show "digit c" if "c \<in> set (to_string v)" for c
    using that assms by (auto simp: to_string_def dest: digits_are_digits)
  show "int (digits_value 0 (to_string v)) = v"
    using assms by (simp add: to_string_def)
qed (use assms in auto)

lemma digits_no_space: "v \<ge> 0 \<Longrightarrow> dropWhile space_char (to_string v @ s) = to_string v @ s"
  "v \<ge> 0 \<Longrightarrow> dropWhile space_char (two_digits v @ s) = two_digits v @ s"
proof -
  have no_space: "\<not> space_char c" if "digit c" for c
    using that by (auto simp: digit_def space_char_def)
  have head: "dropWhile space_char (nat_digits n @ s) = nat_digits n @ s" for n
  proof -
    obtain c cs where "nat_digits n = c # cs"
      by (cases "nat_digits n") (auto simp: nat_digits.simps [of n] split: if_splits)
    then show ?thesis using no_space digits_are_digits [of c n] by simp
  qed
  show "v \<ge> 0 \<Longrightarrow> dropWhile space_char (to_string v @ s) = to_string v @ s"
    by (simp add: to_string_def head)
  show "v \<ge> 0 \<Longrightarrow> dropWhile space_char (two_digits v @ s) = two_digits v @ s"
    by (simp add: two_digits_def to_string_def head) (simp add: space_char_def)
qed

lemma read_field_some:
  "number_field len lo hi s = Some (v, s') \<Longrightarrow> read_field len lo hi store (t, Some s) = (store v t, Some s')"
  by (simp add: read_field_def)

lemma read_char_some: "read_char c (t, Some (c # s)) = (t, Some s)"
  by (simp add: read_char_def)

lemma get_put_time:
  assumes "calendar_tm t"
  shows "get_time (put_time t) = t"
proof -
  note t = assms [unfolded calendar_tm_def]
  have y: "number_field 4 0 9999 (to_string (tm_year t + 1900) @ s) = Some (tm_year t + 1900, s)" for s
    by (rule year_field) (use t in auto)
  have fields: "number_field 2 1 12 (two_digits (tm_mon t + 1) @ s) = Some (tm_mon t + 1, s)"
    "number_field 2 1 31 (two_digits (tm_mday t) @ s) = Some (tm_mday t, s)"
    "number_field 2 0 23 (two_digits (tm_hour t) @ s) = Some (tm_hour t, s)"
    "number_field 2 0 59 (two_digits (tm_min t) @ s) = Some (tm_min t, s)"
    "number_field 2 0 60 (two_digits (tm_sec t) @ s) = Some (tm_sec t, s)" for s
    by (rule two_digits_field; use t in auto)+
  have last: "number_field 2 0 60 (two_digits (tm_sec t)) = Some (tm_sec t, [])"
    using fields(5) [of "[]"] by simp
  have spaces: "dropWhile space_char (to_string (tm_year t + 1900) @ s) = to_string (tm_year t + 1900) @ s"
    "dropWhile space_char (two_digits (tm_hour t) @ s) = two_digits (tm_hour t) @ s" for s
    using t by (simp_all add: digits_no_space)
  have space: "space_char (CHR '' '')"
    by (simp add: space_char_def)
  show ?thesis
    unfolding get_time_def put_time_def Let_def
    by (simp add: read_spaces_def space spaces read_field_some [OF y] read_field_some [OF fields(1)]
        read_field_some [OF fields(2)] read_field_some [OF fields(3)] read_field_some [OF fields(4)]
        read_field_some [OF last] read_char_some)
qed

lemma gmtime_calendar:
  assumes "- 9223372037 \<le> t" "t \<le> 9223372037"
  shows "calendar_tm (gmtime t)"
proof -
  obtain y m d where c: "civil_from_days (t div 86400) = (y, m, d)"
    by (cases "civil_from_days (t div 86400)") auto
  have "4 \<le> (t div 86400 + 719468) div 146097" "(t div 86400 + 719468) div 146097 \<le> 5"
    using assms by linarith+
  then have "1600 \<le> y" "y \<le> 2400"
    using civil_of_day(6,7) [OF c] by linarith+
  moreover have "0 \<le> t mod 86400 div 3600" "t mod 86400 div 3600 \<le> 23"
    by linarith+
  moreover have "0 \<le> x mod 60" "x mod 60 \<le> 59" "x mod 60 \<le> 60" for x :: int
    by linarith+
  ultimately show ?thesis
    using civil_of_day(2-5) [OF c]
    unfolding calendar_tm_def gmtime_def c by (simp add: Let_def)
qed

lemma seconds_range: "- 9223372037 \<le> sint (ts :: i64) sdiv 1000000000" "sint ts sdiv 1000000000 \<le> 9223372037"
proof -
  have s: "- 9223372036854775808 \<le> sint ts" "sint ts < 9223372036854775808"
    using sint_ge [of ts] sint_lt [of ts] by simp_all
  then show "- 9223372037 \<le> sint ts sdiv 1000000000" "sint ts sdiv 1000000000 \<le> 9223372037"
    by (auto simp: signed_divide_int_def sgn_if abs_if split: if_splits; linarith)+
qed

text \<open>
  C32: A time stamp that the repositories write and read back comes out whole seconds long and moved by the
  offset of the server's time zone: it is formatted with \<open>gmtime\<close>, in UTC, and parsed with \<open>mktime\<close>, in local
  time (\<open>mktime t = timegm t - offset\<close>). Only in UTC is it the second that was written.
\<close>

theorem timestamps_shift:
  assumes "\<And>t. mktime t = timegm t - offset"
  shows "parse_timestamp mktime (format_timestamp ts) =
    word_of_int ((sint ts sdiv 1000000000 - offset) * 1000000000)"
  by (simp add: parse_timestamp_def format_timestamp_def assms get_put_time gmtime_calendar seconds_range
      timegm_gmtime)

lemma timestamps_shift_witness:
  "parse_timestamp (\<lambda>t. timegm t - 3600) (format_timestamp 7200000000001) = 3600000000000"
  using timestamps_shift [of "\<lambda>t. timegm t - 3600" 3600 7200000000001] by simp

end
