(* ===== verification/Database.thy ===== *)
theory Database
  imports Calendar Json_Lib
begin

text \<open>
  The PostgreSQL connections (\<open>server/src/postgres_db_manager.cpp\<close>) and the operations of
  \<open>libpqxx\<close> that the repositories call. The library and the database behind it are not part of
  the repository: they are the argument \<open>'d pg_ops\<close>, over a type \<open>'d\<close> of database states.
\<close>

datatype pg_value = PInt i32 | PText string | PBool bool

record pg_result =
  pg_columns :: "string list"
  pg_rows :: "string option list list"
  affected_rows :: nat

text \<open>
  \<open>exec_params d sql values\<close> opens a transaction in state \<open>d\<close> and runs the statement; its
  result comes with the tentative state. \<open>commit_txn d d'\<close> commits the tentative state \<open>d'\<close>;
  \<open>abort_txn d d'\<close> is the state after the transaction object is destroyed without a commit.
\<close>

record 'd pg_ops =
  exec_params :: "'d \<Rightarrow> string \<Rightarrow> pg_value list \<Rightarrow> (exn + pg_result) \<times> 'd"
  commit_txn :: "'d \<Rightarrow> 'd \<Rightarrow> (exn + unit) \<times> 'd"
  abort_txn :: "'d \<Rightarrow> 'd \<Rightarrow> 'd"
  pg_int :: "string \<Rightarrow> exn + i32"
  pg_bool :: "string \<Rightarrow> exn + bool"
  pg_connect :: "string \<Rightarrow> exn + 'd"

section \<open>Connections\<close>

type_synonym 'd connections = "string \<Rightarrow> 'd option"

definition add_connection ::
    "'d pg_ops \<Rightarrow> string \<Rightarrow> string \<Rightarrow> 'd connections \<Rightarrow> exn + 'd connections" where
  "add_connection P name connection_string m =
     rbind (pg_connect P connection_string) (\<lambda>d. Inr (m(name \<mapsto> d)))"

text \<open>An unknown name is logged, and then the end iterator is dereferenced.\<close>

definition get_connection :: "string \<Rightarrow> 'd connections \<Rightarrow> exn + 'd" where
  "get_connection name m =
     (case m name of Some d \<Rightarrow> Inr d
      | None \<Rightarrow> Inl (Undefined_behaviour ''end iterator dereferenced''))"

text \<open>An operation on the connection of a repository.\<close>

definition with_connection ::
    "string \<Rightarrow> ('d \<Rightarrow> (exn + 'a) \<times> 'd) \<Rightarrow> 'd connections \<Rightarrow> (exn + 'a) \<times> 'd connections" where
  "with_connection name f m =
     (case get_connection name m of
        Inl e \<Rightarrow> (Inl e, m)
      | Inr d \<Rightarrow> (let (r, d') = f d in (r, m(name \<mapsto> d'))))"

section \<open>Transactions\<close>

text \<open>
  One statement in one transaction. The continuation says what to return and whether the code
  reaches \<open>commit\<close> before returning.
\<close>

definition run_txn ::
    "'d pg_ops \<Rightarrow> 'd \<Rightarrow> string \<Rightarrow> pg_value list \<Rightarrow> (pg_result \<Rightarrow> exn + 'a \<times> bool) \<Rightarrow> (exn + 'a) \<times> 'd" where
  "run_txn P d sql vs k =
     (case exec_params P d sql vs of
        (Inl e, d') \<Rightarrow> (Inl e, abort_txn P d d')
      | (Inr r, d') \<Rightarrow>
          (case k r of
             Inl e \<Rightarrow> (Inl e, abort_txn P d d')
           | Inr (x, False) \<Rightarrow> (Inr x, abort_txn P d d')
           | Inr (x, True) \<Rightarrow>
               (case commit_txn P d d' of
                  (Inl e, d'') \<Rightarrow> (Inl e, d'')
                | (Inr _, d'') \<Rightarrow> (Inr x, d''))))"

text \<open>The other order: commit directly after the statement, then look at the result.\<close>

definition run_committed ::
    "'d pg_ops \<Rightarrow> 'd \<Rightarrow> string \<Rightarrow> pg_value list \<Rightarrow> (pg_result \<Rightarrow> exn + 'a) \<Rightarrow> (exn + 'a) \<times> 'd" where
  "run_committed P d sql vs k =
     (case exec_params P d sql vs of
        (Inl e, d') \<Rightarrow> (Inl e, abort_txn P d d')
      | (Inr r, d') \<Rightarrow>
          (case commit_txn P d d' of
             (Inl e, d'') \<Rightarrow> (Inl e, d'')
           | (Inr _, d'') \<Rightarrow> (k r, d'')))"

section \<open>Reading a result\<close>

definition cell :: "pg_result \<Rightarrow> nat \<Rightarrow> exn + string option" where
  "cell r c =
     (case pg_rows r of
        [] \<Rightarrow> Inl (Undefined_behaviour ''row out of range'')
      | row # _ \<Rightarrow>
          (if c < length row then Inr (row ! c) else Inl (Undefined_behaviour ''column out of range'')))"

text \<open>A null field cannot be converted.\<close>

definition as_string :: "string option \<Rightarrow> exn + string" where
  "as_string v = (case v of Some s \<Rightarrow> Inr s | None \<Rightarrow> Inl (Library_error ''conversion of null''))"

definition cell_string :: "pg_result \<Rightarrow> nat \<Rightarrow> exn + string" where
  "cell_string r c = rbind (cell r c) as_string"

definition cell_int :: "'d pg_ops \<Rightarrow> pg_result \<Rightarrow> nat \<Rightarrow> exn + i32" where
  "cell_int P r c = rbind (cell_string r c) (pg_int P)"

text \<open>Access by column name; an unknown column raises an exception of the library.\<close>

fun column_index :: "string \<Rightarrow> string list \<Rightarrow> nat option" where
  "column_index name [] = None"
| "column_index name (c # cs) =
     (if c = name then Some 0 else (case column_index name cs of None \<Rightarrow> None | Some i \<Rightarrow> Some (Suc i)))"

definition named_cell :: "pg_result \<Rightarrow> string \<Rightarrow> exn + string option" where
  "named_cell r name =
     (case column_index name (pg_columns r) of
        None \<Rightarrow> Inl (Library_error ''unknown column'')
      | Some i \<Rightarrow> cell r i)"

lemma with_connection_Some [simp]:
  "m name = Some d \<Longrightarrow> with_connection name f m = (fst (f d), m(name \<mapsto> snd (f d)))"
  by (simp add: with_connection_def get_connection_def split: prod.splits)

end
