(* ===== verification/User_Repo.thy ===== *)
theory User_Repo
  imports Database Entities User_Keys
begin

text \<open>
  \<open>server/src/user_metadata_repository.cpp\<close>: the repository of users and of their public keys.
  Every operation runs one statement and turns every exception into a value.
\<close>

section \<open>Results as json\<close>

definition users_result_to_json :: "'d pg_ops \<Rightarrow> 'j json_ops \<Rightarrow> pg_result \<Rightarrow> exn + 'j" where
  "users_result_to_json P J r =
     rbind (cell_int P r 0) (\<lambda>i.
       rbind (cell_string r 1) (\<lambda>nick.
         rbind (cell_string r 2) (\<lambda>pass.
           rbind (cell_string r 3) (\<lambda>registered.
             rbind (cell_string r 4) (\<lambda>last_online.
               rbind (cell_string r 5) (\<lambda>is_online.
                 Inr (put_bool J ''online'' (is_online = ''t'')
                   (put_string J ''last_online_timestamp'' last_online
                     (put_string J ''registered_timestamp'' registered
                       (put_string J ''password'' pass
                         (put_string J ''nickname'' nick
                           (put_int J ''id'' i (null_json J)))))))))))))"

definition crypto_keys_result_to_json :: "'d pg_ops \<Rightarrow> 'j json_ops \<Rightarrow> pg_result \<Rightarrow> exn + 'j" where
  "crypto_keys_result_to_json P J r =
     rbind (cell_int P r 0) (\<lambda>i.
       rbind (cell_int P r 1) (\<lambda>user.
         rbind (cell_string r 2) (\<lambda>dsa_key.
           rbind (cell_string r 3) (\<lambda>el_gamal_key.
             rbind (cell_string r 4) (\<lambda>created.
               Inr (put_string J ''created_timestamp'' created
                 (put_string J ''el_gamal_public_key'' el_gamal_key
                   (put_string J ''dsa_public_key'' dsa_key
                     (put_int J ''user_id'' user
                       (put_int J ''id'' i (null_json J)))))))))))"

definition construct_user :: "'j json_ops \<Rightarrow> 'j \<Rightarrow> exn + user" where
  "construct_user J j = user_from_json J j"

definition construct_user_crypto_keys :: "'j json_ops \<Rightarrow> hex_ops \<Rightarrow> 'j \<Rightarrow> exn + user_keys" where
  "construct_user_crypto_keys J H j =
     rbind (rbind (read_string J j ''dsa_public_key'') (hex_to_cpp_int H)) (\<lambda>dsa_key.
       rbind (rbind (read_string J j ''el_gamal_public_key'') (hex_to_cpp_int H)) (\<lambda>el_gamal_key.
         Inr (user_keys_new dsa_key el_gamal_key (-1))))"

section \<open>Statements\<close>

definition insert_user_sql :: string where
  "insert_user_sql =
     ''INSERT INTO users (nickname, password, registered_timestamp, last_online_timestamp, is_online) '' @
     ''VALUES ($1, $2, $3, $4, $5) RETURNING id''"

definition select_user_sql :: string where
  "select_user_sql = ''SELECT * FROM USERS WHERE id = $1''"

definition update_user_sql :: string where
  "update_user_sql =
     ''UPDATE users SET nickname = $1, password = $2, registered_timestamp = $3, '' @
     ''last_online_timestamp = $4, is_online = $5 WHERE id = $6''"

definition delete_user_sql :: string where
  "delete_user_sql = ''DELETE FROM users WHERE id = $1''"

definition authorize_sql :: string where
  "authorize_sql = ''SELECT * FROM users WHERE id = $1 AND nickname = $2''"

definition select_nickname_sql :: string where
  "select_nickname_sql = ''SELECT * FROM users WHERE nickname = $1''"

definition insert_keys_sql :: string where
  "insert_keys_sql =
     ''INSERT INTO crypto_keys (user_id, el_gamal_public_key, dsa_public_key, created_timestamp) '' @
     ''VALUES ($1, $2, $3, $4) RETURNING id''"

definition select_keys_sql :: string where
  "select_keys_sql = ''SELECT *  FROM CRYPTO_KEYS WHERE user_id = $1''"

definition user_values :: "user \<Rightarrow> pg_value list" where
  "user_values u =
     [PText (user_get_nickname u), PText (user_get_password u),
      PText (format_timestamp (user_get_registered_timestamp u)),
      PText (format_timestamp (user_get_last_online_timestamp u)), PBool (user_is_online u)]"

section \<open>Operations\<close>

definition user_create :: "'d pg_ops \<Rightarrow> user \<Rightarrow> 'd \<Rightarrow> (exn + i32) \<times> 'd" where
  "user_create P u d =
     or_else (run_txn P d insert_user_sql (user_values u)
       (\<lambda>r. if pg_rows r = [] then Inr (0, False)
         else rbind (cell_int P r 0) (\<lambda>i. Inr (i, True)))) 0"

definition user_read :: "'d pg_ops \<Rightarrow> 'j json_ops \<Rightarrow> i32 \<Rightarrow> 'd \<Rightarrow> (exn + user option) \<times> 'd" where
  "user_read P J i d =
     or_else (run_txn P d select_user_sql [PInt i]
       (\<lambda>r. if pg_rows r = [] then Inr (None, False)
         else rbind (users_result_to_json P J r) (\<lambda>j.
           rbind (dump_json J j) (\<lambda>_.
             rbind (catch_std (rbind (construct_user J j) (\<lambda>u. Inr (Some u))) (\<lambda>_. Inr None)) (\<lambda>u.
               Inr (u, False)))))) None"

definition user_update :: "'d pg_ops \<Rightarrow> user \<Rightarrow> 'd \<Rightarrow> (exn + bool) \<times> 'd" where
  "user_update P u d =
     or_else (run_txn P d update_user_sql (user_values u @ [PInt (user_get_id u)])
       (\<lambda>r. if affected_rows r = 0 then Inr (False, False) else Inr (True, True))) False"

definition user_remove :: "'d pg_ops \<Rightarrow> i32 \<Rightarrow> 'd \<Rightarrow> (exn + bool) \<times> 'd" where
  "user_remove P i d =
     or_else (run_txn P d delete_user_sql [PInt i]
       (\<lambda>r. if affected_rows r = 0 then Inr (False, False) else Inr (True, True))) False"

definition user_authorize ::
    "'d pg_ops \<Rightarrow> 'j json_ops \<Rightarrow> i32 \<Rightarrow> string \<Rightarrow> string \<Rightarrow> 'd \<Rightarrow> (exn + bool) \<times> 'd" where
  "user_authorize P J i nick pass d =
     or_else (run_txn P d authorize_sql [PInt i, PText nick]
       (\<lambda>r. if pg_rows r = [] then Inr (False, False)
         else rbind (users_result_to_json P J r) (\<lambda>_.
           rbind (cell_string r 2) (\<lambda>stored. Inr (pass = stored, False))))) False"

definition user_get_id_of ::
    "'d pg_ops \<Rightarrow> 'j json_ops \<Rightarrow> string \<Rightarrow> 'd \<Rightarrow> (exn + i32) \<times> 'd" where
  "user_get_id_of P J nick d =
     or_else (run_txn P d select_nickname_sql [PText nick]
       (\<lambda>r. if pg_rows r = [] then Inr (0, False)
         else rbind (users_result_to_json P J r) (\<lambda>_.
           rbind (cell_int P r 0) (\<lambda>i. Inr (i, False))))) 0"

text \<open>The id of the inserted row is returned as a \<open>bool\<close>.\<close>

definition user_set_public_keys ::
    "'d pg_ops \<Rightarrow> timestamp \<Rightarrow> i32 \<Rightarrow> string \<Rightarrow> string \<Rightarrow> 'd \<Rightarrow> (exn + bool) \<times> 'd" where
  "user_set_public_keys P now i el_gamal_key dsa_key d =
     or_else (run_txn P d insert_keys_sql
         [PInt i, PText el_gamal_key, PText dsa_key, PText (format_timestamp now)]
       (\<lambda>r. if pg_rows r = [] then Inr (False, False)
         else rbind (cell_int P r 0) (\<lambda>row_id. Inr (row_id \<noteq> 0, True)))) False"

definition user_get_public_keys ::
    "'d pg_ops \<Rightarrow> 'j json_ops \<Rightarrow> hex_ops \<Rightarrow> i32 \<Rightarrow> 'd \<Rightarrow> (exn + user_keys option) \<times> 'd" where
  "user_get_public_keys P J H i d =
     or_else (run_txn P d select_keys_sql [PInt i]
       (\<lambda>r. if pg_rows r = [] then Inr (None, False)
         else rbind (crypto_keys_result_to_json P J r) (\<lambda>j.
           rbind (dump_json J j) (\<lambda>_.
             rbind (catch_std (rbind (construct_user_crypto_keys J H j) (\<lambda>u. Inr (Some u))) (\<lambda>_. Inr None))
               (\<lambda>u. Inr (u, False)))))) None"

section \<open>What the database promises\<close>

text \<open>
  The two tables as lists of rows, in the columns of \<open>database/user_metadata.sql\<close>; the texts of
  the time stamps are what the database prints. \<open>pg_user_laws P users keys\<close> states the effect
  of each statement when it succeeds; any statement may fail.
\<close>

record user_row =
  row_id :: i32
  row_nickname :: string
  row_password :: string
  row_registered :: string
  row_last_online :: string
  row_online :: bool

record keys_row =
  keys_id :: i32
  keys_user :: i32
  keys_dsa :: string
  keys_el_gamal :: string
  keys_created :: string

definition tables_ok :: "user_row list \<Rightarrow> keys_row list \<Rightarrow> bool" where
  "tables_ok us ks \<longleftrightarrow>
     distinct (map row_id us) \<and> distinct (map row_nickname us) \<and> (\<forall>u \<in> set us. row_id u \<noteq> 0) \<and>
     distinct (map keys_user ks) \<and> (\<forall>k \<in> set ks. keys_id k \<noteq> 0 \<and> keys_user k \<in> row_id ` set us)"

definition prints_int :: "'d pg_ops \<Rightarrow> string option \<Rightarrow> i32 \<Rightarrow> bool" where
  "prints_int P v i \<longleftrightarrow> (\<exists>s. v = Some s \<and> pg_int P s = Inr i)"

definition prints_user :: "'d pg_ops \<Rightarrow> user_row \<Rightarrow> string option list \<Rightarrow> bool" where
  "prints_user P u row \<longleftrightarrow>
     (\<exists>v. prints_int P v (row_id u) \<and>
       row = [v, Some (row_nickname u), Some (row_password u), Some (row_registered u),
         Some (row_last_online u), Some (if row_online u then ''t'' else ''f'')])"

definition prints_keys :: "'d pg_ops \<Rightarrow> keys_row \<Rightarrow> string option list \<Rightarrow> bool" where
  "prints_keys P k row \<longleftrightarrow>
     (\<exists>v w. prints_int P v (keys_id k) \<and> prints_int P w (keys_user k) \<and>
       row = [v, w, Some (keys_dsa k), Some (keys_el_gamal k), Some (keys_created k)])"

definition selects ::
    "'d pg_ops \<Rightarrow> ('d \<Rightarrow> user_row list) \<Rightarrow> string \<Rightarrow> pg_value list \<Rightarrow> (user_row \<Rightarrow> bool) \<Rightarrow> bool" where
  "selects P users sql vs wanted \<longleftrightarrow>
     (\<forall>d r d'. exec_params P d sql vs = (Inr r, d') \<longrightarrow>
       list_all2 (prints_user P) (filter wanted (users d)) (pg_rows r))"

text \<open>
  Aborting keeps the committed tables. A commit that fails has either kept them too or has been
  carried out, both tables alike: the library cannot tell when the connection breaks
  (\<open>pqxx::in_doubt_error\<close>). No failure is undefined behaviour.
\<close>

definition txn_law :: "'d pg_ops \<Rightarrow> ('d \<Rightarrow> user_row list) \<Rightarrow> ('d \<Rightarrow> keys_row list) \<Rightarrow> bool" where
  "txn_law P users keys \<longleftrightarrow>
     (\<forall>d d'. users (abort_txn P d d') = users d \<and> keys (abort_txn P d d') = keys d) \<and>
     (\<forall>d d' e d''. commit_txn P d d' = (Inl e, d'') \<longrightarrow>
        users d'' = users d \<and> keys d'' = keys d \<or> users d'' = users d' \<and> keys d'' = keys d') \<and>
     (\<forall>d d' x d''. commit_txn P d d' = (Inr x, d'') \<longrightarrow> users d'' = users d' \<and> keys d'' = keys d')"

definition no_ub_law :: "'d pg_ops \<Rightarrow> bool" where
  "no_ub_law P \<longleftrightarrow>
     (\<forall>d sql vs s. fst (exec_params P d sql vs) \<noteq> Inl (Undefined_behaviour s)) \<and>
     (\<forall>d d' s. fst (commit_txn P d d') \<noteq> Inl (Undefined_behaviour s)) \<and>
     (\<forall>t s. pg_int P t \<noteq> Inl (Undefined_behaviour s))"

definition insert_user_law ::
    "'d pg_ops \<Rightarrow> ('d \<Rightarrow> user_row list) \<Rightarrow> ('d \<Rightarrow> keys_row list) \<Rightarrow> bool" where
  "insert_user_law P users keys \<longleftrightarrow>
     (\<forall>d nick pass reg seen b r d'.
        exec_params P d insert_user_sql [PText nick, PText pass, PText reg, PText seen, PBool b] = (Inr r, d') \<longrightarrow>
        (\<exists>v i reg' seen'. pg_rows r = [[v]] \<and> prints_int P v i \<and> keys d' = keys d \<and>
          users d' = users d @ [\<lparr>row_id = i, row_nickname = nick, row_password = pass,
            row_registered = reg', row_last_online = seen', row_online = b\<rparr>]))"

definition select_users_law :: "'d pg_ops \<Rightarrow> ('d \<Rightarrow> user_row list) \<Rightarrow> bool" where
  "select_users_law P users \<longleftrightarrow>
     (\<forall>i. selects P users select_user_sql [PInt i] (\<lambda>u. row_id u = i)) \<and>
     (\<forall>i nick. selects P users authorize_sql [PInt i, PText nick] (\<lambda>u. row_id u = i \<and> row_nickname u = nick)) \<and>
     (\<forall>nick. selects P users select_nickname_sql [PText nick] (\<lambda>u. row_nickname u = nick))"

definition insert_keys_law ::
    "'d pg_ops \<Rightarrow> ('d \<Rightarrow> user_row list) \<Rightarrow> ('d \<Rightarrow> keys_row list) \<Rightarrow> bool" where
  "insert_keys_law P users keys \<longleftrightarrow>
     (\<forall>d i el_gamal_key dsa_key t r d'.
        exec_params P d insert_keys_sql [PInt i, PText el_gamal_key, PText dsa_key, PText t] = (Inr r, d') \<longrightarrow>
        (\<exists>v n t'. pg_rows r = [[v]] \<and> prints_int P v n \<and> users d' = users d \<and>
          keys d' = keys d @ [\<lparr>keys_id = n, keys_user = i, keys_dsa = dsa_key,
            keys_el_gamal = el_gamal_key, keys_created = t'\<rparr>]))"

definition select_keys_law :: "'d pg_ops \<Rightarrow> ('d \<Rightarrow> keys_row list) \<Rightarrow> bool" where
  "select_keys_law P keys \<longleftrightarrow>
     (\<forall>d i r d'. exec_params P d select_keys_sql [PInt i] = (Inr r, d') \<longrightarrow>
        list_all2 (prints_keys P) (filter (\<lambda>k. keys_user k = i) (keys d)) (pg_rows r))"

definition delete_user_law ::
    "'d pg_ops \<Rightarrow> ('d \<Rightarrow> user_row list) \<Rightarrow> ('d \<Rightarrow> keys_row list) \<Rightarrow> bool" where
  "delete_user_law P users keys \<longleftrightarrow>
     (\<forall>d i r d'. exec_params P d delete_user_sql [PInt i] = (Inr r, d') \<longrightarrow>
        affected_rows r = length (filter (\<lambda>u. row_id u = i) (users d)) \<and>
        users d' = filter (\<lambda>u. row_id u \<noteq> i) (users d) \<and>
        keys d' = filter (\<lambda>k. keys_user k \<noteq> i) (keys d))"

definition update_user_law ::
    "'d pg_ops \<Rightarrow> ('d \<Rightarrow> user_row list) \<Rightarrow> ('d \<Rightarrow> keys_row list) \<Rightarrow> bool" where
  "update_user_law P users keys \<longleftrightarrow>
     (\<forall>d nick pass reg seen b i r d'.
        exec_params P d update_user_sql [PText nick, PText pass, PText reg, PText seen, PBool b, PInt i] = (Inr r, d') \<longrightarrow>
        affected_rows r = length (filter (\<lambda>u. row_id u = i) (users d)) \<and> keys d' = keys d \<and>
        (\<exists>reg' seen'. users d' = map (\<lambda>u. if row_id u = i
          then \<lparr>row_id = i, row_nickname = nick, row_password = pass, row_registered = reg',
            row_last_online = seen', row_online = b\<rparr> else u) (users d)))"

definition pg_user_laws ::
    "'d pg_ops \<Rightarrow> ('d \<Rightarrow> user_row list) \<Rightarrow> ('d \<Rightarrow> keys_row list) \<Rightarrow> bool" where
  "pg_user_laws P users keys \<longleftrightarrow>
     (\<forall>d. tables_ok (users d) (keys d)) \<and> txn_law P users keys \<and> no_ub_law P \<and>
     insert_user_law P users keys \<and> select_users_law P users \<and> insert_keys_law P users keys \<and>
     select_keys_law P keys \<and> delete_user_law P users keys \<and> update_user_law P users keys"

section \<open>Lemmas\<close>

lemma tables_always: "pg_user_laws P users keys \<Longrightarrow> tables_ok (users d) (keys d)"
  by (simp add: pg_user_laws_def)

lemma law_abort:
  "pg_user_laws P users keys \<Longrightarrow> users (abort_txn P d d') = users d"
  "pg_user_laws P users keys \<Longrightarrow> keys (abort_txn P d d') = keys d"
  by (simp_all add: pg_user_laws_def txn_law_def)

lemma law_commit:
  assumes "pg_user_laws P users keys"
  shows "commit_txn P d d' = (Inl e, d'') \<Longrightarrow>
      users d'' = users d \<and> keys d'' = keys d \<or> users d'' = users d' \<and> keys d'' = keys d'"
    and "commit_txn P d d' = (Inr x, d'') \<Longrightarrow> users d'' = users d' \<and> keys d'' = keys d'"
  using assms unfolding pg_user_laws_def txn_law_def by blast+

lemma law_no_ub:
  assumes "pg_user_laws P users keys"
  shows "commit_txn P d d' = (Inl e, d'') \<Longrightarrow> e \<noteq> Undefined_behaviour s"
    and "exec_params P d sql vs = (Inl e, d') \<Longrightarrow> e \<noteq> Undefined_behaviour s"
  using assms unfolding pg_user_laws_def no_ub_law_def by (metis fst_conv)+

lemma law_insert_user:
  assumes "pg_user_laws P users keys"
    and "exec_params P d insert_user_sql [PText nick, PText pass, PText reg, PText seen, PBool b] = (Inr r, d')"
  shows "\<exists>v i reg' seen'. pg_rows r = [[v]] \<and> prints_int P v i \<and> keys d' = keys d \<and>
      users d' = users d @ [\<lparr>row_id = i, row_nickname = nick, row_password = pass,
        row_registered = reg', row_last_online = seen', row_online = b\<rparr>]"
  using assms unfolding pg_user_laws_def insert_user_law_def by blast

lemma law_selects:
  assumes "pg_user_laws P users keys"
  shows "selects P users select_user_sql [PInt i] (\<lambda>u. row_id u = i)"
    and "selects P users authorize_sql [PInt i, PText nick] (\<lambda>u. row_id u = i \<and> row_nickname u = nick)"
    and "selects P users select_nickname_sql [PText nick] (\<lambda>u. row_nickname u = nick)"
  using assms by (simp_all add: pg_user_laws_def select_users_law_def)

lemma law_insert_keys:
  assumes "pg_user_laws P users keys"
    and "exec_params P d insert_keys_sql [PInt i, PText e, PText s, PText t] = (Inr r, d')"
  shows "\<exists>v n t'. pg_rows r = [[v]] \<and> prints_int P v n \<and> users d' = users d \<and>
      keys d' = keys d @ [\<lparr>keys_id = n, keys_user = i, keys_dsa = s, keys_el_gamal = e, keys_created = t'\<rparr>]"
  using assms unfolding pg_user_laws_def insert_keys_law_def by blast

lemma law_select_keys:
  assumes "pg_user_laws P users keys" "exec_params P d select_keys_sql [PInt i] = (Inr r, d')"
  shows "list_all2 (prints_keys P) (filter (\<lambda>k. keys_user k = i) (keys d)) (pg_rows r)"
  using assms unfolding pg_user_laws_def select_keys_law_def by blast

text \<open>
  One transaction, whatever the database does: it commits and \<open>W\<close> relates the result to the new
  tables; or the tables are as before and \<open>N\<close> holds of the result; or the commit fails with the
  tables changed all the same, and the result is the one for an exception.
\<close>

definition commit_fails :: "'d pg_ops \<Rightarrow> 'd \<Rightarrow> bool" where
  "commit_fails P d \<longleftrightarrow> (\<exists>d1 e d2. commit_txn P d d1 = (Inl e, d2))"

lemma run_txn_outcome:
  assumes laws: "pg_user_laws P users keys"
    and k: "\<And>r d'. exec_params P d sql vs = (Inr r, d') \<Longrightarrow>
      (\<exists>x c. k r = Inr (x, c) \<and> (if c then W x (users d') (keys d') else N x)) \<or>
      (\<exists>e. k r = Inl e \<and> (\<forall>s. e \<noteq> Undefined_behaviour s))"
    and y: "N y"
  shows "\<exists>x d'. or_else (run_txn P d sql vs k) y = (Inr x, d') \<and>
    (W x (users d') (keys d') \<or> N x \<and> users d' = users d \<and> keys d' = keys d \<or>
     x = y \<and> commit_fails P d \<and> (\<exists>x0. W x0 (users d') (keys d')))"
proof (cases "exec_params P d sql vs")
  case (Pair res d')
  show ?thesis
  proof (cases res)
    case (Inl e)
    then have "e \<noteq> Undefined_behaviour s" for s using law_no_ub(2) [OF laws] Pair by blast
    then show ?thesis using Pair Inl y law_abort [OF laws]
      by (auto simp: run_txn_def or_else_def split: exn.splits)
  next
    case (Inr r)
    from k [of r d'] Pair Inr consider e where "k r = Inl e" "\<forall>s. e \<noteq> Undefined_behaviour s"
      | x c where "k r = Inr (x, c)" "if c then W x (users d') (keys d') else N x" by blast
    then show ?thesis
    proof cases
      case 1
      then show ?thesis using Pair Inr y law_abort [OF laws]
        by (auto simp: run_txn_def or_else_def split: exn.splits)
    next
      case x: 2
      obtain res' d'' where com: "commit_txn P d d' = (res', d'')" by fastforce
      show ?thesis
      proof (cases c)
        case False
        then show ?thesis using Pair Inr x law_abort [OF laws] by (auto simp: run_txn_def)
      next
        case True
        show ?thesis
        proof (cases res')
          case (Inl e)
          then have "e \<noteq> Undefined_behaviour s" for s using law_no_ub(1) [OF laws] com by blast
          then have "or_else (run_txn P d sql vs k) y = (Inr y, d'')"
            using Pair \<open>res = Inr r\<close> x True com Inl
            by (auto simp: run_txn_def or_else_def split: exn.splits)
          moreover have "commit_fails P d" using com Inl by (auto simp: commit_fails_def)
          moreover have "users d'' = users d \<and> keys d'' = keys d \<or> users d'' = users d' \<and> keys d'' = keys d'"
            using law_commit(1) [OF laws] com Inl by blast
          moreover have "W x (users d') (keys d')" using x(2) True by simp
          ultimately show ?thesis using y by (intro exI [of _ y] exI [of _ d'']) auto
        next
          case (Inr u)
          then show ?thesis using Pair \<open>res = Inr r\<close> x True com law_commit(2) [OF laws]
            by (auto simp: run_txn_def)
        qed
      qed
    qed
  qed
qed

lemma run_txn_reads:
  assumes "pg_user_laws P users keys"
    and "\<And>r d'. exec_params P d sql vs = (Inr r, d') \<Longrightarrow>
      (\<exists>x. k r = Inr (x, False) \<and> N x) \<or> (\<exists>e. k r = Inl e \<and> (\<forall>s. e \<noteq> Undefined_behaviour s))"
    and "N y"
  shows "\<exists>x d'. or_else (run_txn P d sql vs k) y = (Inr x, d') \<and> N x \<and> users d' = users d \<and> keys d' = keys d"
  using run_txn_outcome [OF assms(1), of d sql vs k "\<lambda>_ _ _. False" N y] assms(2,3) by fastforce

lemma printed_row:
  assumes "prints_user P u row" "pg_rows r = row # rows"
  shows "cell_int P r 0 = Inr (row_id u)" "cell_string r 1 = Inr (row_nickname u)"
    "cell_string r 2 = Inr (row_password u)" "\<exists>j. users_result_to_json P J r = Inr j"
  using assms by (auto simp: prints_user_def prints_int_def cell_int_def cell_string_def cell_def
      as_string_def users_result_to_json_def)

lemma selected:
  assumes "selects P users sql vs wanted" "exec_params P d sql vs = (Inr r, d')"
  shows "(pg_rows r = [] \<and> filter wanted (users d) = []) \<or>
    (\<exists>u us row rows. filter wanted (users d) = u # us \<and> pg_rows r = row # rows \<and> prints_user P u row)"
proof -
  have "list_all2 (prints_user P) (filter wanted (users d)) (pg_rows r)"
    using assms unfolding selects_def by blast
  then show ?thesis by (cases "filter wanted (users d)"; cases "pg_rows r") auto
qed

lemma single_cell:
  "pg_rows r = [[v]] \<Longrightarrow> prints_int P v i \<Longrightarrow> cell_int P r 0 = Inr i"
  by (auto simp: cell_int_def cell_string_def cell_def as_string_def prints_int_def)

lemmas user_getters = user_get_nickname_def user_get_password_def user_get_registered_timestamp_def
  user_get_last_online_timestamp_def user_is_online_def user_get_id_def

text \<open>The row that a user becomes, up to the printed time stamps.\<close>

definition row_of :: "i32 \<Rightarrow> user \<Rightarrow> user_row \<Rightarrow> bool" where
  "row_of i u row \<longleftrightarrow> row_id row = i \<and> row_nickname row = nickname u \<and>
     row_password row = password u \<and> row_online row = online u"

lemma user_create_spec:
  assumes laws: "pg_user_laws P users keys"
  shows "\<exists>i d'. user_create P u d = (Inr i, d') \<and> keys d' = keys d \<and>
    (if i = 0 then users d' = users d \<or>
       commit_fails P d \<and> (\<exists>i0 row. i0 \<noteq> 0 \<and> row_of i0 u row \<and> users d' = users d @ [row])
     else \<exists>row. row_of i u row \<and> users d' = users d @ [row])"
proof -
  let ?W = "\<lambda>i us ks. i \<noteq> 0 \<and> ks = keys d \<and> (\<exists>row. row_of i u row \<and> us = users d @ [row])"
  have "(\<exists>i c. (if pg_rows r = [] then Inr (0, False) else rbind (cell_int P r 0) (\<lambda>i. Inr (i, True))) = Inr (i, c) \<and>
      (if c then ?W i (users d') (keys d') else i = 0)) \<or>
    (\<exists>e. (if pg_rows r = [] then Inr (0, False) else rbind (cell_int P r 0) (\<lambda>i. Inr (i, True))) = Inl e \<and>
      (\<forall>s. e \<noteq> Undefined_behaviour s))"
    if x: "exec_params P d insert_user_sql (user_values u) = (Inr r, d')" for r d'
  proof -
    obtain v i reg seen where ins: "pg_rows r = [[v]]" "prints_int P v i" "keys d' = keys d"
      "users d' = users d @ [\<lparr>row_id = i, row_nickname = nickname u, row_password = password u,
         row_registered = reg, row_last_online = seen, row_online = online u\<rparr>]"
      using law_insert_user [OF laws x [unfolded user_values_def user_getters]] by blast
    have "i \<noteq> 0" using tables_always [OF laws, of d'] ins(4) by (simp add: tables_ok_def)
    then show ?thesis using ins single_cell [OF ins(1,2)] by (auto simp: row_of_def)
  qed
  from run_txn_outcome [where W = ?W and N = "\<lambda>i. i = 0" and y = 0, OF laws this] show ?thesis
    unfolding user_create_def by fastforce
qed

lemma user_authorize_spec:
  assumes laws: "pg_user_laws P users keys"
  shows "\<exists>b d'. user_authorize P J i nick pass d = (Inr b, d') \<and> users d' = users d \<and> keys d' = keys d \<and>
    (b \<longrightarrow> (\<exists>u \<in> set (users d). row_id u = i \<and> row_nickname u = nick \<and> row_password u = pass)) \<and>
    ((\<exists>r d1. exec_params P d authorize_sql [PInt i, PText nick] = (Inr r, d1)) \<longrightarrow>
      b = (\<exists>u \<in> set (users d). row_id u = i \<and> row_nickname u = nick \<and> row_password u = pass))"
proof -
  let ?match = "\<exists>u \<in> set (users d). row_id u = i \<and> row_nickname u = nick \<and> row_password u = pass"
  let ?k = "\<lambda>r. if pg_rows r = [] then Inr (False, False)
         else rbind (users_result_to_json P J r) (\<lambda>_. rbind (cell_string r 2) (\<lambda>stored. Inr (pass = stored, False)))"
  have dist: "distinct (map row_id (users d))" using tables_always [OF laws] by (simp add: tables_ok_def)
  have k: "?k r = Inr (?match, False)" if x: "exec_params P d authorize_sql [PInt i, PText nick] = (Inr r, d')" for r d'
    using selected [OF law_selects(2) [OF laws] x]
  proof (elim disjE exE conjE)
    assume "pg_rows r = []" "filter (\<lambda>u. row_id u = i \<and> row_nickname u = nick) (users d) = []"
    then show ?thesis by (auto simp: filter_empty_conv)
  next
    fix u us row rows
    assume f: "filter (\<lambda>u. row_id u = i \<and> row_nickname u = nick) (users d) = u # us"
      and rows: "pg_rows r = row # rows" and p: "prints_user P u row"
    have u: "u \<in> set (users d)" "row_id u = i" "row_nickname u = nick"
      using arg_cong [OF f, of set] by auto
    have uniq: "u' = u" if "u' \<in> set (users d)" "row_id u' = i" for u'
      using inj_onD [of row_id "set (users d)" u' u] dist that u by (simp add: distinct_map)
    have "?match = (row_password u = pass)" using u uniq by metis
    then show ?thesis using printed_row(1-3) [OF p rows] printed_row(4) [OF p rows, of J] rows by auto
  qed
  show ?thesis
  proof (cases "exec_params P d authorize_sql [PInt i, PText nick]")
    case (Pair res d1)
    have "\<exists>b d'. user_authorize P J i nick pass d = (Inr b, d') \<and>
        ((b \<longrightarrow> ?match) \<and> ((\<exists>r d1. exec_params P d authorize_sql [PInt i, PText nick] = (Inr r, d1)) \<longrightarrow> b = ?match)) \<and>
        users d' = users d \<and> keys d' = keys d"
    proof (cases res)
      case (Inl e)
      then have "e \<noteq> Undefined_behaviour s" for s using law_no_ub(2) [OF laws] Pair by blast
      then show ?thesis using Pair Inl law_abort [OF laws]
        by (auto simp: user_authorize_def run_txn_def or_else_def split: exn.splits)
    next
      case (Inr r)
      then show ?thesis using Pair k [of r d1] law_abort [OF laws]
        by (simp add: user_authorize_def run_txn_def)
    qed
    then show ?thesis by blast
  qed
qed

lemma user_get_id_spec:
  assumes laws: "pg_user_laws P users keys"
  shows "\<exists>i d'. user_get_id_of P J nick d = (Inr i, d') \<and>
    (i \<noteq> 0 \<longrightarrow> (\<exists>u \<in> set (users d). row_id u = i \<and> row_nickname u = nick)) \<and>
    users d' = users d \<and> keys d' = keys d"
  unfolding user_get_id_of_def
proof (rule run_txn_reads [OF laws])
  fix r d'
  assume x: "exec_params P d select_nickname_sql [PText nick] = (Inr r, d')"
  let ?k = "if pg_rows r = [] then Inr (0, False)
         else rbind (users_result_to_json P J r) (\<lambda>_. rbind (cell_int P r 0) (\<lambda>i. Inr (i, False)))"
  show "(\<exists>x. ?k = Inr (x, False) \<and>
      (x \<noteq> 0 \<longrightarrow> (\<exists>u \<in> set (users d). row_id u = x \<and> row_nickname u = nick))) \<or>
      (\<exists>e. ?k = Inl e \<and> (\<forall>s. e \<noteq> Undefined_behaviour s))"
    using selected [OF law_selects(3) [OF laws] x]
  proof (elim disjE exE conjE)
    fix u us row rows
    assume f: "filter (\<lambda>u. row_nickname u = nick) (users d) = u # us"
      and rows: "pg_rows r = row # rows" and p: "prints_user P u row"
    have "u \<in> set (users d)" "row_nickname u = nick" using arg_cong [OF f, of set] by auto
    then show ?thesis using printed_row(1-3) [OF p rows] printed_row(4) [OF p rows, of J] rows by auto
  qed simp
qed simp

lemma user_set_public_keys_spec:
  assumes laws: "pg_user_laws P users keys"
  shows "\<exists>b d'. user_set_public_keys P now i e s d = (Inr b, d') \<and>
    ((b \<and> users d' = users d \<and> (\<exists>n t. keys d' = keys d @ [\<lparr>keys_id = n, keys_user = i, keys_dsa = s,
        keys_el_gamal = e, keys_created = t\<rparr>])) \<or>
     \<not> b \<and> users d' = users d \<and> (keys d' = keys d \<or> commit_fails P d \<and>
       (\<exists>n t. keys d' = keys d @ [\<lparr>keys_id = n, keys_user = i, keys_dsa = s, keys_el_gamal = e, keys_created = t\<rparr>])))"
proof -
  let ?W = "\<lambda>b us ks. b \<and> us = users d \<and> (\<exists>n t. ks = keys d @
      [\<lparr>keys_id = n, keys_user = i, keys_dsa = s, keys_el_gamal = e, keys_created = t\<rparr>])"
  have "\<exists>b d'. user_set_public_keys P now i e s d = (Inr b, d') \<and>
    (?W b (users d') (keys d') \<or> \<not> b \<and> users d' = users d \<and> keys d' = keys d \<or>
     b = False \<and> commit_fails P d \<and> (\<exists>b0. ?W b0 (users d') (keys d')))"
  unfolding user_set_public_keys_def
proof (rule run_txn_outcome [OF laws, where W = "\<lambda>b us ks. b \<and> us = users d \<and> (\<exists>n t. ks = keys d @
      [\<lparr>keys_id = n, keys_user = i, keys_dsa = s, keys_el_gamal = e, keys_created = t\<rparr>])"])
  fix r d'
  assume "exec_params P d insert_keys_sql [PInt i, PText e, PText s, PText (format_timestamp now)] = (Inr r, d')"
  from law_insert_keys [OF laws this] obtain v n t where ins: "pg_rows r = [[v]]" "prints_int P v n"
      "users d' = users d" "keys d' = keys d @ [\<lparr>keys_id = n, keys_user = i, keys_dsa = s,
        keys_el_gamal = e, keys_created = t\<rparr>]"
    by blast
  have "n \<noteq> 0" using tables_always [OF laws, of d'] ins(4) by (simp add: tables_ok_def)
  then show "(\<exists>x c. (if pg_rows r = [] then Inr (False, False)
         else rbind (cell_int P r 0) (\<lambda>row_id. Inr (row_id \<noteq> 0, True))) = Inr (x, c) \<and>
      (if c then x \<and> users d' = users d \<and> (\<exists>n t. keys d' = keys d @
        [\<lparr>keys_id = n, keys_user = i, keys_dsa = s, keys_el_gamal = e, keys_created = t\<rparr>]) else \<not> x)) \<or>
      (\<exists>e. (if pg_rows r = [] then Inr (False, False)
         else rbind (cell_int P r 0) (\<lambda>row_id. Inr (row_id \<noteq> 0, True))) = Inl e \<and>
        (\<forall>s. e \<noteq> Undefined_behaviour s))"
    using ins single_cell [OF ins(1,2)] by auto
qed simp
  then show ?thesis by blast
qed

text \<open>The keys that a row holds, if both texts are hexadecimal numbers.\<close>

definition row_keys :: "hex_ops \<Rightarrow> keys_row \<Rightarrow> user_keys option" where
  "row_keys H k =
     (case (hex_to_cpp_int H (keys_dsa k), hex_to_cpp_int H (keys_el_gamal k)) of
        (Inr s, Inr e) \<Rightarrow> Some (user_keys_new s e (-1)) | _ \<Rightarrow> None)"

lemma printed_keys:
  assumes "prints_keys P k row" "pg_rows r = row # rows" "json_laws J" "hex_laws H"
  shows "\<exists>j. crypto_keys_result_to_json P J r = Inr j \<and>
    catch_std (rbind (construct_user_crypto_keys J H j) (\<lambda>u. Inr (Some u))) (\<lambda>_. Inr None) = Inr (row_keys H k)"
proof -
  obtain j where j: "crypto_keys_result_to_json P J r = Inr j" "construct_user_crypto_keys J H j =
      rbind (hex_to_cpp_int H (keys_dsa k)) (\<lambda>s. rbind (hex_to_cpp_int H (keys_el_gamal k)) (\<lambda>e.
        Inr (user_keys_new s e (-1))))"
    using assms(1-3)
    by (auto simp: json_simps prints_keys_def prints_int_def cell_int_def cell_string_def cell_def
        as_string_def crypto_keys_result_to_json_def construct_user_crypto_keys_def json_reads)
  have no_ub: "hex_to_cpp_int H s \<noteq> Inl (Undefined_behaviour m)" for s m
    using assms(4) by (simp add: hex_laws_def)
  have "catch_std (rbind (construct_user_crypto_keys J H j) (\<lambda>u. Inr (Some u))) (\<lambda>_. Inr None) = Inr (row_keys H k)"
    unfolding j(2) row_keys_def using no_ub
    by (cases "hex_to_cpp_int H (keys_dsa k)"; cases "hex_to_cpp_int H (keys_el_gamal k)")
      (auto split: exn.splits)
  with j(1) show ?thesis by blast
qed

lemma user_get_public_keys_spec:
  assumes laws: "pg_user_laws P users keys" "json_laws J" "hex_laws H"
    and dump: "\<And>j s. dump_json J j \<noteq> Inl (Undefined_behaviour s)"
  shows "\<exists>u d'. user_get_public_keys P J H i d = (Inr u, d') \<and>
    (\<forall>x. u = Some x \<longrightarrow> (\<exists>k \<in> set (keys d). keys_user k = i \<and> row_keys H k = Some x)) \<and>
    users d' = users d \<and> keys d' = keys d"
  unfolding user_get_public_keys_def
proof (rule run_txn_reads [OF laws(1)])
  fix r d'
  assume x: "exec_params P d select_keys_sql [PInt i] = (Inr r, d')"
  let ?N = "\<lambda>u. \<forall>x. u = Some x \<longrightarrow> (\<exists>k \<in> set (keys d). keys_user k = i \<and> row_keys H k = Some x)"
  let ?k = "if pg_rows r = [] then Inr (None, False)
         else rbind (crypto_keys_result_to_json P J r) (\<lambda>j.
           rbind (dump_json J j) (\<lambda>_.
             rbind (catch_std (rbind (construct_user_crypto_keys J H j) (\<lambda>u. Inr (Some u))) (\<lambda>_. Inr None))
               (\<lambda>u. Inr (u, False))))"
  have l: "list_all2 (prints_keys P) (filter (\<lambda>k. keys_user k = i) (keys d)) (pg_rows r)"
    by (rule law_select_keys [OF laws(1) x])
  show "(\<exists>u. ?k = Inr (u, False) \<and> ?N u) \<or> (\<exists>e. ?k = Inl e \<and> (\<forall>s. e \<noteq> Undefined_behaviour s))"
  proof (cases "filter (\<lambda>k. keys_user k = i) (keys d)")
    case Nil
    then show ?thesis using l by simp
  next
    case (Cons kr krs)
    obtain row rows where rows: "pg_rows r = row # rows" "prints_keys P kr row"
      using l Cons by (auto simp: list_all2_Cons1)
    have kr: "kr \<in> set (keys d)" "keys_user kr = i" using arg_cong [OF Cons, of set] by auto
    obtain j where j: "crypto_keys_result_to_json P J r = Inr j"
      "catch_std (rbind (construct_user_crypto_keys J H j) (\<lambda>u. Inr (Some u))) (\<lambda>_. Inr None) = Inr (row_keys H kr)"
      using printed_keys [OF rows(2,1) laws(2,3)] by blast
    show ?thesis
    proof (cases "dump_json J j")
      case (Inl e)
      then have "?k = Inl e" using rows(1) j(1) by simp
      then show ?thesis using Inl dump by auto
    next
      case (Inr s)
      then have "?k = Inr (row_keys H kr, False)" using rows(1) j by simp
      then show ?thesis using kr by auto
    qed
  qed
qed simp

lemma law_delete_user:
  assumes "pg_user_laws P users keys" "exec_params P d delete_user_sql [PInt i] = (Inr r, d')"
  shows "affected_rows r = length (filter (\<lambda>u. row_id u = i) (users d)) \<and>
    users d' = filter (\<lambda>u. row_id u \<noteq> i) (users d) \<and> keys d' = filter (\<lambda>k. keys_user k \<noteq> i) (keys d)"
  using assms unfolding pg_user_laws_def delete_user_law_def by blast

lemma law_update_user:
  assumes "pg_user_laws P users keys"
    "exec_params P d update_user_sql [PText nick, PText pass, PText reg, PText seen, PBool b, PInt i] = (Inr r, d')"
  shows "affected_rows r = length (filter (\<lambda>u. row_id u = i) (users d)) \<and> keys d' = keys d \<and>
    (\<exists>reg' seen'. users d' = map (\<lambda>u. if row_id u = i
      then \<lparr>row_id = i, row_nickname = nick, row_password = pass, row_registered = reg',
        row_last_online = seen', row_online = b\<rparr> else u) (users d))"
  using assms unfolding pg_user_laws_def update_user_law_def by blast

lemma user_remove_spec:
  assumes laws: "pg_user_laws P users keys"
  shows "\<exists>b d'. user_remove P i d = (Inr b, d') \<and> (b \<longrightarrow> i \<in> row_id ` set (users d)) \<and>
    ((b \<or> commit_fails P d) \<and> users d' = filter (\<lambda>u. row_id u \<noteq> i) (users d) \<and>
       keys d' = filter (\<lambda>k. keys_user k \<noteq> i) (keys d) \<or>
     \<not> b \<and> users d' = users d \<and> keys d' = keys d)"
proof -
  let ?W = "\<lambda>b us ks. b \<and> i \<in> row_id ` set (users d) \<and>
    us = filter (\<lambda>u. row_id u \<noteq> i) (users d) \<and> ks = filter (\<lambda>k. keys_user k \<noteq> i) (keys d)"
  have "\<exists>b d'. user_remove P i d = (Inr b, d') \<and>
    (?W b (users d') (keys d') \<or> \<not> b \<and> users d' = users d \<and> keys d' = keys d \<or>
     b = False \<and> commit_fails P d \<and> (\<exists>b0. ?W b0 (users d') (keys d')))"
    unfolding user_remove_def
  proof (rule run_txn_outcome [OF laws, where W = ?W])
    fix r d'
    assume "exec_params P d delete_user_sql [PInt i] = (Inr r, d')"
    from law_delete_user [OF laws this]
    show "(\<exists>x c. (if affected_rows r = 0 then Inr (False, False) else Inr (True, True)) = Inr (x, c) \<and>
        (if c then x \<and> i \<in> row_id ` set (users d) \<and> users d' = filter (\<lambda>u. row_id u \<noteq> i) (users d) \<and>
           keys d' = filter (\<lambda>k. keys_user k \<noteq> i) (keys d) else \<not> x)) \<or>
        (\<exists>e. (if affected_rows r = 0 then Inr (False, False) else Inr (True, True)) = Inl e \<and>
          (\<forall>s. e \<noteq> Undefined_behaviour s))"
      by (auto simp: filter_empty_conv)
  qed simp
  then show ?thesis by blast
qed

lemma user_update_spec:
  assumes laws: "pg_user_laws P users keys"
  shows "\<exists>b d'. user_update P u d = (Inr b, d') \<and>
    (b \<longrightarrow> user_id u \<in> row_id ` set (users d)) \<and> keys d' = keys d \<and>
    ((b \<or> commit_fails P d) \<and> (\<exists>row. row_of (user_id u) u row \<and>
         users d' = map (\<lambda>v. if row_id v = user_id u then row else v) (users d)) \<or>
     \<not> b \<and> users d' = users d)"
proof -
  let ?W = "\<lambda>b us ks. b \<and> user_id u \<in> row_id ` set (users d) \<and>
    ks = keys d \<and> (\<exists>row. row_of (user_id u) u row \<and>
      us = map (\<lambda>v. if row_id v = user_id u then row else v) (users d))"
  have "\<exists>b d'. user_update P u d = (Inr b, d') \<and>
    (?W b (users d') (keys d') \<or> \<not> b \<and> users d' = users d \<and> keys d' = keys d \<or>
     b = False \<and> commit_fails P d \<and> (\<exists>b0. ?W b0 (users d') (keys d')))"
  unfolding user_update_def
proof (rule run_txn_outcome [OF laws, where W = ?W])
  fix r d'
  assume x: "exec_params P d update_user_sql (user_values u @ [PInt (user_get_id u)]) = (Inr r, d')"
  then have "exec_params P d update_user_sql [PText (nickname u), PText (password u),
      PText (format_timestamp (registered_timestamp u)), PText (format_timestamp (last_online_timestamp u)),
      PBool (online u), PInt (user_id u)] = (Inr r, d')"
    by (simp add: user_values_def user_getters)
  from law_update_user [OF laws this] obtain reg seen where up:
    "affected_rows r = length (filter (\<lambda>v. row_id v = user_id u) (users d))" "keys d' = keys d"
    "users d' = map (\<lambda>v. if row_id v = user_id u then \<lparr>row_id = user_id u, row_nickname = nickname u,
       row_password = password u, row_registered = reg, row_last_online = seen, row_online = online u\<rparr>
       else v) (users d)"
    by blast
  let ?row = "\<lparr>row_id = user_id u, row_nickname = nickname u, row_password = password u,
    row_registered = reg, row_last_online = seen, row_online = online u\<rparr>"
  have row: "row_of (user_id u) u ?row" by (simp add: row_of_def)
  show "(\<exists>x c. (if affected_rows r = 0 then Inr (False, False) else Inr (True, True)) = Inr (x, c) \<and>
      (if c then x \<and> user_id u \<in> row_id ` set (users d) \<and> keys d' = keys d \<and>
         (\<exists>row. row_of (user_id u) u row \<and> users d' = map (\<lambda>v. if row_id v = user_id u then row else v) (users d))
       else \<not> x)) \<or>
      (\<exists>e. (if affected_rows r = 0 then Inr (False, False) else Inr (True, True)) = Inl e \<and>
        (\<forall>s. e \<noteq> Undefined_behaviour s))"
  proof (cases "affected_rows r = 0")
    case False
    then have "user_id u \<in> row_id ` set (users d)"
      using up(1) by (auto simp: filter_empty_conv intro: rev_image_eqI)
    then show ?thesis using False up(2,3) row
      by (intro disjI1 exI [of _ True]) (simp, intro exI [of _ ?row], simp)
  qed auto
qed simp
  then show ?thesis by blast
qed

section \<open>A database that keeps the laws\<close>

text \<open>
  Two lists of rows and the next id; a user is rejected when its nickname is taken, keys are
  rejected when the user is unknown or has keys. Ids are printed in decimal. The invariant is in
  the type: an inconsistent state is read as the empty one.
\<close>

record tables =
  t_users :: "user_row list"
  t_keys :: "keys_row list"
  t_next :: i32

definition good_users :: "tables \<Rightarrow> user_row list" where
  "good_users d = (if tables_ok (t_users d) (t_keys d) then t_users d else [])"

definition good_keys :: "tables \<Rightarrow> keys_row list" where
  "good_keys d = (if tables_ok (t_users d) (t_keys d) then t_keys d else [])"

definition read_id :: "string \<Rightarrow> exn + i32" where
  "read_id s = Inr (word_of_nat (digits_value 0 s))"

definition print_id :: "i32 \<Rightarrow> string" where
  "print_id i = nat_digits (unat i)"

definition answer :: "string option list list \<Rightarrow> nat \<Rightarrow> exn + pg_result" where
  "answer rows n = Inr \<lparr>pg_columns = [], pg_rows = rows, affected_rows = n\<rparr>"

definition print_user_row :: "user_row \<Rightarrow> string option list" where
  "print_user_row u = [Some (print_id (row_id u)), Some (row_nickname u), Some (row_password u),
     Some (row_registered u), Some (row_last_online u), Some (if row_online u then ''t'' else ''f'')]"

definition print_keys_row :: "keys_row \<Rightarrow> string option list" where
  "print_keys_row k = [Some (print_id (keys_id k)), Some (print_id (keys_user k)),
     Some (keys_dsa k), Some (keys_el_gamal k), Some (keys_created k)]"

text \<open>A changed pair of tables is accepted when it is consistent.\<close>

definition try_tables ::
    "tables \<Rightarrow> user_row list \<Rightarrow> keys_row list \<Rightarrow> exn + pg_result \<Rightarrow> (exn + pg_result) \<times> tables" where
  "try_tables d us ks a =
     (if tables_ok us ks then (a, \<lparr>t_users = us, t_keys = ks, t_next = t_next d + 1\<rparr>)
      else (Inl (Library_error ''constraint''), d))"

fun example_exec :: "tables \<Rightarrow> string \<Rightarrow> pg_value list \<Rightarrow> (exn + pg_result) \<times> tables" where
  "example_exec d sql [PText nick, PText pass, PText reg, PText seen, PBool b] =
     (if sql = insert_user_sql
      then try_tables d (good_users d @ [\<lparr>row_id = t_next d, row_nickname = nick, row_password = pass,
          row_registered = reg, row_last_online = seen, row_online = b\<rparr>]) (good_keys d)
        (answer [[Some (print_id (t_next d))]] 1)
      else (Inl (Library_error ''statement''), d))"
| "example_exec d sql [PText nick, PText pass, PText reg, PText seen, PBool b, PInt i] =
     (if sql = update_user_sql
      then try_tables d (map (\<lambda>u. if row_id u = i then \<lparr>row_id = i, row_nickname = nick, row_password = pass,
          row_registered = reg, row_last_online = seen, row_online = b\<rparr> else u) (good_users d)) (good_keys d)
        (answer [] (length (filter (\<lambda>u. row_id u = i) (good_users d))))
      else (Inl (Library_error ''statement''), d))"
| "example_exec d sql [PInt i, PText e, PText s, PText t] =
     (if sql = insert_keys_sql
      then try_tables d (good_users d) (good_keys d @ [\<lparr>keys_id = t_next d, keys_user = i, keys_dsa = s,
          keys_el_gamal = e, keys_created = t\<rparr>]) (answer [[Some (print_id (t_next d))]] 1)
      else (Inl (Library_error ''statement''), d))"
| "example_exec d sql [PInt i] =
     (if sql = select_user_sql
      then (answer (map print_user_row (filter (\<lambda>u. row_id u = i) (good_users d))) 0, d)
      else if sql = select_keys_sql
      then (answer (map print_keys_row (filter (\<lambda>k. keys_user k = i) (good_keys d))) 0, d)
      else if sql = delete_user_sql
      then try_tables d (filter (\<lambda>u. row_id u \<noteq> i) (good_users d)) (filter (\<lambda>k. keys_user k \<noteq> i) (good_keys d))
        (answer [] (length (filter (\<lambda>u. row_id u = i) (good_users d))))
      else (Inl (Library_error ''statement''), d))"
| "example_exec d sql [PInt i, PText nick] =
     (if sql = authorize_sql
      then (answer (map print_user_row (filter (\<lambda>u. row_id u = i \<and> row_nickname u = nick) (good_users d))) 0, d)
      else (Inl (Library_error ''statement''), d))"
| "example_exec d sql [PText nick] =
     (if sql = select_nickname_sql
      then (answer (map print_user_row (filter (\<lambda>u. row_nickname u = nick) (good_users d))) 0, d)
      else (Inl (Library_error ''statement''), d))"
| "example_exec d sql _ = (Inl (Library_error ''statement''), d)"

definition example_pg :: "tables pg_ops" where
  "example_pg = \<lparr>exec_params = example_exec, commit_txn = (\<lambda>d d'. (Inr (), d')), abort_txn = (\<lambda>d d'. d),
     pg_int = read_id, pg_bool = (\<lambda>s. Inr (s = ''t'')),
     pg_connect = (\<lambda>s. Inr \<lparr>t_users = [], t_keys = [], t_next = 1\<rparr>)\<rparr>"

lemma read_print_id [simp]: "read_id (print_id i) = Inr i"
  by (simp add: read_id_def print_id_def)

lemma good_ok: "tables_ok (good_users d) (good_keys d)"
  by (simp add: good_users_def good_keys_def tables_ok_def)

lemma prints_id [simp]: "prints_int example_pg (Some (print_id i)) i"
  by (simp add: prints_int_def example_pg_def)

lemma prints_rows [simp]:
  "prints_user example_pg u (print_user_row u)" "prints_keys example_pg k (print_keys_row k)"
  by (auto simp: prints_user_def prints_keys_def print_user_row_def print_keys_row_def)

lemma try_tables_Inr:
  "try_tables d us ks a = (Inr r, d') \<Longrightarrow> a = Inr r \<and> good_users d' = us \<and> good_keys d' = ks"
  by (auto simp: try_tables_def good_users_def good_keys_def split: if_splits)

lemma example_pg_fields:
  "exec_params example_pg = example_exec" "commit_txn example_pg = (\<lambda>d d'. (Inr (), d'))"
  "abort_txn example_pg = (\<lambda>d d'. d)" "pg_int example_pg = read_id"
  by (simp_all add: example_pg_def)

lemma answer_Inr [simp]:
  "answer rows n = Inr r \<longleftrightarrow> r = \<lparr>pg_columns = [], pg_rows = rows, affected_rows = n\<rparr>"
  by (auto simp: answer_def)

lemma prints_all_rows [simp]:
  "list_all2 (prints_user example_pg) us (map print_user_row us)"
  "list_all2 (prints_keys example_pg) ks (map print_keys_row ks)"
  by (simp_all add: list_all2_conv_all_nth)

lemma example_no_ub: "fst (example_exec d sql vs) \<noteq> Inl (Undefined_behaviour s)"
  by (cases "(d, sql, vs)" rule: example_exec.cases) (auto simp: try_tables_def answer_def)

lemma sql_distinct [simp]:
  "select_keys_sql \<noteq> select_user_sql" "delete_user_sql \<noteq> select_user_sql"
  "delete_user_sql \<noteq> select_keys_sql"
  by (simp_all add: select_user_sql_def select_keys_sql_def delete_user_sql_def)

lemma example_pg_laws: "pg_user_laws example_pg good_users good_keys"
  unfolding pg_user_laws_def
proof (intro conjI allI good_ok)
  show "txn_law example_pg good_users good_keys"
    by (simp add: txn_law_def example_pg_fields)
  show "no_ub_law example_pg"
    by (simp add: no_ub_law_def example_pg_fields example_no_ub read_id_def)
  show "insert_user_law example_pg good_users good_keys"
    by (auto simp: insert_user_law_def example_pg_fields dest!: try_tables_Inr)
  show "select_users_law example_pg good_users"
    by (auto simp: select_users_law_def selects_def example_pg_fields)
  show "insert_keys_law example_pg good_users good_keys"
    by (auto simp: insert_keys_law_def example_pg_fields dest!: try_tables_Inr)
  show "select_keys_law example_pg good_keys"
    by (auto simp: select_keys_law_def example_pg_fields)
  show "delete_user_law example_pg good_users good_keys"
    by (auto simp: delete_user_law_def example_pg_fields dest!: try_tables_Inr)
  show "update_user_law example_pg good_users good_keys"
    by (auto simp: update_user_law_def example_pg_fields dest!: try_tables_Inr)
qed
section \<open>Properties\<close>

text \<open>
  Whatever the database does within its laws, \<open>create\<close> returns and never throws: the nonzero id of
  a new row with the user's data, which was unused, as was the nickname; or 0, with both tables
  unchanged or, when the commit fails, possibly with such a row all the same. After an id
  \<open>get_id\<close> finds no other id for that nickname, and \<open>authorize\<close> accepts no other password for it.
\<close>

theorem user_create_effect:
  assumes "pg_user_laws P users keys"
  shows "\<exists>i d'. user_create P u d = (Inr i, d') \<and> keys d' = keys d \<and>
    (if i = 0 then users d' = users d \<or>
       commit_fails P d \<and> (\<exists>i0 row. i0 \<noteq> 0 \<and> row_of i0 u row \<and> users d' = users d @ [row])
     else i \<notin> row_id ` set (users d) \<and> nickname u \<notin> row_nickname ` set (users d) \<and>
       (\<exists>row. row_of i u row \<and> users d' = users d @ [row]) \<and>
       fst (user_get_id_of P J (nickname u) d') \<in> {Inr i, Inr 0} \<and>
       (pass \<noteq> password u \<longrightarrow> fst (user_authorize P J i (nickname u) pass d') = Inr False))"
proof -
  obtain i d' where c: "user_create P u d = (Inr i, d')" "keys d' = keys d"
    "if i = 0 then users d' = users d \<or>
       commit_fails P d \<and> (\<exists>i0 row. i0 \<noteq> 0 \<and> row_of i0 u row \<and> users d' = users d @ [row])
     else \<exists>row. row_of i u row \<and> users d' = users d @ [row]"
    using user_create_spec [OF assms, of u d] by blast
  show ?thesis
  proof (cases "i = 0")
    case False
    then obtain row where row: "row_of i u row" "users d' = users d @ [row]" using c(3) by auto
    have ok: "tables_ok (users d') (keys d')" by (rule tables_always [OF assms])
    then have fresh: "i \<notin> row_id ` set (users d)" "nickname u \<notin> row_nickname ` set (users d)"
      using row by (auto simp: tables_ok_def row_of_def)
    have only: "v = row" if "v \<in> set (users d')" "row_nickname v = nickname u" for v
      using that row(2) fresh(2) by (auto intro: rev_image_eqI)
    obtain g d1 where g: "user_get_id_of P J (nickname u) d' = (Inr g, d1)"
      "g \<noteq> 0 \<longrightarrow> (\<exists>v \<in> set (users d'). row_id v = g \<and> row_nickname v = nickname u)"
      using user_get_id_spec [OF assms] by blast
    have "g = 0 \<or> g = i" using g(2) only row(1) by (auto simp: row_of_def)
    moreover obtain b d2 where "user_authorize P J i (nickname u) pass d' = (Inr b, d2)"
      "b \<longrightarrow> (\<exists>v \<in> set (users d'). row_id v = i \<and> row_nickname v = nickname u \<and> row_password v = pass)"
      using user_authorize_spec [OF assms] by blast
    moreover have "\<not> b" if "pass \<noteq> password u"
      using calculation(3) only row(1) that by (auto simp: row_of_def)
    ultimately show ?thesis using c False row fresh g(1) by auto
  qed (intro exI [of _ i] exI [of _ d'], use c in simp)
qed

definition ann :: user where
  "ann = fst (user_new 0 1 ''ann'' ''pw'')"

definition empty_tables :: tables where
  "empty_tables = \<lparr>t_users = [], t_keys = [], t_next = 1\<rparr>"

lemma create_ann:
  "fst (user_create example_pg ann empty_tables) = Inr 1"
  "good_users (snd (user_create example_pg ann empty_tables)) =
     [\<lparr>row_id = 1, row_nickname = ''ann'', row_password = ''pw'', row_registered = format_timestamp 0,
       row_last_online = format_timestamp 0, row_online = True\<rparr>]"
  by (simp_all add: user_create_def run_txn_def example_pg_def user_values_def user_getters ann_def
      user_new_def try_tables_def tables_ok_def good_users_def good_keys_def empty_tables_def answer_def
      cell_int_def cell_string_def cell_def as_string_def del: format_timestamp_def)

theorem user_create_effect_witness:
  "fst (user_create example_pg ann empty_tables) = Inr 1 \<and>
   fst (user_authorize example_pg example_json 1 ''ann'' ''guess''
     (snd (user_create example_pg ann empty_tables))) = Inr False"
proof -
  have n: "nickname ann = ''ann''" "password ann = ''pw''" by (simp_all add: ann_def user_new_def)
  obtain i d' where c: "user_create example_pg ann empty_tables = (Inr i, d')"
    "i \<noteq> 0 \<longrightarrow> fst (user_authorize example_pg example_json i ''ann'' ''guess'' d') = Inr False"
    using user_create_effect [OF example_pg_laws, of ann empty_tables example_json "''guess''"] n
    by (auto split: if_splits)
  have "i = 1" using create_ann(1) c(1) by simp
  then show ?thesis using c by simp
qed

text \<open>
  \<open>authorize\<close> never throws, changes nothing, and answers true only for the stored id,
  nickname and password; when the statement does not fail its answer is exact.
\<close>

theorem user_authorize_exact:
  assumes "pg_user_laws P users keys"
  shows "\<exists>b d'. user_authorize P J i nick pass d = (Inr b, d') \<and> users d' = users d \<and> keys d' = keys d \<and>
    (b \<longrightarrow> (\<exists>u \<in> set (users d). row_id u = i \<and> row_nickname u = nick \<and> row_password u = pass)) \<and>
    ((\<exists>r d1. exec_params P d authorize_sql [PInt i, PText nick] = (Inr r, d1)) \<longrightarrow>
      b = (\<exists>u \<in> set (users d). row_id u = i \<and> row_nickname u = nick \<and> row_password u = pass))"
  by (rule user_authorize_spec [OF assms])

theorem user_authorize_exact_witness:
  "fst (user_authorize example_pg example_json 1 ''ann'' ''pw''
     (snd (user_create example_pg ann empty_tables))) = Inr True"
proof -
  let ?d = "snd (user_create example_pg ann empty_tables)"
  obtain b d' where a: "user_authorize example_pg example_json 1 ''ann'' ''pw'' ?d = (Inr b, d')"
    "(\<exists>r d1. exec_params example_pg ?d authorize_sql [PInt 1, PText ''ann''] = (Inr r, d1)) \<longrightarrow>
      b = (\<exists>u \<in> set (good_users ?d). row_id u = 1 \<and> row_nickname u = ''ann'' \<and> row_password u = ''pw'')"
    using user_authorize_exact [OF example_pg_laws] by blast
  have "\<exists>r d1. exec_params example_pg ?d authorize_sql [PInt 1, PText ''ann''] = (Inr r, d1)"
    by (simp add: example_pg_fields)
  then have b using a(2) create_ann(2) by simp
  then show ?thesis using a(1) by simp
qed

text \<open>
  Keys that \<open>set_public_keys\<close> reports as stored, written as the hex forms of two numbers, are
  the keys that \<open>get_public_keys\<close> returns for that user, or it returns nothing; they can only be
  stored for a registered user without keys.
\<close>

theorem public_keys_roundtrip:
  assumes "pg_user_laws P users keys" "json_laws J" "hex_laws H"
    and "\<And>j s. dump_json J j \<noteq> Inl (Undefined_behaviour s)"
    and "cpp_int_to_hex H e = Inr se" "cpp_int_to_hex H s = Inr ss"
    and "user_set_public_keys P now i se ss d = (Inr True, d')"
  shows "i \<in> row_id ` set (users d) \<and> i \<notin> keys_user ` set (keys d) \<and>
    fst (user_get_public_keys P J H i d') \<in> {Inr None, Inr (Some (user_keys_new s e (-1)))}"
proof -
  obtain n t where new: "users d' = users d" "keys d' = keys d @ [\<lparr>keys_id = n, keys_user = i, keys_dsa = ss,
      keys_el_gamal = se, keys_created = t\<rparr>]"
    using user_set_public_keys_spec [OF assms(1), of now i se ss d] assms(7) by auto
  have "tables_ok (users d') (keys d')" by (rule tables_always [OF assms(1)])
  then have ok: "i \<in> row_id ` set (users d)" "i \<notin> keys_user ` set (keys d)"
    using new by (auto simp: tables_ok_def)
  obtain u d2 where g: "user_get_public_keys P J H i d' = (Inr u, d2)"
    "\<forall>x. u = Some x \<longrightarrow> (\<exists>k \<in> set (keys d'). keys_user k = i \<and> row_keys H k = Some x)"
    using user_get_public_keys_spec [OF assms(1-4)] by blast
  have hex: "hex_to_cpp_int H ss = Inr s" "hex_to_cpp_int H se = Inr e"
    using hex_roundtrip [OF assms(3)] assms(5,6) by blast+
  have "row_keys H k = Some (user_keys_new s e (-1))" if "k \<in> set (keys d')" "keys_user k = i" for k
  proof -
    have "k = \<lparr>keys_id = n, keys_user = i, keys_dsa = ss, keys_el_gamal = se, keys_created = t\<rparr>"
      using that new(2) ok(2) by (auto intro: rev_image_eqI)
    then show ?thesis by (simp add: row_keys_def hex)
  qed
  then have "u = None \<or> u = Some (user_keys_new s e (-1))" using g(2) by (cases u) fastforce+
  then show ?thesis using ok g(1) by auto
qed

definition example_hex :: hex_ops where
  "example_hex = \<lparr>cpp_int_to_hex = \<lambda>n. if n < 0 then Inl (Runtime_error ''negative'') else Inr (nat_digits (nat n)),
     hex_to_cpp_int = \<lambda>s. Inr (int (digits_value 0 s))\<rparr>"

lemma example_hex_laws: "hex_laws example_hex"
  by (simp add: hex_laws_def example_hex_def)

lemma example_dump: "dump_json example_json j \<noteq> Inl (Undefined_behaviour s)"
  by (cases j) (auto simp: example_json_def split: option.splits)

theorem public_keys_roundtrip_witness:
  "(1::i32) \<in> row_id ` set (good_users (snd (user_create example_pg ann empty_tables))) \<and>
   fst (user_get_public_keys example_pg example_json example_hex 1
     (snd (user_set_public_keys example_pg 0 1 ''7'' ''5'' (snd (user_create example_pg ann empty_tables)))))
     \<in> {Inr None, Inr (Some (user_keys_new 5 7 (-1)))}"
proof -
  let ?d = "snd (user_create example_pg ann empty_tables)"
  have d: "?d = \<lparr>t_users = [\<lparr>row_id = 1, row_nickname = ''ann'', row_password = ''pw'',
      row_registered = format_timestamp 0, row_last_online = format_timestamp 0, row_online = True\<rparr>],
      t_keys = [], t_next = 2\<rparr>"
    by (simp add: user_create_def run_txn_def example_pg_def user_values_def user_getters ann_def
      user_new_def try_tables_def tables_ok_def good_users_def good_keys_def empty_tables_def answer_def
      cell_int_def cell_string_def cell_def as_string_def del: format_timestamp_def)
  have "\<exists>d'. user_set_public_keys example_pg 0 1 ''7'' ''5'' ?d = (Inr True, d')"
    unfolding d by (simp add: user_set_public_keys_def run_txn_def example_pg_def try_tables_def tables_ok_def
        good_users_def good_keys_def answer_def cell_int_def cell_string_def cell_def as_string_def
        del: format_timestamp_def)
  then obtain d' where set: "user_set_public_keys example_pg 0 1 ''7'' ''5'' ?d = (Inr True, d')" by blast
  have digit: "nat_digits 7 = ''7''" "nat_digits 5 = ''5''"
    by (simp_all add: nat_digits.simps digit_char_def char_of_def bit_Suc_0_iff)
  have hex: "cpp_int_to_hex example_hex 7 = Inr ''7''" "cpp_int_to_hex example_hex 5 = Inr ''5''"
    by (simp_all add: example_hex_def digit)
  show ?thesis
    using public_keys_roundtrip [OF example_pg_laws example_json_laws example_hex_laws example_dump hex set]
    by (simp add: set)
qed

end
