(* ===== verification/Message_Repos.thy ===== *)
theory Message_Repos
  imports User_Repo
begin

text \<open>
  \<open>server/src/message_metadata_repository.cpp\<close> and \<open>server/src/message_text_repository.cpp\<close>: the
  repositories of message metadata (PostgreSQL) and of message texts (Redis). The Redis client is
  an argument like the PostgreSQL library. \<open>std::regex\<close> and the connection are not modelled.
\<close>

section \<open>Message metadata\<close>

definition insert_message_sql :: string where
  "insert_message_sql =
     ''INSERT INTO messages (sender_id, receiver_id, created_timestamp) '' @
     ''VALUES ($1, $2, $3) RETURNING id''"

definition select_message_sql :: string where
  "select_message_sql = ''SELECT * FROM messages WHERE id = $1''"

definition update_message_sql :: string where
  "update_message_sql = ''UPDATE messages SET last_edited_timestamp = $1 '' @ ''WHERE id = $2''"

definition remove_message_sql :: string where
  "remove_message_sql =
     ''UPDATE messages SET deleted = TRUE, deleted_timestamp = $1 '' @ ''WHERE id = $2''"

text \<open>
  Here the transaction commits before the result is inspected. The chat of the message is not
  among the inserted columns.
\<close>

definition metadata_create :: "'d pg_ops \<Rightarrow> message_metadata \<Rightarrow> 'd \<Rightarrow> (exn + i32) \<times> 'd" where
  "metadata_create P m d =
     or_else (run_committed P d insert_message_sql
         [PInt (metadata_get_sender_id m), PInt (metadata_get_receiver_id m),
          PText (format_timestamp (metadata_get_created_timestamp m))]
       (\<lambda>r. if pg_rows r = [] then Inr 0 else cell_int P r 0)) 0"

text \<open>
  A row is read by column names, its time stamps by \<open>parse_timestamp\<close> in the time zone of the process,
  the argument \<open>mktime\<close>.
\<close>

definition named_int :: "'d pg_ops \<Rightarrow> pg_result \<Rightarrow> string \<Rightarrow> exn + i32" where
  "named_int P r name = rbind (rbind (named_cell r name) as_string) (pg_int P)"

definition named_bool :: "'d pg_ops \<Rightarrow> pg_result \<Rightarrow> string \<Rightarrow> exn + bool" where
  "named_bool P r name = rbind (rbind (named_cell r name) as_string) (pg_bool P)"

definition named_time :: "(tm \<Rightarrow> int) \<Rightarrow> pg_result \<Rightarrow> string \<Rightarrow> exn + timestamp" where
  "named_time mktime r name =
     rbind (rbind (named_cell r name) as_string) (\<lambda>s. Inr (parse_timestamp mktime s))"

definition named_optional_time ::
    "(tm \<Rightarrow> int) \<Rightarrow> pg_result \<Rightarrow> string \<Rightarrow> exn + timestamp option" where
  "named_optional_time mktime r name =
     rbind (named_cell r name) (\<lambda>v.
       if v = None then Inr None
       else rbind (named_time mktime r name) (\<lambda>t. Inr (Some t)))"

definition construct_message ::
    "'d pg_ops \<Rightarrow> (tm \<Rightarrow> int) \<Rightarrow> timestamp \<Rightarrow> pg_result \<Rightarrow> exn + message_metadata" where
  "construct_message P mktime now r =
     rbind (named_int P r ''id'') (\<lambda>i.
       rbind (named_int P r ''sender_id'') (\<lambda>sender.
         rbind (named_int P r ''receiver_id'') (\<lambda>receiver.
           rbind (named_int P r ''chat_id'') (\<lambda>chat.
             rbind (named_bool P r ''deleted'') (\<lambda>del.
               rbind (named_time mktime r ''created_timestamp'') (\<lambda>created.
                 rbind (named_optional_time mktime r ''deleted_timestamp'') (\<lambda>del_at.
                   rbind (named_optional_time mktime r ''last_edited_timestamp'') (\<lambda>edited.
                     Inr ((metadata_new now i sender receiver chat)
                       \<lparr>deleted := del, created_timestamp := created, deleted_timestamp := del_at,
                        last_edited_timestamp := edited\<rparr>)))))))))"

definition metadata_read ::
    "'d pg_ops \<Rightarrow> (tm \<Rightarrow> int) \<Rightarrow> timestamp \<Rightarrow> i32 \<Rightarrow> 'd \<Rightarrow> (exn + message_metadata option) \<times> 'd" where
  "metadata_read P mktime now i d =
     or_else (run_txn P d select_message_sql [PInt i]
       (\<lambda>r. if pg_rows r = [] then Inr (None, False)
         else rbind (construct_message P mktime now r) (\<lambda>m. Inr (Some m, False)))) None"

definition metadata_update :: "'d pg_ops \<Rightarrow> timestamp \<Rightarrow> message_metadata \<Rightarrow> 'd \<Rightarrow> (exn + bool) \<times> 'd" where
  "metadata_update P now m d =
     or_else (run_committed P d update_message_sql
         [PText (format_timestamp (case metadata_get_last_edited_timestamp m of Some t \<Rightarrow> t | None \<Rightarrow> now)),
          PInt (metadata_get_id m)]
       (\<lambda>r. Inr (affected_rows r \<noteq> 0))) False"

definition metadata_remove :: "'d pg_ops \<Rightarrow> timestamp \<Rightarrow> i32 \<Rightarrow> 'd \<Rightarrow> (exn + bool) \<times> 'd" where
  "metadata_remove P now i d =
     or_else (run_committed P d remove_message_sql [PText (format_timestamp now), PInt i]
       (\<lambda>r. Inr (affected_rows r \<noteq> 0))) False"

section \<open>Message texts\<close>

record 'r redis_ops =
  redis_incr :: "string \<Rightarrow> 'r \<Rightarrow> (exn + i64) \<times> 'r"
  redis_set :: "string \<Rightarrow> string \<Rightarrow> 'r \<Rightarrow> (exn + unit) \<times> 'r"
  redis_get :: "string \<Rightarrow> 'r \<Rightarrow> (exn + string option) \<times> 'r"
  redis_exists :: "string \<Rightarrow> 'r \<Rightarrow> (exn + bool) \<times> 'r"
  redis_del :: "string \<Rightarrow> 'r \<Rightarrow> (exn + i64) \<times> 'r"

text \<open>The counter is 64 bits wide, the returned id is its conversion to \<open>int\<close>.\<close>

definition text_create :: "'r redis_ops \<Rightarrow> message_text \<Rightarrow> 'r \<Rightarrow> (exn + i32) \<times> 'r" where
  "text_create R msg r =
     or_else
       (then_do (redis_incr R ''message_id_counter'' r) (\<lambda>new_id r.
         then_do (redis_set R (to_string (sint new_id)) (text_get_text msg) r) (\<lambda>_ r.
           then_do (redis_get R (to_string (sint new_id)) r) (\<lambda>res r.
             if res = None then (Inr 0, r) else (Inr (ucast new_id), r))))) 0"

definition text_read :: "'r redis_ops \<Rightarrow> i32 \<Rightarrow> 'r \<Rightarrow> (exn + message_text option) \<times> 'r" where
  "text_read R i r =
     or_else
       (then_do (redis_get R (to_string (sint i)) r) (\<lambda>res r.
         case res of Some t \<Rightarrow> (Inr (Some (text_new i t)), r) | None \<Rightarrow> (Inr None, r))) None"

definition text_update :: "'r redis_ops \<Rightarrow> message_text \<Rightarrow> 'r \<Rightarrow> (exn + bool) \<times> 'r" where
  "text_update R msg r =
     or_else
       (then_do (redis_exists R (to_string (sint (text_get_id msg))) r) (\<lambda>found r.
         if found
         then then_do (redis_set R (to_string (sint (text_get_id msg))) (text_get_text msg) r)
           (\<lambda>_ r. (Inr True, r))
         else (Inr False, r))) False"

definition text_remove :: "'r redis_ops \<Rightarrow> i32 \<Rightarrow> 'r \<Rightarrow> (exn + bool) \<times> 'r" where
  "text_remove R i r =
     or_else (then_do (redis_del R (to_string (sint i)) r) (\<lambda>removed r. (Inr (0 <s removed), r))) False"

section \<open>What Redis promises\<close>

text \<open>
  The keys and their values; \<open>INCR\<close> reads the value of a key as a decimal number (0 when absent).
  Any command may fail; then it leaves the values. No failure is undefined behaviour.
\<close>

definition redis_laws :: "'r redis_ops \<Rightarrow> ('r \<Rightarrow> string \<Rightarrow> string option) \<Rightarrow> bool" where
  "redis_laws R kv \<longleftrightarrow>
     (\<forall>k r n r'. redis_incr R k r = (Inr n, r') \<longrightarrow>
        kv r' = (kv r)(k \<mapsto> to_string (sint n)) \<and>
        (kv r k = None \<longrightarrow> n = 1) \<and> (\<forall>m :: i64. kv r k = Some (to_string (sint m)) \<longrightarrow> sint n = sint m + 1)) \<and>
     (\<forall>k v r x r'. redis_set R k v r = (Inr x, r') \<longrightarrow> kv r' = (kv r)(k \<mapsto> v)) \<and>
     (\<forall>k r x r'. redis_get R k r = (Inr x, r') \<longrightarrow> kv r' = kv r \<and> x = kv r k) \<and>
     (\<forall>k r x r'. redis_exists R k r = (Inr x, r') \<longrightarrow> kv r' = kv r \<and> x = (kv r k \<noteq> None)) \<and>
     (\<forall>k r n r'. redis_del R k r = (Inr n, r') \<longrightarrow>
        kv r' = (kv r)(k := None) \<and> n = (if kv r k = None then 0 else 1)) \<and>
     (\<forall>k r e r'. redis_incr R k r = (Inl e, r') \<longrightarrow> kv r' = kv r) \<and>
     (\<forall>k v r e r'. redis_set R k v r = (Inl e, r') \<longrightarrow> kv r' = kv r) \<and>
     (\<forall>k r e r'. redis_get R k r = (Inl e, r') \<longrightarrow> kv r' = kv r) \<and>
     (\<forall>k r s. fst (redis_incr R k r) \<noteq> Inl (Undefined_behaviour s)) \<and>
     (\<forall>k v r s. fst (redis_set R k v r) \<noteq> Inl (Undefined_behaviour s)) \<and>
     (\<forall>k r s. fst (redis_get R k r) \<noteq> Inl (Undefined_behaviour s))"

section \<open>Lemmas\<close>

lemma redis_values:
  assumes "redis_laws R kv"
  shows "redis_incr R k r = (Inr n, r') \<Longrightarrow> kv r' = (kv r)(k \<mapsto> to_string (sint n)) \<and>
      (kv r k = None \<longrightarrow> n = 1) \<and> (\<forall>m :: i64. kv r k = Some (to_string (sint m)) \<longrightarrow> sint n = sint m + 1)"
    and "redis_set R k v r = (Inr x, r') \<Longrightarrow> kv r' = (kv r)(k \<mapsto> v)"
    and "redis_get R k r = (Inr y, r') \<Longrightarrow> kv r' = kv r \<and> y = kv r k"
    and "redis_incr R k r = (Inl e, r') \<Longrightarrow> e \<noteq> Undefined_behaviour s"
    and "redis_set R k v r = (Inl e, r') \<Longrightarrow> e \<noteq> Undefined_behaviour s"
    and "redis_get R k r = (Inl e, r') \<Longrightarrow> kv r' = kv r \<and> e \<noteq> Undefined_behaviour s"
  using assms unfolding redis_laws_def by (elim conjE; (blast | metis fst_conv))+

lemma counter_key: "to_string i \<noteq> ''message_id_counter''"
  using to_string_chars [of "CHR ''m''" i] by auto

lemma text_read_spec:
  assumes "redis_laws R kv"
  shows "\<exists>t r'. text_read R i r = (Inr t, r') \<and> kv r' = kv r \<and>
    (t = None \<or> (\<exists>x. kv r (to_string (sint i)) = Some x \<and> t = Some (text_new i x))) \<and>
    (kv r (to_string (sint i)) = None \<longrightarrow> t = None)"
proof -
  obtain res r1 where g: "redis_get R (to_string (sint i)) r = (res, r1)" by fastforce
  show ?thesis
  proof (cases res)
    case (Inl e)
    then have "kv r1 = kv r" "e \<noteq> Undefined_behaviour s" for s
      using redis_values(6) [OF assms] g by blast+
    moreover from this have "catch_std (Inl e) (\<lambda>_. Inr None) = Inr (None :: message_text option)"
      by (intro catch_std_Inl)
    ultimately show ?thesis
      using g Inl by (simp add: text_read_def or_else_def del: catch_std.simps)
  next
    case (Inr v)
    then have "kv r1 = kv r" "v = kv r (to_string (sint i))" using redis_values(3) [OF assms] g by blast+
    then show ?thesis using g Inr by (cases "kv r (to_string (sint i))") (auto simp: text_read_def)
  qed
qed

section \<open>Properties\<close>

text \<open>
  When \<open>create\<close> returns a nonzero id, the text is stored under the new 64-bit value of the
  counter and nothing else changes; the id is that value cut to 32 bits. As long as the value
  fits into \<open>int\<close> a later \<open>read\<close> of the id gives the text (or fails); a value that does not fit
  leaves the text under a key that the returned id does not name.
\<close>

theorem text_create_effect:
  assumes "redis_laws R kv" "text_create R msg r = (Inr i, r')" "i \<noteq> 0"
    and "kv r ''message_id_counter'' = Some (to_string (sint (c :: i64)))"
  shows "\<exists>n :: i64. sint n = sint c + 1 \<and> i = ucast n \<and>
    kv r' = (kv r)(''message_id_counter'' \<mapsto> to_string (sint n), to_string (sint n) \<mapsto> text_of msg) \<and>
    (if sint i = sint n then fst (text_read R i r') \<in> {Inr None, Inr (Some (text_new i (text_of msg)))}
     else kv r' (to_string (sint i)) = kv r (to_string (sint i)))"
proof -
  obtain n r1 x r2 y r3 where incr: "redis_incr R ''message_id_counter'' r = (Inr n, r1)"
    and set: "redis_set R (to_string (sint n)) (text_of msg) r1 = (Inr x, r2)"
    and get: "redis_get R (to_string (sint n)) r2 = (Inr y, r3)"
    and i: "i = ucast n" "r' = r3"
    using or_else_Inr [OF assms(2) [unfolded text_create_def] assms(3)] assms(3)
    by (fastforce simp: then_do_Inr text_get_text_def split: if_splits)
  have kv: "kv r1 = (kv r)(''message_id_counter'' \<mapsto> to_string (sint n))" "sint n = sint c + 1"
    "kv r2 = (kv r1)(to_string (sint n) \<mapsto> text_of msg)" "kv r3 = kv r2"
    using redis_values(1) [OF assms(1) incr] redis_values(2) [OF assms(1) set]
      redis_values(3) [OF assms(1) get] assms(4) by auto
  have "if sint i = sint n then fst (text_read R i r') \<in> {Inr None, Inr (Some (text_new i (text_of msg)))}
     else kv r' (to_string (sint i)) = kv r (to_string (sint i))"
  proof (cases "sint i = sint n")
    case True
    obtain t r4 where "text_read R i r' = (Inr t, r4)"
      "t = None \<or> (\<exists>x. kv r' (to_string (sint i)) = Some x \<and> t = Some (text_new i x))"
      using text_read_spec [OF assms(1)] by blast
    then show ?thesis using True kv i by auto
  next
    case False
    then have "to_string (sint i) \<noteq> to_string (sint n)" by (simp add: to_string_inj)
    then show ?thesis using False kv i counter_key by auto
  qed
  then show ?thesis using kv i by (intro exI [of _ n]) simp
qed

text \<open>A key-value store that keeps the laws: an association of strings, with decimal counters.\<close>

definition decimal :: "string \<Rightarrow> int" where
  "decimal s =
     (if s \<noteq> [] \<and> hd s = CHR ''-'' then - int (digits_value 0 (tl s)) else int (digits_value 0 s))"

definition example_redis :: "(string \<Rightarrow> string option) redis_ops" where
  "example_redis = \<lparr>
     redis_incr = (\<lambda>k r.
       let n = (case r k of None \<Rightarrow> 1 | Some s \<Rightarrow> decimal s + 1) :: int
       in if n < 9223372036854775808 \<and> - 9223372036854775808 \<le> n
         then (Inr (word_of_int n), r(k \<mapsto> to_string n)) else (Inl (Library_error ''overflow''), r)),
     redis_set = (\<lambda>k v r. (Inr (), r(k \<mapsto> v))),
     redis_get = (\<lambda>k r. (Inr (r k), r)),
     redis_exists = (\<lambda>k r. (Inr (r k \<noteq> None), r)),
     redis_del = (\<lambda>k r. (Inr (if r k = None then 0 else 1), r(k := None)))\<rparr>"

lemma decimal_to_string [simp]: "decimal (to_string i) = i"
proof (cases "i < 0")
  case False
  have "hd (nat_digits (nat i)) \<noteq> CHR ''-''" if "nat_digits (nat i) \<noteq> []"
    using that nat_digits_minus by (cases "nat_digits (nat i)") auto
  then have "\<not> (nat_digits (nat i) \<noteq> [] \<and> hd (nat_digits (nat i)) = CHR ''-'')" by blast
  then show ?thesis using False unfolding to_string_def decimal_def by (simp only: if_False) simp
qed (simp add: to_string_def decimal_def)

lemma sint_range: "(- 9223372036854775808 \<le> i \<and> i < 9223372036854775808) \<Longrightarrow> sint (word_of_int i :: i64) = i"
  by (simp add: sint_sbintrunc' signed_take_bit_int_eq_self)

lemma example_incr:
  assumes "redis_incr example_redis k r = (Inr n, r')"
  obtains i where "sint n = i" "n = word_of_int i" "r' = r(k \<mapsto> to_string i)"
    "r k = None \<longrightarrow> i = 1" "\<And>s. r k = Some s \<Longrightarrow> i = decimal s + 1"
proof -
  define i where "i = (case r k of None \<Rightarrow> 1 | Some s \<Rightarrow> decimal s + 1)"
  have "- 9223372036854775808 \<le> i \<and> i < 9223372036854775808" "n = word_of_int i" "r' = r(k \<mapsto> to_string i)"
    using assms by (auto simp: example_redis_def Let_def simp flip: i_def split: if_splits)
  then show ?thesis using that [of i] sint_range [of i] by (auto simp: i_def)
qed

lemma example_redis_laws: "redis_laws example_redis (\<lambda>r. r)"
  unfolding redis_laws_def
proof (intro conjI allI impI)
  fix k r n r' assume "redis_incr example_redis k r = (Inr n, r')"
  then show "r' = r(k \<mapsto> to_string (sint n))" by (elim example_incr) simp
next
  fix k r n r' assume "redis_incr example_redis k r = (Inr n, r')" "r k = None"
  then show "n = 1" by (elim example_incr) simp
next
  fix k r n r' m assume "redis_incr example_redis k r = (Inr n, r')" "r k = Some (to_string (sint (m :: i64)))"
  then show "sint n = sint m + 1" by (elim example_incr) simp
qed (auto simp: example_redis_def Let_def split: if_splits)

theorem text_create_effect_witness:
  "let r = [''message_id_counter'' \<mapsto> to_string (sint (6 :: i64))];
       r' = snd (text_create example_redis (text_new 0 ''hi'') r)
   in fst (text_create example_redis (text_new 0 ''hi'') r) = Inr 7 \<and>
      fst (text_read example_redis 7 r') \<in> {Inr None, Inr (Some (text_new 7 ''hi''))}"
proof -
  let ?r = "[''message_id_counter'' \<mapsto> to_string (sint (6 :: i64))]"
  have "decimal (to_string 6) = 6" by (rule decimal_to_string)
  then have c: "fst (text_create example_redis (text_new 0 ''hi'') ?r) = Inr 7"
    by (simp add: text_create_def example_redis_def Let_def)
  then obtain r' where r': "text_create example_redis (text_new 0 ''hi'') ?r = (Inr 7, r')"
    by (cases "text_create example_redis (text_new 0 ''hi'') ?r") simp
  have "fst (text_read example_redis 7 r') \<in> {Inr None, Inr (Some (text_new 7 ''hi''))}"
    using text_create_effect [OF example_redis_laws r', of 6] by (auto simp: text_new_def split: if_splits)
  then show ?thesis using r' by (simp add: Let_def)
qed

end
