(* ===== verification/File_Server.thy ===== *)
theory File_Server
  imports Text_Format
begin

text \<open>
  \<open>file_server/src/file_server.cpp\<close>: the HTTP file server. The state holds the stored files by
  their path, the set of paths that have a mutex, and the life cycle flags. A handler returns the
  responses it sends, in order. The locks serialise the handlers, so each one is a single step.
  What the operating system may refuse (directories, opening, writing) is the argument \<open>io\<close>; the
  endpoint and the router of Pistache are present or not.
\<close>

section \<open>Paths\<close>

definition slash :: char where
  "slash = CHR ''/''"

definition dot :: char where
  "dot = CHR ''.''"

text \<open>\<open>std::filesystem::path::operator/\<close> on POSIX paths.\<close>

definition path_append :: "string \<Rightarrow> string \<Rightarrow> string" where
  "path_append a b =
     (if b \<noteq> [] \<and> hd b = slash then b
      else if a \<noteq> [] \<and> List.last a \<noteq> slash then a @ slash # b
      else a @ b)"

definition path_filename :: "string \<Rightarrow> string" where
  "path_filename s = rev (takeWhile (\<lambda>c. c \<noteq> slash) (rev s))"

text \<open>\<open>stem\<close>: up to the last period, unless that is the first character.\<close>

definition path_stem :: "string \<Rightarrow> string" where
  "path_stem s =
     (let f = path_filename s
      in if f = ''..'' \<or> dot \<notin> set (tl f) then f else rev (tl (dropWhile (\<lambda>c. c \<noteq> dot) (rev f))))"

definition substr :: "nat \<Rightarrow> nat \<Rightarrow> string \<Rightarrow> exn + string" where
  "substr p n s =
     (if length s < p then Inl (Out_of_range ''basic_string::substr'') else Inr (take n (drop p s)))"

section \<open>State\<close>

definition chunk_size_bytes :: nat where
  "chunk_size_bytes = 512"

definition filename_len :: nat where
  "filename_len = 16"

definition alphabet :: string where
  "alphabet = ''0123456789'' @ ''ABCDEFGHIJ'' @ ''KLMNOPQRST'' @ ''UVWXYZabcd'' @ ''efghijklmn'' @
     ''opqrstuvwx'' @ ''yz''"

datatype http_code = Ok_code | Bad_Request | Not_Found | Internal_Server_Error

type_synonym response = "http_code \<times> string"

record file_server =
  fs_files :: "string \<Rightarrow> string option"
  fs_mutexes :: "string set"
  fs_storage_dir :: string
  fs_max_file_size :: u64
  fs_running :: bool
  fs_endpoint :: bool
  fs_router :: bool

record io_outcome =
  make_directories :: "string \<Rightarrow> exn + unit"
  can_create :: bool
  can_write :: bool
  written :: nat
  can_open :: bool
  remove_fails :: "exn option"

definition file_server_new :: "string \<Rightarrow> u64 \<Rightarrow> (string \<Rightarrow> string option) \<Rightarrow> file_server" where
  "file_server_new storage_dir max_file_size files =
     \<lparr>fs_files = files, fs_mutexes = {}, fs_storage_dir = storage_dir, fs_max_file_size = max_file_size,
      fs_running = False, fs_endpoint = False, fs_router = False\<rparr>"

section \<open>Life cycle\<close>

text \<open>
  The two steps of Pistache that may throw are given by their outcomes, \<open>what\<close> is the text of an
  exception.
\<close>

definition setup_routes :: "file_server \<Rightarrow> file_server" where
  "setup_routes s = s\<lparr>fs_router := True\<rparr>"

definition start :: "(exn \<Rightarrow> string) \<Rightarrow> exn + unit \<Rightarrow> exn + unit \<Rightarrow> file_server \<Rightarrow> (exn + unit) \<times> file_server" where
  "start what make_endpoint init_endpoint s =
     (if fs_running s then (Inr (), s)
      else case make_endpoint of
          Inl e \<Rightarrow> (Inl (Runtime_error (''Failed to initialize server: '' @ what e)), s)
        | Inr _ \<Rightarrow>
            (case init_endpoint of
               Inl e \<Rightarrow> (Inl (Runtime_error (''Failed to initialize server: '' @ what e)), s\<lparr>fs_endpoint := True\<rparr>)
             | Inr _ \<Rightarrow> (Inr (), setup_routes (s\<lparr>fs_endpoint := True\<rparr>)\<lparr>fs_running := True\<rparr>)))"

definition stop :: "file_server \<Rightarrow> file_server" where
  "stop s =
     (if fs_endpoint s
      then s\<lparr>fs_router := True, fs_mutexes := {}, fs_running := False, fs_endpoint := False\<rparr>
      else s)"

section \<open>Handlers\<close>

definition get_filepath_by_name :: "io_outcome \<Rightarrow> file_server \<Rightarrow> string \<Rightarrow> exn + string" where
  "get_filepath_by_name io s filename =
     rbind (substr 0 2 filename) (\<lambda>lvl1_dir.
       rbind (substr 2 2 filename) (\<lambda>lvl2_dir.
         let directories_path = path_append (path_append (fs_storage_dir s) lvl1_dir) lvl2_dir
         in rbind (make_directories io directories_path) (\<lambda>_.
              Inr (path_append directories_path filename))))"

definition is_valid_filename :: "string \<Rightarrow> bool" where
  "is_valid_filename filename =
     (let str = path_stem filename
      in if length str \<noteq> filename_len then False
         else list_all (\<lambda>c1. list_ex (\<lambda>c2. c1 = c2) alphabet) str)"

definition get_or_create_mutex :: "string \<Rightarrow> file_server \<Rightarrow> file_server" where
  "get_or_create_mutex path s = s\<lparr>fs_mutexes := insert path (fs_mutexes s)\<rparr>"

text \<open>\<open>std::filesystem::remove\<close> returns whether there was a file, or throws.\<close>

definition remove_file :: "io_outcome \<Rightarrow> string \<Rightarrow> file_server \<Rightarrow> (exn + bool) \<times> file_server" where
  "remove_file io path s =
     (case remove_fails io of
        Some e \<Rightarrow> (Inl e, s)
      | None \<Rightarrow> (Inr (fs_files s path \<noteq> None), s\<lparr>fs_files := (fs_files s)(path := None)\<rparr>))"

text \<open>Sizes are \<open>size_t\<close>: the subtraction from the limit wraps.\<close>

definition file_size :: "string \<Rightarrow> file_server \<Rightarrow> u64" where
  "file_size path s = (case fs_files s path of Some c \<Rightarrow> of_nat (length c) | None \<Rightarrow> 0)"

definition invalid_text :: "string \<Rightarrow> string" where
  "invalid_text filename = ''File '' @ filename @
     '' contains unsupported symbols or its size is incorrect, cannot upload it to file_server''"

definition limit_text :: "string \<Rightarrow> u64 \<Rightarrow> string" where
  "limit_text path n = ''Size of '' @ path @ '' is: '' @ to_string (uint n) @
     '', that's more than system limit, removing it''"

definition remove_and_return ::
    "io_outcome \<Rightarrow> string \<Rightarrow> response \<Rightarrow> file_server \<Rightarrow> (exn + unit) \<times> response list \<times> file_server" where
  "remove_and_return io path r s =
     (case remove_file io path s of (Inl e, s') \<Rightarrow> (Inl e, [r], s') | (Inr _, s') \<Rightarrow> (Inr (), [r], s'))"

definition contents :: "string \<Rightarrow> file_server \<Rightarrow> string" where
  "contents path s = (case fs_files s path of Some c \<Rightarrow> c | None \<Rightarrow> [])"

definition append_to :: "string \<Rightarrow> string \<Rightarrow> file_server \<Rightarrow> file_server" where
  "append_to path body s = s\<lparr>fs_files := (fs_files s)(path \<mapsto> contents path s @ body)\<rparr>"

text \<open>A write that fails may have stored a part; then the file is removed before the response.\<close>

definition upload_to ::
    "io_outcome \<Rightarrow> string \<Rightarrow> string \<Rightarrow> file_server \<Rightarrow> (exn + unit) \<times> response list \<times> file_server" where
  "upload_to io filepath body s =
     (let raw_data_bytes = of_nat (length body) :: u64 in
      if raw_data_bytes > of_nat chunk_size_bytes
      then remove_and_return io filepath
        (Bad_Request, ''Received raw data size is bigger than acceptable chunk size!'') s
      else if file_size filepath s > fs_max_file_size s - raw_data_bytes
      then remove_and_return io filepath (Bad_Request, limit_text filepath (file_size filepath s)) s
      else if \<not> can_create io then (Inr (), [(Internal_Server_Error, ''Failed to create file'')], s)
      else if can_write io then (Inr (), [(Ok_code, ''File uploaded successfully'')], append_to filepath body s)
      else (case remove_file io filepath (append_to filepath (take (written io) body) s) of
          (Inl e, s') \<Rightarrow> (Inl e, [], s')
        | (Inr _, s') \<Rightarrow> (Inr (), [(Internal_Server_Error, ''Failed to write file'')], s')))"

definition upload_file ::
    "io_outcome \<Rightarrow> string \<Rightarrow> string \<Rightarrow> file_server \<Rightarrow> (exn + unit) \<times> response list \<times> file_server" where
  "upload_file io filename body s =
     (if \<not> is_valid_filename filename then (Inr (), [(Bad_Request, invalid_text filename)], s)
      else case get_filepath_by_name io s filename of
          Inl e \<Rightarrow> (Inl e, [], s)
        | Inr filepath \<Rightarrow> upload_to io filepath body (get_or_create_mutex filepath s))"

text \<open>
  The loop ends after the first read of fewer than 512 bytes, which it sends like the others.
\<close>

function read_chunks :: "string \<Rightarrow> string list" where
  "read_chunks c =
     (if length c < chunk_size_bytes then [c]
      else take chunk_size_bytes c # read_chunks (drop chunk_size_bytes c))"
  by pat_completeness auto

termination by (relation "measure length") (auto simp: chunk_size_bytes_def)

declare read_chunks.simps [simp del]

definition download_file ::
    "io_outcome \<Rightarrow> string \<Rightarrow> file_server \<Rightarrow> (exn + unit) \<times> response list \<times> file_server" where
  "download_file io filename s =
     (case get_filepath_by_name io s filename of
        Inl e \<Rightarrow> (Inl e, [], s)
      | Inr filepath \<Rightarrow>
          (let s1 = get_or_create_mutex filepath s in
           case fs_files s1 filepath of
             None \<Rightarrow> (Inr (), [(Not_Found, ''File not found'')], s1)
           | Some c \<Rightarrow>
               (if can_open io then (Inr (), map (\<lambda>chunk. (Ok_code, chunk)) (read_chunks c), s1)
                else (Inr (), [(Internal_Server_Error, ''Failed to open file'')], s1))))"

text \<open>Here the path is the storage directory and the name, without the two levels of directories.\<close>

definition delete_file ::
    "io_outcome \<Rightarrow> string \<Rightarrow> file_server \<Rightarrow> (exn + unit) \<times> response list \<times> file_server" where
  "delete_file io filename s =
     (let filepath = path_append (fs_storage_dir s) filename in
      if filepath \<notin> fs_mutexes s then (Inr (), [(Not_Found, ''File not found'')], s)
      else if fs_files s filepath = None then (Inr (), [(Not_Found, ''File not found'')], s)
      else (case remove_file io filepath s of
          (Inl _, s') \<Rightarrow> (Inr (), [(Not_Found, ''File not found'')], s')
        | (Inr True, s') \<Rightarrow>
            (Inr (), [(Ok_code, ''File deleted successfully'')], s'\<lparr>fs_mutexes := fs_mutexes s - {filepath}\<rparr>)
        | (Inr False, s') \<Rightarrow> (Inr (), [(Internal_Server_Error, ''Failed to delete file'')], s')))"

section \<open>Requests\<close>

datatype request = Upload string string | Download string | Delete string

fun serve :: "io_outcome \<Rightarrow> request \<Rightarrow> file_server \<Rightarrow> (exn + unit) \<times> response list \<times> file_server" where
  "serve io (Upload name body) s = upload_file io name body s"
| "serve io (Download name) s = download_file io name s"
| "serve io (Delete name) s = delete_file io name s"

text \<open>
  A route parameter is one segment of the address: no slash, not empty. A body fits into memory.
\<close>

definition segment :: "string \<Rightarrow> bool" where
  "segment name \<longleftrightarrow> name \<noteq> [] \<and> slash \<notin> set name"

fun well_formed :: "request \<Rightarrow> bool" where
  "well_formed (Upload name body) = (segment name \<and> length body < 2 ^ 64)"
| "well_formed (Download name) = segment name"
| "well_formed (Delete name) = segment name"

text \<open>The states of a server: it starts over files that keep the limit, serves requests, and is stopped and started.\<close>

inductive reachable :: "string \<Rightarrow> u64 \<Rightarrow> file_server \<Rightarrow> bool" for dir limit where
  initial: "(\<And>p c. files p = Some c \<Longrightarrow> length c \<le> unat limit) \<Longrightarrow> reachable dir limit (file_server_new dir limit files)"
| served: "reachable dir limit s \<Longrightarrow> well_formed r \<Longrightarrow> reachable dir limit (snd (snd (serve io r s)))"
| started: "reachable dir limit s \<Longrightarrow> reachable dir limit (snd (start what made inited s))"
| stopped: "reachable dir limit s \<Longrightarrow> reachable dir limit (stop s)"


section \<open>Lemmas\<close>

definition base :: "string \<Rightarrow> string" where
  "base dir = (if dir = [] \<or> List.last dir = slash then dir else dir @ [slash])"

lemma path_append_name: "b = [] \<or> hd b \<noteq> slash \<Longrightarrow> path_append a b = base a @ b"
  by (auto simp: path_append_def base_def)

lemma base_slash [simp]: "base (xs @ [slash]) = xs @ [slash]"
  by (simp add: base_def)

lemma base_word: "x \<noteq> [] \<Longrightarrow> slash \<notin> set x \<Longrightarrow> base (xs @ x) = xs @ x @ [slash]"
  by (auto simp: base_def dest: last_in_set)

lemma hd_take_segment: "slash \<notin> set name \<Longrightarrow> take n (drop m name) = [] \<or> hd (take n (drop m name)) \<noteq> slash"
  using set_take_subset [of n "drop m name"] set_drop_subset [of m name] hd_in_set [of "take n (drop m name)"]
  by fastforce

text \<open>The path of a stored file has a slash after the storage directory.\<close>

definition store_path :: "string \<Rightarrow> string \<Rightarrow> string" where
  "store_path dir name =
     base dir @ take 2 name @ slash # (if drop 2 name = [] then [] else take 2 (drop 2 name) @ [slash]) @ name"

lemma get_filepath_result:
  assumes "segment name" "get_filepath_by_name io s name = Inr p"
  shows "p = store_path (fs_storage_dir s) name"
proof -
  define l1 l2 where l: "l1 = take 2 name" "l2 = take 2 (drop 2 name)"
  have len: "2 \<le> length name"
    using assms(2) by (auto simp: get_filepath_by_name_def substr_def split: if_splits)
  have ne: "l1 \<noteq> []" "slash \<notin> set l1" "l1 = [] \<or> hd l1 \<noteq> slash" "slash \<notin> set l2" "l2 = [] \<or> hd l2 \<noteq> slash"
      "name = [] \<or> hd name \<noteq> slash" "l2 = [] \<longleftrightarrow> drop 2 name = []"
    using assms(1) hd_take_segment [of name 2 0] hd_take_segment [of name 2 2] hd_take_segment [of name "length name" 0] len
    by (auto simp: segment_def l dest: in_set_takeD in_set_dropD)
  have "p = path_append (path_append (path_append (fs_storage_dir s) l1) l2) name"
    using assms(2) by (auto simp: get_filepath_by_name_def substr_def l Let_def rbind_Inr_iff split: if_splits)
  also have "path_append (fs_storage_dir s) l1 = base (fs_storage_dir s) @ l1"
    by (rule path_append_name [OF ne(3)])
  also have "path_append (base (fs_storage_dir s) @ l1) l2 = base (fs_storage_dir s) @ l1 @ [slash] @ l2"
    using path_append_name [OF ne(5)] base_word [OF ne(1,2)] by simp
  also have "path_append (base (fs_storage_dir s) @ l1 @ [slash] @ l2) name =
      base (base (fs_storage_dir s) @ l1 @ [slash] @ l2) @ name"
    by (rule path_append_name [OF ne(6)])
  also have "base (base (fs_storage_dir s) @ l1 @ [slash] @ l2) =
      base (fs_storage_dir s) @ l1 @ [slash] @ (if l2 = [] then [] else l2 @ [slash])"
  proof (cases "l2 = []")
    case True
    then show ?thesis using base_slash [of "base (fs_storage_dir s) @ l1"] by simp
  next
    case False
    then show ?thesis using base_word [OF False ne(4), of "base (fs_storage_dir s) @ l1 @ [slash]"] by simp
  qed
  finally show ?thesis using ne(7) by (simp add: store_path_def l)
qed

lemma store_path_not_flat: "slash \<notin> set name \<Longrightarrow> store_path dir name' \<noteq> base dir @ name"
  by (auto simp: store_path_def)

lemma upload_to_keeps [simp]:
  "fs_storage_dir (snd (snd (upload_to io p body s))) = fs_storage_dir s"
  "fs_max_file_size (snd (snd (upload_to io p body s))) = fs_max_file_size s"
  "fs_mutexes (snd (snd (upload_to io p body s))) = fs_mutexes s"
  by (auto simp: upload_to_def Let_def remove_and_return_def remove_file_def append_to_def split: option.splits)

text \<open>The configuration and the mutexes of a reachable server.\<close>

definition server_ok :: "string \<Rightarrow> u64 \<Rightarrow> file_server \<Rightarrow> bool" where
  "server_ok dir limit s \<longleftrightarrow> fs_storage_dir s = dir \<and> fs_max_file_size s = limit \<and>
     (\<forall>p \<in> fs_mutexes s. \<exists>name. segment name \<and> p = store_path dir name)"

lemma server_ok_mutex:
  "server_ok dir limit s \<Longrightarrow> segment name \<Longrightarrow> get_filepath_by_name io s name = Inr p \<Longrightarrow>
   server_ok dir limit (get_or_create_mutex p s)"
  using get_filepath_result [of name io s p] by (auto simp: server_ok_def get_or_create_mutex_def)

lemma delete_not_found:
  assumes "server_ok dir limit s" "segment name"
  shows "delete_file io name s = (Inr (), [(Not_Found, ''File not found'')], s)"
proof -
  have "path_append dir name = base dir @ name"
    using assms(2) by (intro path_append_name) (cases name; auto simp: segment_def)
  moreover have "base dir @ name \<notin> fs_mutexes s"
    using assms store_path_not_flat [of name dir] unfolding server_ok_def segment_def by metis
  ultimately show ?thesis using assms(1) by (simp add: delete_file_def server_ok_def)
qed

lemma serve_ok:
  assumes "server_ok dir limit s" "well_formed r"
  shows "server_ok dir limit (snd (snd (serve io r s)))"
proof (cases r)
  case (Upload name body)
  have "server_ok dir limit (snd (snd (upload_to io p body (get_or_create_mutex p s))))"
    if "get_filepath_by_name io s name = Inr p" for p
    using server_ok_mutex [OF assms(1) _ that] assms(2) Upload by (simp add: server_ok_def)
  then show ?thesis using assms Upload by (auto simp: upload_file_def split: sum.splits)
next
  case (Download name)
  then show ?thesis using assms server_ok_mutex [OF assms(1), of name]
    by (auto simp: download_file_def Let_def split: sum.splits option.splits)
next
  case (Delete name)
  then show ?thesis using assms delete_not_found [OF assms(1), of name] by simp
qed

lemma reachable_ok: "reachable dir limit s \<Longrightarrow> server_ok dir limit s"
proof (induction rule: reachable.induct)
  case (started s what made inited)
  then show ?case by (auto simp: start_def setup_routes_def server_ok_def split: sum.splits)
next
  case (served s r io)
  then show ?case by (intro serve_ok)
qed (auto simp: server_ok_def file_server_new_def stop_def)

text \<open>The sizes as natural numbers.\<close>

lemma unat_length: "length body < 2 ^ 64 \<Longrightarrow> unat (of_nat (length body) :: u64) = length body"
  by (simp add: unat_of_nat take_bit_nat_eq_self)

lemma unat_less64: "unat (n :: u64) < 2 ^ 64"
  using unsigned_less [of n] by (simp del: unsigned_less)

lemma size_checks:
  assumes "length body < 2 ^ 64" "length (contents p s) < 2 ^ 64"
  shows "(of_nat (length body) > (of_nat chunk_size_bytes :: u64)) = (512 < length body)"
    and "file_size p s = of_nat (length (contents p s))"
    and "length body \<le> unat (fs_max_file_size s) \<Longrightarrow>
      (file_size p s > fs_max_file_size s - of_nat (length body)) =
        (unat (fs_max_file_size s) < length (contents p s) + length body)"
    and "unat (fs_max_file_size s) < length body \<Longrightarrow>
      (file_size p s > fs_max_file_size s - of_nat (length body)) =
        (2 ^ 64 + unat (fs_max_file_size s) < length (contents p s) + length body)"
proof -
  show "(of_nat (length body) > (of_nat chunk_size_bytes :: u64)) = (512 < length body)"
    by (simp add: word_less_nat_alt unat_length [OF assms(1)] chunk_size_bytes_def)
  show size: "file_size p s = of_nat (length (contents p s))"
    by (simp add: file_size_def contents_def split: option.splits)
  have len: "unat (file_size p s) = length (contents p s)" by (simp only: size unat_length [OF assms(2)])
  show "(file_size p s > fs_max_file_size s - of_nat (length body)) =
      (unat (fs_max_file_size s) < length (contents p s) + length body)"
    if le: "length body \<le> unat (fs_max_file_size s)"
  proof -
    have "(of_nat (length body) :: u64) \<le> fs_max_file_size s"
      using le by (simp add: word_le_nat_alt unat_length [OF assms(1)])
    then have "unat (fs_max_file_size s - of_nat (length body)) = unat (fs_max_file_size s) - length body"
      by (simp add: unat_sub unat_length [OF assms(1)])
    then show ?thesis using le by (simp add: word_less_nat_alt len less_diff_conv2)
  qed
  show "(file_size p s > fs_max_file_size s - of_nat (length body)) =
      (2 ^ 64 + unat (fs_max_file_size s) < length (contents p s) + length body)"
    if less: "unat (fs_max_file_size s) < length body"
  proof -
    have "unat (fs_max_file_size s - of_nat (length body)) = 2 ^ 64 + unat (fs_max_file_size s) - length body"
      using less unat_less64 [of "fs_max_file_size s"]
      by (simp add: unat_sub_if_size unat_length [OF assms(1)] word_size)
    then show ?thesis using less assms(1) by (simp add: word_less_nat_alt len less_diff_conv2)
  qed
qed

lemma contents_simps [simp]:
  "contents p (append_to p body s) = contents p s @ body"
  "contents p (get_or_create_mutex q s) = contents p s"
  "fs_max_file_size (get_or_create_mutex q s) = fs_max_file_size s"
  by (simp_all add: contents_def append_to_def get_or_create_mutex_def)

text \<open>Every stored file is within the limit.\<close>

definition sizes_ok :: "u64 \<Rightarrow> file_server \<Rightarrow> bool" where
  "sizes_ok limit s \<longleftrightarrow> (\<forall>p c. fs_files s p = Some c \<longrightarrow> length c \<le> unat limit)"

lemma sizes_ok_remove: "sizes_ok limit s \<Longrightarrow> sizes_ok limit (snd (remove_file io p s))"
  by (auto simp: sizes_ok_def remove_file_def split: option.splits)

lemma sizes_ok_append:
  "sizes_ok limit s \<Longrightarrow> length (contents p s) + length body \<le> unat limit \<Longrightarrow> sizes_ok limit (append_to p body s)"
  by (auto simp: sizes_ok_def append_to_def)

lemma sizes_ok_contents: "sizes_ok limit s \<Longrightarrow> length (contents p s) \<le> unat limit"
  by (auto simp: sizes_ok_def contents_def split: option.splits)

lemma upload_to_sizes:
  assumes "sizes_ok limit s" "fs_max_file_size s = limit" "512 \<le> unat limit" "length body < 2 ^ 64"
  shows "sizes_ok limit (snd (snd (upload_to io p body s)))"
proof -
  have "length (contents p s) < 2 ^ 64"
    using sizes_ok_contents [OF assms(1), of p] unat_less64 [of limit] by simp
  note checks = size_checks [OF assms(4) this]
  have remove: "sizes_ok limit (snd (snd (remove_and_return io p r s)))" for r
    using sizes_ok_remove [OF assms(1), of io p] by (auto simp: remove_and_return_def split: prod.splits sum.splits)
  show ?thesis
  proof (cases "512 < length body \<or> unat limit < length (contents p s) + length body")
    case True
    then show ?thesis using remove checks(1,3) assms(2,3) by (auto simp: upload_to_def Let_def)
  next
    case False
    have part: "sizes_ok limit (append_to p (take k body) s)" "sizes_ok limit (append_to p body s)" for k
      using False by (auto intro!: sizes_ok_append [OF assms(1)])
    have "sizes_ok limit (snd (remove_file io p (append_to p (take (written io) body) s)))"
      by (rule sizes_ok_remove [OF part(1)])
    then show ?thesis using False checks(1,3) assms(1-3) part(2)
      by (auto simp: upload_to_def Let_def split: prod.splits sum.splits)
  qed
qed

lemma reachable_sizes:
  assumes "reachable dir limit s" "512 \<le> unat limit"
  shows "sizes_ok limit s"
  using assms
proof (induction rule: reachable.induct)
  case (served s r io)
  then have ok: "server_ok dir limit s" "sizes_ok limit s" by (simp_all add: reachable_ok)
  show ?case
  proof (cases r)
    case (Upload name body)
    have "sizes_ok limit (snd (snd (upload_to io p body (get_or_create_mutex p s))))" for p
      using ok served Upload
      by (intro upload_to_sizes) (auto simp: server_ok_def sizes_ok_def get_or_create_mutex_def)
    then show ?thesis using Upload ok by (auto simp: upload_file_def split: sum.splits)
  next
    case (Download name)
    then show ?thesis using ok
      by (auto simp: download_file_def Let_def get_or_create_mutex_def sizes_ok_def split: sum.splits option.splits)
  next
    case (Delete name)
    then show ?thesis using ok served delete_not_found [OF ok(1), of name] by simp
  qed
qed (auto simp: sizes_ok_def file_server_new_def start_def setup_routes_def stop_def split: sum.splits)

section \<open>Properties\<close>

text \<open>
  C39: Whatever a server has served, a delete request is answered with \<open>File not found\<close> and changes
  nothing: the path it looks up never is the path under which an upload or a download stored a
  mutex.
\<close>

theorem delete_never_removes:
  assumes "reachable dir limit s" "segment name"
  shows "delete_file io name s = (Inr (), [(Not_Found, ''File not found'')], s)"
  by (rule delete_not_found [OF reachable_ok [OF assms(1)] assms(2)])

text \<open>
  C25: With a limit of at least one chunk (512 bytes), and started over files that keep the limit, a
  file server never stores a file longer than the limit, whatever it is asked for and however often it
  is stopped and started. Without the first condition C38 shows how the limit is exceeded.
\<close>

theorem storage_limit:
  assumes "reachable dir limit s" "512 \<le> unat limit" "fs_files s p = Some c"
  shows "length c \<le> unat limit"
  using reachable_sizes [OF assms(1,2)] assms(3) by (simp add: sizes_ok_def)

text \<open>
  C38: The decision about a chunk, with the sizes as natural numbers. A chunk within the limit is
  appended exactly when it has at most 512 bytes and the sum stays within the limit, otherwise the
  whole file is removed. With a limit below the size of the chunk the subtraction wraps and the
  chunk is appended although it exceeds the limit.
\<close>

theorem upload_decision:
  assumes "length body < 2 ^ 64" "length (contents p s) < 2 ^ 63" "can_create io" "can_write io" "remove_fails io = None"
  shows "upload_to io p body s =
    (if 512 < length body
     then (Inr (), [(Bad_Request, ''Received raw data size is bigger than acceptable chunk size!'')],
           s\<lparr>fs_files := (fs_files s)(p := None)\<rparr>)
     else if length body \<le> unat (fs_max_file_size s) \<and>
        unat (fs_max_file_size s) < length (contents p s) + length body
     then (Inr (), [(Bad_Request, limit_text p (of_nat (length (contents p s))))],
           s\<lparr>fs_files := (fs_files s)(p := None)\<rparr>)
     else (Inr (), [(Ok_code, ''File uploaded successfully'')], append_to p body s))"
proof -
  note checks = size_checks [OF assms(1), of p s]
  have small: "length (contents p s) < 2 ^ 64" using assms(2) by simp
  show ?thesis
  proof (cases "512 < length body")
    case True
    then show ?thesis using checks(1) [OF small] assms(5)
      by (simp add: upload_to_def remove_and_return_def remove_file_def)
  next
    case False
    have "(file_size p s > fs_max_file_size s - of_nat (length body)) \<longleftrightarrow>
        length body \<le> unat (fs_max_file_size s) \<and> unat (fs_max_file_size s) < length (contents p s) + length body"
    proof (cases "length body \<le> unat (fs_max_file_size s)")
      case False
      then have "unat (fs_max_file_size s) < length body" by simp
      then show ?thesis using checks(4) [OF small] False \<open>\<not> 512 < length body\<close> assms(2) by simp
    qed (use checks(3) [OF small] in simp)
    then show ?thesis using False checks(1,2) [OF small] assms(3-5)
      by (simp add: upload_to_def remove_and_return_def remove_file_def)
  qed
qed

text \<open>A file system that refuses nothing.\<close>

definition willing_io :: io_outcome where
  "willing_io = \<lparr>make_directories = (\<lambda>_. Inr ()), can_create = True, can_write = True, written = 0,
     can_open = True, remove_fails = None\<rparr>"

definition willing :: "io_outcome \<Rightarrow> bool" where
  "willing io \<longleftrightarrow> (\<forall>p. make_directories io p = Inr ()) \<and> can_create io \<and> can_write io \<and> can_open io"

lemma valid_example [simp]: "is_valid_filename ''ABCDEFGHIJKLMNOP.txt''"
  by (simp add: is_valid_filename_def path_stem_def path_filename_def slash_def dot_def filename_len_def
      alphabet_def)

lemma example_path [simp]:
  "get_filepath_by_name willing_io s ''ABCDEFGHIJKLMNOP.txt'' =
     Inr (base (fs_storage_dir s) @ ''AB/CD/ABCDEFGHIJKLMNOP.txt'')"
  by (simp add: get_filepath_by_name_def substr_def willing_io_def path_append_def base_def slash_def)

definition example_server :: file_server where
  "example_server = snd (snd (serve willing_io (Upload ''ABCDEFGHIJKLMNOP.txt'' ''hello'')
     (file_server_new ''media'' 1000 (\<lambda>_. None))))"

lemma example_reachable: "reachable ''media'' 1000 example_server"
  unfolding example_server_def by (intro reachable.served reachable.initial) (simp_all add: segment_def slash_def)

lemma example_stored: "fs_files example_server ''media/AB/CD/ABCDEFGHIJKLMNOP.txt'' = Some ''hello''"
proof -
  let ?s = "file_server_new ''media'' 1000 (\<lambda>_. None)"
  define p where "p = ''media/AB/CD/ABCDEFGHIJKLMNOP.txt''"
  have "base (fs_storage_dir ?s) @ ''AB/CD/ABCDEFGHIJKLMNOP.txt'' = p"
    by (simp add: p_def base_def slash_def file_server_new_def)
  then have "example_server = snd (snd (upload_to willing_io p ''hello'' (get_or_create_mutex p ?s)))"
    by (simp add: example_server_def upload_file_def del: append.simps)
  moreover have "contents p ?s = []" "fs_max_file_size ?s = 1000"
    by (simp_all add: contents_def file_server_new_def)
  then have "upload_to willing_io p ''hello'' (get_or_create_mutex p ?s) =
      (Inr (), [(Ok_code, ''File uploaded successfully'')], append_to p ''hello'' (get_or_create_mutex p ?s))"
    using size_checks [of "''hello''" p "get_or_create_mutex p ?s"]
    by (simp add: upload_to_def willing_io_def)
  ultimately have stored: "example_server = append_to p ''hello'' (get_or_create_mutex p ?s)" by simp
  show ?thesis unfolding stored p_def [symmetric] using \<open>contents p ?s = []\<close>
    by (simp add: append_to_def contents_def get_or_create_mutex_def file_server_new_def)
qed

theorem delete_never_removes_witness:
  "delete_file willing_io ''ABCDEFGHIJKLMNOP.txt'' example_server =
     (Inr (), [(Not_Found, ''File not found'')], example_server) \<and>
   fs_files example_server ''media/AB/CD/ABCDEFGHIJKLMNOP.txt'' = Some ''hello''"
  using delete_never_removes [OF example_reachable, of "''ABCDEFGHIJKLMNOP.txt''" willing_io] example_stored
  by (simp add: segment_def slash_def)

theorem storage_limit_witness:
  "fs_files example_server ''media/AB/CD/ABCDEFGHIJKLMNOP.txt'' = Some ''hello'' \<and>
   length ''hello'' \<le> unat (1000 :: u64)"
  using storage_limit [OF example_reachable _ example_stored] example_stored by simp

theorem upload_decision_witness:
  "upload_to willing_io ''p'' ''0123456789'' (file_server_new ''media'' 9 (\<lambda>_. None)) =
     (Inr (), [(Ok_code, ''File uploaded successfully'')],
      append_to ''p'' ''0123456789'' (file_server_new ''media'' 9 (\<lambda>_. None)))"
proof -
  let ?s = "file_server_new ''media'' 9 (\<lambda>_. None)"
  have io: "can_create willing_io" "can_write willing_io" "remove_fails willing_io = None"
    by (simp_all add: willing_io_def)
  have "contents ''p'' ?s = []" "fs_max_file_size ?s = 9" by (simp_all add: contents_def file_server_new_def)
  then show ?thesis using upload_decision [of "''0123456789''" "''p''" ?s, OF _ _ io] by simp
qed

section \<open>Names\<close>

lemma path_filename_split:
  "\<exists>dir. s = dir @ path_filename s \<and> (dir = [] \<or> List.last dir = slash) \<and> slash \<notin> set (path_filename s)"
proof -
  define r where "r = dropWhile (\<lambda>c. c \<noteq> slash) (rev s)"
  have "rev (rev s) = rev (takeWhile (\<lambda>c. c \<noteq> slash) (rev s) @ r)"
    unfolding r_def takeWhile_dropWhile_id ..
  then have "s = rev r @ path_filename s" by (simp add: path_filename_def)
  moreover have "r = [] \<or> hd r = slash" using hd_dropWhile [of "\<lambda>c. c \<noteq> slash" "rev s"] by (auto simp: r_def)
  ultimately show ?thesis
    by (intro exI [of _ "rev r"]) (auto simp: path_filename_def last_rev dest: set_takeWhileD)
qed

lemma path_filename_append:
  assumes "slash \<notin> set f" "dir = [] \<or> List.last dir = slash"
  shows "path_filename (dir @ f) = f"
proof -
  have "takeWhile (\<lambda>c. c \<noteq> slash) (rev f @ rev dir) = rev f @ takeWhile (\<lambda>c. c \<noteq> slash) (rev dir)"
    using assms(1) by (intro takeWhile_append2) auto
  also have "takeWhile (\<lambda>c. c \<noteq> slash) (rev dir) = []"
    using assms(2) by (cases dir rule: rev_cases) auto
  finally show ?thesis by (simp add: path_filename_def)
qed

definition extension :: "string \<Rightarrow> bool" where
  "extension ext \<longleftrightarrow> ext = [] \<or> (\<exists>e. ext = dot # e \<and> dot \<notin> set e \<and> slash \<notin> set e)"

lemma alphabet_no_dot: "dot \<notin> set alphabet" "slash \<notin> set alphabet"
  by (simp_all add: alphabet_def dot_def slash_def)

lemma stem_with_extension:
  assumes "x \<noteq> []" "dot \<notin> set e" "dot \<notin> set x"
  shows "rev (tl (dropWhile (\<lambda>c. c \<noteq> dot) (rev (x @ dot # e)))) = x"
proof -
  have "dropWhile (\<lambda>c. c \<noteq> dot) (rev e @ dot # rev x) = dropWhile (\<lambda>c. c \<noteq> dot) (dot # rev x)"
    using assms(2) by (intro dropWhile_append2) auto
  then show ?thesis by simp
qed

lemma path_stem_split: "\<exists>ext. path_filename f = path_stem f @ ext \<and> extension ext"
proof -
  define g where "g = path_filename f"
  have noslash: "slash \<notin> set g" using path_filename_split [of f] by (auto simp: g_def)
  have "\<exists>ext. g = path_stem f @ ext \<and> extension ext"
  proof (cases "g = ''..'' \<or> dot \<notin> set (tl g)")
    case True
    then show ?thesis by (auto simp: path_stem_def g_def [symmetric] extension_def)
  next
    case False
    define e where "e = takeWhile (\<lambda>c. c \<noteq> dot) (rev g)"
    have "dropWhile (\<lambda>c. c \<noteq> dot) (rev g) \<noteq> []"
      using False by (cases g) (auto simp: dropWhile_eq_Nil_conv)
    then obtain y where "dropWhile (\<lambda>c. c \<noteq> dot) (rev g) = dot # y"
      using hd_dropWhile [of "\<lambda>c. c \<noteq> dot" "rev g"] by (cases "dropWhile (\<lambda>c. c \<noteq> dot) (rev g)") auto
    moreover from this have "rev g = e @ dot # y" by (metis e_def takeWhile_dropWhile_id)
    ultimately have "g = rev y @ dot # rev e" "path_stem f = rev y"
      using False by (simp_all add: path_stem_def g_def [symmetric] rev_swap)
    then show ?thesis using noslash
      by (intro exI [of _ "dot # rev e"]) (auto simp: extension_def e_def dest: set_takeWhileD)
  qed
  then show ?thesis by (simp add: g_def)
qed

lemma valid_name_parts:
  assumes str: "length str = 16" "set str \<subseteq> set alphabet" and ext: "extension ext"
    and f: "f = dir @ str @ ext" "dir = [] \<or> List.last dir = slash"
  shows "path_filename f = str @ ext" "path_stem f = str"
proof -
  have ok: "slash \<notin> set (str @ ext)" "dot \<notin> set str"
    using str(2) ext alphabet_no_dot by (auto simp: extension_def slash_def dot_def)
  then show g: "path_filename f = str @ ext" using path_filename_append f by metis
  show "path_stem f = str"
  proof (cases "ext = []")
    case True
    moreover have "dot \<notin> set (tl str)" using \<open>dot \<notin> set str\<close> by (cases str) auto
    ultimately show ?thesis using g by (simp add: path_stem_def)
  next
    case False
    then obtain e where e: "ext = dot # e" "dot \<notin> set e" using ext by (auto simp: extension_def)
    have "str \<noteq> []" "str @ ext \<noteq> ''..''" using str(1) by (auto dest: arg_cong [of "str @ ext" _ List.length])
    then show ?thesis using g e stem_with_extension [of str e] \<open>dot \<notin> set str\<close>
      by (simp add: path_stem_def Let_def)
  qed
qed

lemma valid_filename_shape:
  "is_valid_filename f \<longleftrightarrow>
     (\<exists>dir str ext. f = dir @ str @ ext \<and> (dir = [] \<or> List.last dir = slash) \<and>
        length str = 16 \<and> set str \<subseteq> set alphabet \<and> extension ext)"
proof
  assume valid: "is_valid_filename f"
  define g where "g = path_filename f"
  obtain dir where dir: "f = dir @ g" "dir = [] \<or> List.last dir = slash" "slash \<notin> set g"
    using path_filename_split [of f] by (auto simp: g_def)
  have str: "length (path_stem f) = 16" "set (path_stem f) \<subseteq> set alphabet"
    using valid by (auto simp: is_valid_filename_def filename_len_def Let_def list_all_iff list_ex_iff split: if_splits)
  have "\<exists>ext. g = path_stem f @ ext \<and> extension ext" using path_stem_split [of f] by (simp add: g_def)
  then show "\<exists>dir str ext. f = dir @ str @ ext \<and> (dir = [] \<or> List.last dir = slash) \<and>
        length str = 16 \<and> set str \<subseteq> set alphabet \<and> extension ext"
    using dir str by blast
next
  assume "\<exists>dir str ext. f = dir @ str @ ext \<and> (dir = [] \<or> List.last dir = slash) \<and>
        length str = 16 \<and> set str \<subseteq> set alphabet \<and> extension ext"
  then obtain dir str ext where f: "f = dir @ str @ ext" "dir = [] \<or> List.last dir = slash"
    and str: "length str = 16" "set str \<subseteq> set alphabet" and ext: "extension ext" by blast
  have "path_stem f = str" by (rule valid_name_parts(2) [OF str ext f])
  then show "is_valid_filename f"
    using str by (auto simp: is_valid_filename_def filename_len_def list_all_iff list_ex_iff)
qed

text \<open>
  A name is valid exactly when its last component is 16 characters of the alphabet, with or
  without an extension. The directories before the last component are not looked at.
\<close>

theorem valid_filename_exact:
  "is_valid_filename f \<longleftrightarrow>
     (\<exists>dir str ext. f = dir @ str @ ext \<and> (dir = [] \<or> List.last dir = slash) \<and>
        length str = 16 \<and> set str \<subseteq> set alphabet \<and> extension ext)"
  by (rule valid_filename_shape)

section \<open>A file in chunks\<close>

fun upload_chunks :: "io_outcome \<Rightarrow> string \<Rightarrow> string list \<Rightarrow> file_server \<Rightarrow> response list \<times> file_server" where
  "upload_chunks io name [] s = ([], s)"
| "upload_chunks io name (body # bodies) s =
     (let (_, rs, s1) = upload_file io name body s; (rs', s2) = upload_chunks io name bodies s1
      in (rs @ rs', s2))"

lemma read_chunks_unfold:
  "length c < 512 \<Longrightarrow> read_chunks c = [c]"
  "512 \<le> length c \<Longrightarrow> read_chunks c = take 512 c # read_chunks (drop 512 c)"
  by (subst read_chunks.simps, simp add: chunk_size_bytes_def)+

lemma read_chunks_not_Nil [simp]: "read_chunks c \<noteq> []"
  by (subst read_chunks.simps) simp

lemma read_chunks_facts:
  "concat (read_chunks c) = c \<and> length (read_chunks c) = length c div 512 + 1 \<and>
   (\<forall>x \<in> set (butlast (read_chunks c)). length x = 512) \<and> length (List.last (read_chunks c)) = length c mod 512"
proof (induction "length c" arbitrary: c rule: less_induct)
  case less
  show ?case
  proof (cases "length c < 512")
    case False
    then have "length (drop 512 c) < length c" by simp
    note IH = less [OF this]
    obtain a d where c: "c = a @ d" "length a = 512" "drop 512 c = d" "take 512 c = a"
      using False by (metis append_take_drop_id length_take linorder_not_less min.absorb2)
    have "read_chunks c = a # read_chunks d" using False c by (simp add: read_chunks_unfold(2))
    then show ?thesis using IH c by simp
  qed (simp add: read_chunks_unfold(1))
qed

lemma read_chunks_nonempty: "concat (takeWhile (\<lambda>b. b \<noteq> []) (read_chunks c)) = c"
proof (induction "length c" arbitrary: c rule: less_induct)
  case less
  show ?case
  proof (cases "length c < 512")
    case False
    then have "read_chunks c = take 512 c # read_chunks (drop 512 c)" "take 512 c \<noteq> []"
      by (auto simp: read_chunks_unfold(2))
    then show ?thesis using less [of "drop 512 c"] False by (cases c) auto
  qed (simp add: read_chunks_unfold(1))
qed

lemma upload_to_accepts:
  assumes "willing io" "length body \<le> 512" "length (contents p s) + length body \<le> unat (fs_max_file_size s)"
  shows "upload_to io p body s = (Inr (), [(Ok_code, ''File uploaded successfully'')], append_to p body s)"
proof -
  have "length (contents p s) < 2 ^ 64" "length body < 2 ^ 64"
    using assms(2,3) unat_less64 [of "fs_max_file_size s"] by simp_all
  note checks = size_checks [OF this(2,1)]
  show ?thesis using assms checks(1,3) by (simp add: upload_to_def willing_def)
qed

lemma upload_file_accepts:
  assumes "willing io" "is_valid_filename name" "get_filepath_by_name io s name = Inr p" "length body \<le> 512"
    and "length (contents p s) + length body \<le> unat (fs_max_file_size s)"
  shows "upload_file io name body s =
    (Inr (), [(Ok_code, ''File uploaded successfully'')], append_to p body (get_or_create_mutex p s))"
  using assms upload_to_accepts [of io body p "get_or_create_mutex p s"] by (simp add: upload_file_def)

lemma get_filepath_state [simp]:
  "get_filepath_by_name io (append_to p body s) name = get_filepath_by_name io s name"
  "get_filepath_by_name io (get_or_create_mutex p s) name = get_filepath_by_name io s name"
  by (simp_all add: get_filepath_by_name_def append_to_def get_or_create_mutex_def)

lemma append_to_simps [simp]:
  "fs_max_file_size (append_to p body s) = fs_max_file_size s"
  "fs_files (get_or_create_mutex p s) = fs_files s"
  by (simp_all add: append_to_def get_or_create_mutex_def)

lemma upload_chunks_stores:
  assumes "willing io" "is_valid_filename name" "get_filepath_by_name io s name = Inr p"
    and "\<forall>b \<in> set bodies. length b \<le> 512"
    and "length (contents p s) + length (concat bodies) \<le> unat (fs_max_file_size s)"
  shows "\<exists>s'. upload_chunks io name bodies s =
      (replicate (length bodies) (Ok_code, ''File uploaded successfully''), s') \<and>
    contents p s' = contents p s @ concat bodies \<and> get_filepath_by_name io s' name = Inr p \<and>
    (fs_files s' p = None \<longleftrightarrow> bodies = [] \<and> fs_files s p = None)"
  using assms(3-5)
proof (induction bodies arbitrary: s)
  case (Cons b bs)
  let ?s = "append_to p b (get_or_create_mutex p s)"
  have up: "upload_file io name b s = (Inr (), [(Ok_code, ''File uploaded successfully'')], ?s)"
    using assms(1,2) Cons.prems by (intro upload_file_accepts) simp_all
  have "\<exists>s'. upload_chunks io name bs ?s =
      (replicate (length bs) (Ok_code, ''File uploaded successfully''), s') \<and>
    contents p s' = contents p ?s @ concat bs \<and> get_filepath_by_name io s' name = Inr p \<and>
    (fs_files s' p = None \<longleftrightarrow> bs = [] \<and> fs_files ?s p = None)"
    by (rule Cons.IH) (use Cons.prems in simp_all)
  moreover have "fs_files ?s p \<noteq> None" by (simp add: append_to_def)
  ultimately show ?case using up by auto
qed (simp add: contents_def)

text \<open>
  A file uploaded in chunks of at most 512 bytes and within the limit is stored: every chunk is
  answered with success, and a download sends it back, cut into one response more than it has full
  chunks. The last response is empty exactly when the size is a multiple of 512.
\<close>

theorem upload_then_download:
  assumes "willing io" "is_valid_filename name" "get_filepath_by_name io s name = Inr p" "fs_files s p = None"
    and "bodies \<noteq> []" "\<forall>b \<in> set bodies. length b \<le> 512"
    and "length (concat bodies) \<le> unat (fs_max_file_size s)"
  shows "\<exists>s' s'' sent. upload_chunks io name bodies s =
      (replicate (length bodies) (Ok_code, ''File uploaded successfully''), s') \<and>
    download_file io name s' = (Inr (), map (\<lambda>chunk. (Ok_code, chunk)) sent, s'') \<and>
    concat sent = concat bodies \<and> length sent = length (concat bodies) div 512 + 1 \<and>
    (\<forall>chunk \<in> set (butlast sent). length chunk = 512) \<and>
    length (List.last sent) = length (concat bodies) mod 512"
proof -
  have "contents p s = []" using assms(4) by (simp add: contents_def)
  then obtain s' where s': "upload_chunks io name bodies s =
      (replicate (length bodies) (Ok_code, ''File uploaded successfully''), s')"
    "contents p s' = concat bodies" "get_filepath_by_name io s' name = Inr p" "fs_files s' p \<noteq> None"
    using upload_chunks_stores [OF assms(1-3,6)] assms(5,7) by auto
  then have "fs_files s' p = Some (concat bodies)" by (auto simp: contents_def)
  then have "download_file io name s' =
      (Inr (), map (\<lambda>chunk. (Ok_code, chunk)) (read_chunks (concat bodies)), get_or_create_mutex p s')"
    using s'(3) assms(1) by (simp add: download_file_def willing_def)
  then show ?thesis using s'(1) read_chunks_facts [of "concat bodies"] by blast
qed

theorem upload_then_download_witness:
  "\<exists>s' s'' sent.
    upload_chunks willing_io ''ABCDEFGHIJKLMNOP.txt'' [''abc'', ''de''] (file_server_new ''media'' 1000 (\<lambda>_. None)) =
      ([(Ok_code, ''File uploaded successfully''), (Ok_code, ''File uploaded successfully'')], s') \<and>
    download_file willing_io ''ABCDEFGHIJKLMNOP.txt'' s' = (Inr (), map (\<lambda>chunk. (Ok_code, chunk)) sent, s'') \<and>
    concat sent = ''abcde'' \<and> length sent = 1"
proof -
  have io: "willing willing_io" by (simp add: willing_def willing_io_def)
  define s where "s = file_server_new ''media'' 1000 (\<lambda>_. None)"
  have s: "fs_files s p = None" "fs_max_file_size s = 1000" for p by (simp_all add: s_def file_server_new_def)
  from upload_then_download [OF io valid_example example_path s(1), of "[''abc'', ''de'']"]
  show ?thesis unfolding s_def [symmetric]
    by (simp add: s(2) del: upload_chunks.simps) blast
qed

end
