(* ===== verification/File_Client.thy ===== *)
theory File_Client
  imports File_Server
begin

text \<open>
  \<open>file_server/src/file_server_client.cpp\<close>: the HTTP client that the chat server uses to store
  files and to get them back. Boost.Beast and the connection are the argument \<open>'n http_ops\<close>, over
  a type \<open>'n\<close> of network states.
\<close>

section \<open>Boost.Beast\<close>

datatype http_verb = Get_verb | Post_verb | Delete_verb

record http_request =
  rq_method :: http_verb
  rq_target :: string
  rq_fields :: "(string \<times> string) list"
  rq_body :: string

datatype http_error = End_of_stream | Read_error exn

text \<open>
  \<open>http_read\<close> takes the dynamic buffer, which holds what was received behind the message before, and
  the body that the message object already has; it gives an error or the body of the message, and
  what it leaves in the buffer. \<open>http_shutdown\<close> gives the error code, none when it is
  \<open>not_connected\<close>; \<open>what\<close> is the text of an exception.
\<close>

record 'n http_ops =
  http_connect :: "string \<Rightarrow> string \<Rightarrow> 'n \<Rightarrow> (exn + unit) \<times> 'n"
  http_write :: "http_request \<Rightarrow> 'n \<Rightarrow> (exn + unit) \<times> 'n"
  http_read :: "string \<Rightarrow> string \<Rightarrow> 'n \<Rightarrow> (http_error + string) \<times> string \<times> 'n"
  http_shutdown :: "'n \<Rightarrow> exn option \<times> 'n"
  what :: "exn \<Rightarrow> string"
  beast_version :: string

text \<open>A read into a new buffer and a new message; without an error code it throws every error.\<close>

definition read_or_throw :: "'n http_ops \<Rightarrow> 'n \<Rightarrow> (exn + string) \<times> 'n" where
  "read_or_throw N n =
     (case http_read N [] [] n of
        (Inl End_of_stream, _, n') \<Rightarrow> (Inl (Library_error ''end of stream''), n')
      | (Inl (Read_error e), _, n') \<Rightarrow> (Inl e, n')
      | (Inr body, _, n') \<Rightarrow> (Inr body, n'))"

section \<open>The client\<close>

record file_client =
  fc_host :: string
  fc_port :: string

definition file_client_new :: "string \<Rightarrow> string \<Rightarrow> file_client" where
  "file_client_new host port = \<lparr>fc_host = host, fc_port = port\<rparr>"

definition send_request ::
    "'n http_ops \<Rightarrow> file_client \<Rightarrow> string \<Rightarrow> http_verb \<Rightarrow> string \<Rightarrow> 'n \<Rightarrow> (exn + string) \<times> 'n" where
  "send_request N c target method body n =
     catch_with
       (then_do (http_connect N (fc_host c) (fc_port c) n) (\<lambda>_ n.
         then_do (http_write N
             \<lparr>rq_method = method, rq_target = target,
              rq_fields = [(''Host'', fc_host c), (''User-Agent'', beast_version N)],
              rq_body = body\<rparr> n) (\<lambda>_ n.
           then_do (read_or_throw N n) (\<lambda>response_body n.
             case http_shutdown N n of
               (Some e, n') \<Rightarrow> (Inl e, n')
             | (None, n') \<Rightarrow> (Inr response_body, n')))))
       (\<lambda>e. ''Error'' @ what N e)"

definition upload_chunk ::
    "'n http_ops \<Rightarrow> file_client \<Rightarrow> string \<Rightarrow> string \<Rightarrow> 'n \<Rightarrow> (exn + bool) \<times> 'n" where
  "upload_chunk N c filename chunk_data n =
     or_else
       (then_do (http_connect N (fc_host c) (fc_port c) n) (\<lambda>_ n.
         then_do (http_write N
             \<lparr>rq_method = Post_verb, rq_target = ''/upload/'' @ filename,
              rq_fields = [(''Host'', fc_host c), (''User-Agent'', beast_version N),
                (''Content-Type'', ''application/octet-stream'')],
              rq_body = chunk_data\<rparr> n) (\<lambda>_ n.
           then_do (read_or_throw N n) (\<lambda>response_body n.
             case http_shutdown N n of
               (Some e, n') \<Rightarrow> (Inr False, n')
             | (None, n') \<Rightarrow> (Inr (response_body = ''File uploaded successfully''), n')))))
       False"

text \<open>
  The loop collects the bodies until the stream ends or one is empty; another error is thrown, and
  the chunks collected so far survive it. The loop may go on as long as bodies arrive. Every round
  clears the buffer, with all that it holds; \<open>res.clear()\<close> clears the header fields of the message,
  so its body is still the one of the round before.
\<close>

partial_function (option) download_loop ::
    "'n http_ops \<Rightarrow> string \<Rightarrow> string \<Rightarrow> string list \<Rightarrow> 'n \<Rightarrow> (string list \<times> (exn + unit) \<times> 'n) option" where
  "download_loop N buffer body chunks n =
     (let buffer = [] in
      case http_read N buffer body n of (r, buffer, n') \<Rightarrow>
       (case r of
          Inl End_of_stream \<Rightarrow> Some (chunks, Inr (), n')
        | Inl (Read_error e) \<Rightarrow> Some (chunks, Inl e, n')
        | Inr chunk_data \<Rightarrow>
            (if chunk_data = [] then Some (chunks, Inr (), n')
             else download_loop N buffer chunk_data (chunks @ [chunk_data]) n')))"

definition download_file_chunks ::
    "'n http_ops \<Rightarrow> file_client \<Rightarrow> string \<Rightarrow> 'n \<Rightarrow> ((exn + string list) \<times> 'n) option" where
  "download_file_chunks N c filename n =
     (case then_do (http_connect N (fc_host c) (fc_port c) n) (\<lambda>_ n.
         http_write N
           \<lparr>rq_method = Get_verb, rq_target = ''/download/'' @ filename,
            rq_fields = [(''Host'', fc_host c), (''User-Agent'', beast_version N)], rq_body = []\<rparr> n) of
        (Inl e, n1) \<Rightarrow> Some (or_else (Inl e, n1) [])
      | (Inr _, n1) \<Rightarrow>
          (case download_loop N [] [] [] n1 of
             None \<Rightarrow> None
           | Some (chunks, Inl e, n2) \<Rightarrow> Some (or_else (Inl e, n2) chunks)
           | Some (chunks, Inr _, n2) \<Rightarrow>
               (case http_shutdown N n2 of
                  (Some e, n3) \<Rightarrow> Some (or_else (Inl e, n3) chunks)
                | (None, n3) \<Rightarrow> Some (Inr chunks, n3))))"

definition client_download_file ::
    "'n http_ops \<Rightarrow> file_client \<Rightarrow> string \<Rightarrow> 'n \<Rightarrow> (exn + string) \<times> 'n" where
  "client_download_file N c filename n = send_request N c (''/download/'' @ filename) Get_verb [] n"

definition client_delete_file ::
    "'n http_ops \<Rightarrow> file_client \<Rightarrow> string \<Rightarrow> 'n \<Rightarrow> (exn + string) \<times> 'n" where
  "client_delete_file N c filename n = send_request N c (''/delete/'' @ filename) Delete_verb [] n"


section \<open>The download loop\<close>

text \<open>
  The body that the next round reads, empty for an error, when the message still has the body
  \<open>fst m\<close> and the network is \<open>snd m\<close>; and what a number of rounds make of the two.
\<close>

definition body_at :: "'n http_ops \<Rightarrow> string \<times> 'n \<Rightarrow> string" where
  "body_at N m = (case fst (http_read N [] (fst m) (snd m)) of Inl _ \<Rightarrow> [] | Inr b \<Rightarrow> b)"

definition next_read :: "'n http_ops \<Rightarrow> string \<times> 'n \<Rightarrow> string \<times> 'n" where
  "next_read N m = (body_at N m, snd (snd (http_read N [] (fst m) (snd m))))"

definition after_reads :: "'n http_ops \<Rightarrow> nat \<Rightarrow> string \<times> 'n \<Rightarrow> string \<times> 'n" where
  "after_reads N k = next_read N ^^ k"

lemma after_reads_simps [simp]:
  "after_reads N 0 m = m" "after_reads N (Suc k) m = after_reads N k (next_read N m)"
  by (simp_all add: after_reads_def funpow_swap1)

lemma download_loop_stop:
  "body_at N (b, n) = [] \<Longrightarrow> \<exists>r n'. download_loop N buffer b cs n = Some (cs, r, n') \<and>
    (\<forall>e. r = Inl e \<longrightarrow> fst (http_read N [] b n) = Inl (Read_error e))"
  by (subst download_loop.simps) (auto simp: body_at_def Let_def split: prod.splits sum.splits http_error.splits)

lemma download_loop_go:
  "body_at N (b, n) \<noteq> [] \<Longrightarrow> download_loop N buffer b cs n =
    download_loop N (fst (snd (http_read N [] b n))) (fst (next_read N (b, n))) (cs @ [body_at N (b, n)]) (snd (next_read N (b, n)))"
  by (subst download_loop.simps) (auto simp: body_at_def next_read_def Let_def split: prod.splits sum.splits)

lemma download_loop_collects:
  "(\<And>i. i < k \<Longrightarrow> body_at N (after_reads N i m) \<noteq> []) \<Longrightarrow> body_at N (after_reads N k m) = [] \<Longrightarrow>
   \<exists>r n'. download_loop N buffer (fst m) cs (snd m) = Some (cs @ map (\<lambda>i. body_at N (after_reads N i m)) [0..<k], r, n') \<and>
     (\<forall>e. r = Inl e \<longrightarrow> (\<exists>b n. fst (http_read N [] b n) = Inl (Read_error e)))"
proof (induction k arbitrary: m cs buffer)
  case 0
  then show ?case using download_loop_stop [of N "fst m" "snd m" buffer cs] by fastforce
next
  case (Suc k)
  have "body_at N (fst m, snd m) \<noteq> []" using Suc.prems(1) [of 0] by simp
  note go = download_loop_go [OF this, of buffer cs]
  have "\<And>i. i < k \<Longrightarrow> body_at N (after_reads N i (next_read N m)) \<noteq> []"
    using Suc.prems(1) [of "Suc i" for i] by simp
  moreover have "map (\<lambda>i. body_at N (after_reads N i m)) [0..<Suc k] =
      body_at N m # map (\<lambda>i. body_at N (after_reads N i (next_read N m))) [0..<k]"
    by (simp add: upt_conv_Cons flip: map_Suc_upt del: upt_Suc)
  ultimately show ?case
    using Suc.IH [of "next_read N m" "fst (snd (http_read N [] (fst m) (snd m)))" "cs @ [body_at N m]"] Suc.prems(2) go
    by (simp del: upt_Suc)
qed

lemma download_loop_returns_stops:
  assumes "download_loop N buffer b cs n = Some r"
  shows "\<exists>k. body_at N (after_reads N k (b, n)) = []"
proof (rule download_loop.raw_induct [where P = "\<lambda>N buffer b cs n r. \<exists>k. body_at N (after_reads N k (b, n)) = []", OF _ assms])
  fix loop :: "'b http_ops \<Rightarrow> string \<Rightarrow> string \<Rightarrow> string list \<Rightarrow> 'b \<Rightarrow> (string list \<times> (exn + unit) \<times> 'b) option"
    and N buffer b cs n r
  assume IH: "\<And>N buffer b cs n r. loop N buffer b cs n = Some r \<Longrightarrow> \<exists>k. body_at N (after_reads N k (b, n)) = []"
    and eq: "(let buffer = [] in case http_read N buffer b n of (r, buffer, n') \<Rightarrow> (case r of
        Inl End_of_stream \<Rightarrow> Some (cs, Inr (), n') | Inl (Read_error e) \<Rightarrow> Some (cs, Inl e, n')
      | Inr chunk_data \<Rightarrow> (if chunk_data = [] then Some (cs, Inr (), n')
          else loop N buffer chunk_data (cs @ [chunk_data]) n'))) = Some r"
  show "\<exists>k. body_at N (after_reads N k (b, n)) = []"
  proof (cases "body_at N (b, n) = []")
    case False
    then obtain left where "loop N left (fst (next_read N (b, n))) (cs @ [body_at N (b, n)]) (snd (next_read N (b, n))) = Some r"
      using eq by (auto simp: body_at_def next_read_def Let_def split: prod.splits sum.splits)
    then obtain k where "body_at N (after_reads N k (next_read N (b, n))) = []" using IH by fastforce
    then show ?thesis by (intro exI [of _ "Suc k"]) simp
  qed (auto intro: exI [of _ 0])
qed

definition no_ub :: "'n http_ops \<Rightarrow> bool" where
  "no_ub N \<longleftrightarrow> (\<forall>b n m. fst (http_read N [] b n) \<noteq> Inl (Read_error (Undefined_behaviour m))) \<and>
     (\<forall>n m. fst (http_shutdown N n) \<noteq> Some (Undefined_behaviour m))"

lemma no_ub_read: "no_ub N \<Longrightarrow> fst (http_read N [] b n) \<noteq> Inl (Read_error (Undefined_behaviour m))"
  and no_ub_shutdown: "no_ub N \<Longrightarrow> http_shutdown N n = (ec, n') \<Longrightarrow> ec \<noteq> Some (Undefined_behaviour m)"
  unfolding no_ub_def by (blast, metis fst_conv)

lemma or_else_Inl: "(\<And>m. e \<noteq> Undefined_behaviour m) \<Longrightarrow> or_else (Inl e, n) x = (Inr x, n)"
  unfolding or_else_def fst_conv snd_conv by (subst catch_std_Inl) auto

section \<open>Properties\<close>

text \<open>
  Once connected, a download returns exactly when some round reads an error, the end of the
  stream or an empty body; then it returns the bodies of all rounds before the first such one,
  whatever the error. While nonempty bodies keep arriving it does not return. Every round but the
  first reads into a message that has the body of the round before.
\<close>

theorem download_collects:
  assumes "no_ub N" "http_connect N (fc_host c) (fc_port c) n = (Inr (), n0)"
    and "http_write N \<lparr>rq_method = Get_verb, rq_target = ''/download/'' @ name,
        rq_fields = [(''Host'', fc_host c), (''User-Agent'', beast_version N)], rq_body = []\<rparr> n0 = (Inr (), n1)"
  shows "if \<exists>k. body_at N (after_reads N k ([], n1)) = []
    then \<exists>n2. download_file_chunks N c name n =
      Some (Inr (map (\<lambda>i. body_at N (after_reads N i ([], n1)))
        [0..<(LEAST k. body_at N (after_reads N k ([], n1)) = [])]), n2)
    else download_file_chunks N c name n = None"
proof (cases "\<exists>k. body_at N (after_reads N k ([], n1)) = []")
  case True
  define k where "k = (LEAST k. body_at N (after_reads N k ([], n1)) = [])"
  have "body_at N (after_reads N k ([], n1)) = []" unfolding k_def using True by (rule LeastI_ex)
  moreover have "body_at N (after_reads N i ([], n1)) \<noteq> []" if "i < k" for i
    using that unfolding k_def by (rule not_less_Least)
  ultimately obtain r n2 where loop:
      "download_loop N [] [] [] n1 = Some (map (\<lambda>i. body_at N (after_reads N i ([], n1))) [0..<k], r, n2)"
    and err: "\<forall>e. r = Inl e \<longrightarrow> (\<exists>b m. fst (http_read N [] b m) = Inl (Read_error e))"
    using download_loop_collects [of k N "([], n1)" "[]" "[]"] by auto
  have "\<exists>n3. download_file_chunks N c name n = Some (Inr (map (\<lambda>i. body_at N (after_reads N i ([], n1))) [0..<k]), n3)"
  proof (cases r)
    case (Inl e)
    then obtain b m where "fst (http_read N [] b m) = Inl (Read_error e)" using err by blast
    then have "e \<noteq> Undefined_behaviour s" for s using no_ub_read [OF assms(1), of b m s] by auto
    then show ?thesis using assms(2,3) loop Inl by (simp add: download_file_chunks_def or_else_Inl)
  next
    case (Inr u)
    obtain ec n3 where shut: "http_shutdown N n2 = (ec, n3)" by fastforce
    have "ec \<noteq> Some (Undefined_behaviour m)" for m
      using no_ub_shutdown [OF assms(1) shut] .
    then show ?thesis using shut assms(2,3) loop Inr
      by (cases ec) (simp_all add: download_file_chunks_def or_else_Inl)
  qed
  then show ?thesis by (simp only: True if_True k_def)
next
  case False
  have "download_loop N [] [] [] n1 = None"
    using download_loop_returns_stops [of N "[]" "[]" "[]" n1] False by (cases "download_loop N [] [] [] n1") blast+
  then have "download_file_chunks N c name n = None" using assms(2,3) by (simp add: download_file_chunks_def)
  then show ?thesis by (simp only: False if_False)
qed

section \<open>Client and server together\<close>

text \<open>
  A network that brings a chunk with a valid name to the file server, which handles it, and the one
  response that the handler sends back, read into a new buffer and a new message. \<open>srv\<close> is the
  server behind the network. Nothing is said of downloads, where the handler sends one response
  after another for one request, and the client reads them all into one message.
\<close>

definition http_uploads :: "'n http_ops \<Rightarrow> io_outcome \<Rightarrow> ('n \<Rightarrow> file_server) \<Rightarrow> bool" where
  "http_uploads N io srv \<longleftrightarrow>
     (\<forall>host port n. \<exists>n'. http_connect N host port n = (Inr (), n') \<and> srv n' = srv n) \<and>
     (\<forall>name hs body code t s' n. is_valid_filename name \<longrightarrow> length body \<le> chunk_size_bytes \<longrightarrow>
        upload_file io name body (srv n) = (Inr (), [(code, t)], s') \<longrightarrow>
        (\<exists>n1 left n2. http_write N \<lparr>rq_method = Post_verb, rq_target = ''/upload/'' @ name, rq_fields = hs, rq_body = body\<rparr> n =
            (Inr (), n1) \<and> http_read N [] [] n1 = (Inr t, left, n2) \<and> srv n2 = s')) \<and>
     (\<forall>n. \<exists>n'. http_shutdown N n = (None, n') \<and> srv n' = srv n)"

lemma http_uploads_facts:
  assumes "http_uploads N io srv"
  shows "\<exists>n'. http_connect N host port n = (Inr (), n') \<and> srv n' = srv n"
    and "is_valid_filename name \<Longrightarrow> length body \<le> chunk_size_bytes \<Longrightarrow>
      upload_file io name body (srv n) = (Inr (), [(code, t)], s') \<Longrightarrow>
      \<exists>n1 left n2. http_write N \<lparr>rq_method = Post_verb, rq_target = ''/upload/'' @ name, rq_fields = hs, rq_body = body\<rparr> n =
        (Inr (), n1) \<and> http_read N [] [] n1 = (Inr t, left, n2) \<and> srv n2 = s'"
    and "\<exists>n'. http_shutdown N n = (None, n') \<and> srv n' = srv n"
  using assms unfolding http_uploads_def by (elim conjE; erule allE; assumption | elim conjE; blast)+

lemma upload_chunk_through:
  assumes "http_uploads N io srv" "is_valid_filename name" "length body \<le> 512"
    and "upload_file io name body (srv n) = (Inr (), [(code, t)], s')"
  shows "\<exists>n'. upload_chunk N c name body n = (Inr (t = ''File uploaded successfully''), n') \<and> srv n' = s'"
proof -
  obtain n1 where n1: "http_connect N (fc_host c) (fc_port c) n = (Inr (), n1)" "srv n1 = srv n"
    using http_uploads_facts(1) [OF assms(1)] by blast
  have up: "upload_file io name body (srv n1) = (Inr (), [(code, t)], s')" using assms(4) n1(2) by simp
  have small: "length body \<le> chunk_size_bytes" using assms(3) by (simp add: chunk_size_bytes_def)
  obtain n2 left n3 where n2: "http_write N \<lparr>rq_method = Post_verb, rq_target = ''/upload/'' @ name,
      rq_fields = [(''Host'', fc_host c), (''User-Agent'', beast_version N),
        (''Content-Type'', ''application/octet-stream'')], rq_body = body\<rparr> n1 = (Inr (), n2)"
    "http_read N [] [] n2 = (Inr t, left, n3)" "srv n3 = s'"
    using http_uploads_facts(2) [OF assms(1,2) small up] by blast
  obtain n4 where n4: "http_shutdown N n3 = (None, n4)" "srv n4 = s'"
    using http_uploads_facts(3) [OF assms(1), of n3] n2(3) by auto
  show ?thesis using n1(1) n2(1,2) n4 by (simp add: upload_chunk_def read_or_throw_def)
qed

fun send_chunks :: "'n http_ops \<Rightarrow> file_client \<Rightarrow> string \<Rightarrow> string list \<Rightarrow> 'n \<Rightarrow> (exn + bool) list \<times> 'n" where
  "send_chunks N c name [] n = ([], n)"
| "send_chunks N c name (body # bodies) n =
     (let (r, n1) = upload_chunk N c name body n; (rs, n2) = send_chunks N c name bodies n1 in (r # rs, n2))"

lemma send_chunks_through:
  assumes "http_uploads N io srv" "willing io" "is_valid_filename name"
    and "get_filepath_by_name io (srv n) name = Inr p" "\<forall>b \<in> set bodies. length b \<le> 512"
    and "length (contents p (srv n)) + length (concat bodies) \<le> unat (fs_max_file_size (srv n))"
  shows "\<exists>n'. send_chunks N c name bodies n = (replicate (length bodies) (Inr True), n') \<and>
    srv n' = snd (upload_chunks io name bodies (srv n))"
  using assms(4-6)
proof (induction bodies arbitrary: n)
  case (Cons b bs)
  let ?s = "append_to p b (get_or_create_mutex p (srv n))"
  have up: "upload_file io name b (srv n) = (Inr (), [(Ok_code, ''File uploaded successfully'')], ?s)"
    using assms(2,3) Cons.prems by (intro upload_file_accepts) simp_all
  obtain n1 where n1: "upload_chunk N c name b n = (Inr True, n1)" "srv n1 = ?s"
    using upload_chunk_through [OF assms(1,3) _ up, of c] Cons.prems(2) by auto
  obtain n' where "send_chunks N c name bs n1 = (replicate (length bs) (Inr True), n')"
    "srv n' = snd (upload_chunks io name bs ?s)"
    using Cons.IH [of n1] Cons.prems n1(2) by auto
  then show ?case using n1(1) up by (simp add: split_beta)
qed simp

text \<open>
  Sending a file to the file server in chunks of at most 512 bytes stores it: every chunk is
  accepted, and the stored file is the chunks joined, behind what was stored before.
\<close>

theorem file_through_client:
  assumes "http_uploads N io srv" "willing io" "is_valid_filename name"
    and "get_filepath_by_name io (srv n) name = Inr p"
    and "bodies \<noteq> []" "\<forall>b \<in> set bodies. length b \<le> 512"
    and "length (contents p (srv n)) + length (concat bodies) \<le> unat (fs_max_file_size (srv n))"
  shows "\<exists>n1. send_chunks N c name bodies n = (replicate (length bodies) (Inr True), n1) \<and>
    fs_files (srv n1) p = Some (contents p (srv n) @ concat bodies)"
proof -
  obtain n1 where n1: "send_chunks N c name bodies n = (replicate (length bodies) (Inr True), n1)"
    "srv n1 = snd (upload_chunks io name bodies (srv n))"
    using send_chunks_through [OF assms(1-4,6), of c] assms(7) by auto
  have "contents p (srv n1) = contents p (srv n) @ concat bodies" "fs_files (srv n1) p \<noteq> None"
    using upload_chunks_stores [OF assms(2-4,6)] assms(5,7) n1(2) by auto
  then have "fs_files (srv n1) p = Some (contents p (srv n) @ concat bodies)" by (auto simp: contents_def)
  then show ?thesis using n1(1) by blast
qed

text \<open>
  A network in memory that keeps the laws, with the responses that are on their way. A read puts the
  body behind what the message has, as a dynamic body does.
\<close>

definition loop_write :: "io_outcome \<Rightarrow> http_request \<Rightarrow> file_server \<times> string list \<Rightarrow> file_server \<times> string list" where
  "loop_write io rq n =
     (let result = (if rq_method rq = Post_verb then upload_file io (drop 8 (rq_target rq)) (rq_body rq) (fst n)
        else if rq_method rq = Get_verb then download_file io (drop 10 (rq_target rq)) (fst n)
        else delete_file io (drop 8 (rq_target rq)) (fst n))
      in (snd (snd result), map snd (fst (snd result))))"

definition loop_network :: "io_outcome \<Rightarrow> (file_server \<times> string list) http_ops" where
  "loop_network io =
     \<lparr>http_connect = (\<lambda>host port n. (Inr (), n)), http_write = (\<lambda>rq n. (Inr (), loop_write io rq n)),
      http_read = (\<lambda>buffer body n.
        (case snd n of [] \<Rightarrow> Inl End_of_stream | b # _ \<Rightarrow> Inr (body @ b), [], (fst n, tl (snd n)))),
      http_shutdown = (\<lambda>n. (None, n)), what = (\<lambda>_. []), beast_version = ''Boost.Beast''\<rparr>"

lemma loop_network_uploads: "http_uploads (loop_network io) io fst"
  by (simp add: http_uploads_def loop_network_def loop_write_def Let_def)

lemma loop_network_no_ub: "no_ub (loop_network io)"
  by (simp add: no_ub_def loop_network_def split: list.splits)

lemma loop_network_downloads: "download_file_chunks (loop_network io) c name n \<noteq> None"
proof -
  have loop: "\<exists>cs' n'. download_loop (loop_network io) buffer body cs n = Some (cs', Inr (), n')" for buffer body cs n
  proof (induction "snd n" arbitrary: n buffer body cs)
    case Nil
    then show ?case by (subst download_loop.simps) (simp add: loop_network_def Let_def)
  next
    case (Cons b bs)
    have "snd n = b # bs" using Cons.hyps(2) by simp
    then show ?case using Cons.hyps(1) [of "(fst n, bs)" "[]" "body @ b" "cs @ [body @ b]"]
      by (subst download_loop.simps) (simp add: loop_network_def Let_def)
  qed
  obtain n1 where "then_do (http_connect (loop_network io) (fc_host c) (fc_port c) n) (\<lambda>_ n.
       http_write (loop_network io)
         \<lparr>rq_method = Get_verb, rq_target = ''/download/'' @ name,
          rq_fields = [(''Host'', fc_host c), (''User-Agent'', beast_version (loop_network io))], rq_body = []\<rparr> n) = (Inr (), n1)"
    by (simp add: loop_network_def)
  moreover obtain cs n2 where "download_loop (loop_network io) [] [] [] n1 = Some (cs, Inr (), n2)"
    using loop by blast
  moreover have "http_shutdown (loop_network io) m = (None, m)" for m by (simp add: loop_network_def)
  ultimately show ?thesis by (simp add: download_file_chunks_def)
qed

theorem file_through_client_witness:
  "\<exists>n1. send_chunks (loop_network willing_io) (file_client_new ''host'' ''9080'') ''ABCDEFGHIJKLMNOP.txt'' [''abc'', ''de'']
      (file_server_new ''media'' 1000 (\<lambda>_. None), []) = ([Inr True, Inr True], n1) \<and>
    fs_files (fst n1) ''media/AB/CD/ABCDEFGHIJKLMNOP.txt'' = Some ''abcde''"
proof -
  have io: "willing willing_io" by (simp add: willing_def willing_io_def)
  define s where "s = file_server_new ''media'' 1000 (\<lambda>_. None)"
  have s: "contents p s = []" "fs_max_file_size s = 1000" for p by (simp_all add: s_def file_server_new_def contents_def)
  have path: "base (fs_storage_dir s) @ ''AB/CD/ABCDEFGHIJKLMNOP.txt'' = ''media/AB/CD/ABCDEFGHIJKLMNOP.txt''"
    by (simp add: s_def file_server_new_def base_def slash_def)
  have "get_filepath_by_name willing_io (fst (s, [] :: string list)) ''ABCDEFGHIJKLMNOP.txt'' =
      Inr ''media/AB/CD/ABCDEFGHIJKLMNOP.txt''"
    unfolding fst_conv path [symmetric] by (rule example_path)
  from file_through_client [OF loop_network_uploads io valid_example this,
      of "[''abc'', ''de'']" "file_client_new ''host'' ''9080''"]
  show ?thesis unfolding s_def [symmetric] by (simp add: s del: send_chunks.simps)
qed

theorem download_collects_witness:
  "\<exists>n2. download_file_chunks (loop_network willing_io) (file_client_new ''host'' ''9080'') ''x''
    (file_server_new ''media'' 1000 (\<lambda>_. None), []) = Some (Inr [], n2)"
proof -
  let ?N = "loop_network willing_io" and ?n = "(file_server_new ''media'' 1000 (\<lambda>_. None), [])"
  let ?c = "file_client_new ''host'' ''9080''"
  define rq where "rq = \<lparr>rq_method = Get_verb, rq_target = ''/download/x'',
     rq_fields = [(''Host'', fc_host ?c), (''User-Agent'', beast_version ?N)], rq_body = []\<rparr>"
  have result: "download_file willing_io ''x'' (fst ?n) = (Inl (Out_of_range ''basic_string::substr''), [], fst ?n)"
    by (simp add: download_file_def get_filepath_by_name_def substr_def)
  have "loop_write willing_io rq ?n = ?n" using result by (simp add: loop_write_def rq_def)
  then have conn: "http_connect ?N (fc_host ?c) (fc_port ?c) ?n = (Inr (), ?n)"
    and wr: "http_write ?N rq ?n = (Inr (), ?n)"
    by (simp_all add: loop_network_def)
  have stop: "body_at ?N (after_reads ?N 0 ([], ?n)) = []" by (simp add: body_at_def loop_network_def)
  then have "(LEAST k. body_at ?N (after_reads ?N k ([], ?n)) = []) = 0" by (intro Least_equality) auto
  moreover have "\<exists>k. body_at ?N (after_reads ?N k ([], ?n)) = []" using stop by blast
  ultimately show ?thesis
    using download_collects [OF loop_network_no_ub conn, of "''x''" ?n] wr [unfolded rq_def] by simp
qed

end
