(* ===== verification/Redis_Config.thy ===== *)
theory Redis_Config
  imports Text_Format
begin

text \<open>
  The connection string of the message texts (\<open>server/src/message_text_repository.cpp\<close>), matched
  by the pattern \<open>redis://(?:(\w+):)?([^@]+)@([\w.]+):(\d+)(?:/(\d+))?\<close>, and the constructor that
  connects. The pattern has one way to match: the password ends at the first \<open>@\<close>, the host at the
  first colon behind it, and a leading word with a colon is the user whenever something is left for
  the password. The defaults of \<open>sw::redis::ConnectionOptions\<close> are an argument.
\<close>

record redis_options =
  redis_user :: string
  redis_password :: string
  redis_host :: string
  redis_port :: i32
  redis_db :: i32

definition word_char :: "char \<Rightarrow> bool" where
  "word_char c \<longleftrightarrow> digit c \<or> 65 \<le> (of_char c :: nat) \<and> of_char c \<le> (90 :: nat) \<or>
     97 \<le> (of_char c :: nat) \<and> of_char c \<le> (122 :: nat) \<or> c = CHR ''_''"

text \<open>\<open>std::stoi\<close> of a nonempty string of digits.\<close>

definition stoi_digits :: "string \<Rightarrow> exn + i32" where
  "stoi_digits ds =
     (if digits_value 0 ds < 2147483648 then Inr (of_nat (digits_value 0 ds))
      else Inl (Out_of_range ''stoi''))"

text \<open>The part before a character, and the part behind it when it occurs.\<close>

definition until :: "char \<Rightarrow> string \<Rightarrow> string" where
  "until c s = takeWhile (\<lambda>x. x \<noteq> c) s"

definition behind :: "char \<Rightarrow> string \<Rightarrow> string option" where
  "behind c s = (case dropWhile (\<lambda>x. x \<noteq> c) s of [] \<Rightarrow> None | _ # t \<Rightarrow> Some t)"

text \<open>User, when the optional group matches, and password.\<close>

definition split_login :: "string \<Rightarrow> string option \<times> string" where
  "split_login login =
     (case behind (CHR '':'') login of
        Some pass \<Rightarrow>
          (if until (CHR '':'') login \<noteq> [] \<and> list_all word_char (until (CHR '':'') login) \<and> pass \<noteq> []
           then (Some (until (CHR '':'') login), pass) else (None, login))
      | None \<Rightarrow> (None, login))"

definition bad_format :: exn where
  "bad_format =
     Invalid_argument ''[MessageTextRepository::parse_config_string] Invalid connection string format''"

definition parse_config_string :: "redis_options \<Rightarrow> string \<Rightarrow> exn + redis_options" where
  "parse_config_string defaults s =
     (if take 8 s \<noteq> ''redis://'' then Inl bad_format
      else case behind (CHR ''@'') (drop 8 s) of
          None \<Rightarrow> Inl bad_format
        | Some addr \<Rightarrow>
            (let login = until (CHR ''@'') (drop 8 s); host = until (CHR '':'') addr in
             case behind (CHR '':'') addr of
               None \<Rightarrow> Inl bad_format
             | Some rest \<Rightarrow>
                 (let port = takeWhile digit rest; db = dropWhile digit rest in
                  if login = [] \<or> host = [] \<or> \<not> list_all (\<lambda>c. word_char c \<or> c = CHR ''.'') host \<or> port = [] \<or>
                     \<not> (db = [] \<or> hd db = CHR ''/'' \<and> tl db \<noteq> [] \<and> list_all digit (tl db))
                  then Inl bad_format
                  else rbind (stoi_digits port) (\<lambda>p.
                    rbind (if db = [] then Inr (redis_db defaults) else stoi_digits (tl db)) (\<lambda>d.
                      Inr \<lparr>redis_user = (case fst (split_login login) of Some u \<Rightarrow> u | None \<Rightarrow> redis_user defaults),
                        redis_password = snd (split_login login), redis_host = host, redis_port = p,
                        redis_db = d\<rparr>)))))"

text \<open>The constructor rethrows.\<close>

definition text_repo_new ::
    "(redis_options \<Rightarrow> exn + 'r) \<Rightarrow> redis_options \<Rightarrow> string \<Rightarrow> exn + 'r" where
  "text_repo_new redis_connect defaults connection_string =
     rbind (parse_config_string defaults connection_string) redis_connect"

section \<open>Lemmas\<close>

lemma until_append: "c \<notin> set a \<Longrightarrow> until c (a @ c # b) = a"
  unfolding until_def by (subst takeWhile_append2) auto

lemma behind_append: "c \<notin> set a \<Longrightarrow> behind c (a @ c # b) = Some b"
  unfolding behind_def by (subst dropWhile_append2) auto

lemma behind_Nil: "c \<notin> set a \<Longrightarrow> behind c a = None"
  unfolding behind_def by (subst dropWhile_eq_Nil_conv [THEN iffD2]) auto

lemma digit_nat_digits: "list_all digit (nat_digits n)"
  unfolding list_all_iff digit_def using nat_digits_chars by blast

lemma stoi_nat_digits:
  "stoi_digits (nat_digits n) = (if n < 2147483648 then Inr (of_nat n) else Inl (Out_of_range ''stoi''))"
  by (simp add: stoi_digits_def)

lemma nat_digits_not_Nil [simp]: "nat_digits n \<noteq> []"
  by (subst nat_digits.simps) simp

lemma word_char_distinct:
  "list_all word_char u \<Longrightarrow> CHR ''@'' \<notin> set u \<and> CHR '':'' \<notin> set u"
  by (auto simp: list_all_iff word_char_def digit_def)

section \<open>Properties\<close>

text \<open>The string that is written for given options.\<close>

definition config_string :: "string option \<Rightarrow> string \<Rightarrow> string \<Rightarrow> nat \<Rightarrow> nat option \<Rightarrow> string" where
  "config_string user pass host port db =
     ''redis://'' @ (case user of Some u \<Rightarrow> u @ '':'' | None \<Rightarrow> []) @ pass @ ''@'' @ host @ '':'' @ nat_digits port @
     (case db of Some d \<Rightarrow> ''/'' @ nat_digits d | None \<Rightarrow> [])"

text \<open>
  The options are read back from a connection string: the user (or the default), the password
  up to the first \<open>@\<close>, the host, and the numbers, or \<open>out_of_range\<close> when one of them does not fit
  into \<open>int\<close>. Without a user the password must not itself look like a user with a password.
\<close>

theorem redis_config_roundtrip:
  assumes "pass \<noteq> []" "CHR ''@'' \<notin> set pass"
    and "host \<noteq> []" "list_all (\<lambda>c. word_char c \<or> c = CHR ''.'') host"
    and "case user of Some u \<Rightarrow> u \<noteq> [] \<and> list_all word_char u | None \<Rightarrow> CHR '':'' \<notin> set pass"
  shows "parse_config_string defaults (config_string user pass host port db) =
    (if port < 2147483648 \<and> (case db of Some d \<Rightarrow> d < 2147483648 | None \<Rightarrow> True)
     then Inr \<lparr>redis_user = (case user of Some u \<Rightarrow> u | None \<Rightarrow> redis_user defaults), redis_password = pass,
       redis_host = host, redis_port = of_nat port,
       redis_db = (case db of Some d \<Rightarrow> of_nat d | None \<Rightarrow> redis_db defaults)\<rparr>
     else Inl (Out_of_range ''stoi''))"
proof -
  define login where "login = (case user of Some u \<Rightarrow> u @ '':'' | None \<Rightarrow> []) @ pass"
  define tail where "tail = (case db of Some d \<Rightarrow> ''/'' @ nat_digits d | None \<Rightarrow> [])"
  have s: "config_string user pass host port db =
      ''redis://'' @ login @ CHR ''@'' # host @ CHR '':'' # nat_digits port @ tail"
    by (simp add: config_string_def login_def tail_def)
  have login: "CHR ''@'' \<notin> set login" "login \<noteq> []"
    using assms(1,2,5) word_char_distinct by (auto simp: login_def split: option.splits)
  have host: "CHR '':'' \<notin> set host"
    using assms(4) by (auto simp: list_all_iff word_char_def digit_def)
  have split: "split_login login = (user, pass)"
  proof (cases user)
    case None
    then show ?thesis using assms(5) behind_Nil [of "CHR '':''" pass] by (simp add: split_login_def login_def)
  next
    case (Some u)
    then have u: "u \<noteq> []" "list_all word_char u" using assms(5) by simp_all
    have "CHR '':'' \<notin> set u" using word_char_distinct [OF u(2)] by simp
    note at = until_append [OF this] behind_append [OF this]
    show ?thesis using Some u assms(1) by (simp add: split_login_def login_def at)
  qed
  have "takeWhile digit (nat_digits port @ tail) = nat_digits port @ takeWhile digit tail"
    "dropWhile digit (nat_digits port @ tail) = dropWhile digit tail"
    using digit_nat_digits [of port]
    by (auto simp: list_all_iff intro!: takeWhile_append2 dropWhile_append2)
  moreover have "takeWhile digit tail = []" "dropWhile digit tail = tail"
    by (auto simp: tail_def digit_def split: option.splits)
  ultimately have digits: "takeWhile digit (nat_digits port @ tail) = nat_digits port"
    "dropWhile digit (nat_digits port @ tail) = tail" by simp_all
  note parts = until_append [OF login(1)] behind_append [OF login(1)] until_append [OF host] behind_append [OF host]
  have prefix: "take 8 (''redis://'' @ x) = ''redis://''" "drop 8 (''redis://'' @ x) = x" for x by simp_all
  note unfolded = parse_config_string_def prefix parts option.case Let_def digits split
  show ?thesis
  proof (cases db)
    case None
    then have "tail = []" by (simp add: tail_def)
    with None show ?thesis
      unfolding s unfolded using login(2) assms(3,4) by (simp add: stoi_nat_digits)
  next
    case (Some d)
    then have "hd tail = CHR ''/''" "tl tail = nat_digits d" "tail \<noteq> []" by (simp_all add: tail_def)
    with Some show ?thesis
      unfolding s unfolded using login(2) assms(3,4) digit_nat_digits [of d] by (simp add: stoi_nat_digits)
  qed
qed

theorem redis_config_roundtrip_witness:
  "parse_config_string \<lparr>redis_user = ''default'', redis_password = [], redis_host = [], redis_port = 6379, redis_db = 0\<rparr>
     (config_string (Some ''bob'') ''s:e/cret'' ''db.local'' 6380 None) =
   Inr \<lparr>redis_user = ''bob'', redis_password = ''s:e/cret'', redis_host = ''db.local'', redis_port = 6380, redis_db = 0\<rparr>"
  by (subst redis_config_roundtrip) (simp_all add: word_char_def digit_def)

end
