(* ===== verification/Actions.thy ===== *)
theory Actions
  imports Prelude
begin

text \<open>
  Handlers are sequences of reads, writes and calls over a state: an action gives the result, or
  the exception, and the state that it leaves, or \<open>None\<close> when it never returns. A throw keeps the
  changes made before it.
\<close>

type_synonym ('s, 'a) action = "'s \<Rightarrow> ((exn + 'a) \<times> 's) option"

definition act_return :: "'a \<Rightarrow> ('s, 'a) action" where
  "act_return x s = Some (Inr x, s)"

definition act_lift :: "exn + 'a \<Rightarrow> ('s, 'a) action" where
  "act_lift m s = Some (m, s)"

definition act_bind :: "('s, 'a) action \<Rightarrow> ('a \<Rightarrow> ('s, 'b) action) \<Rightarrow> ('s, 'b) action" where
  "act_bind m f s =
     (case m s of
        None \<Rightarrow> None
      | Some (Inl e, s') \<Rightarrow> Some (Inl e, s')
      | Some (Inr x, s') \<Rightarrow> f x s')"

definition act_then :: "('s, 'a) action \<Rightarrow> ('s, 'b) action \<Rightarrow> ('s, 'b) action" where
  "act_then m k = act_bind m (\<lambda>_. k)"

definition act_gets :: "('s \<Rightarrow> 'a) \<Rightarrow> ('s, 'a) action" where
  "act_gets f s = Some (Inr (f s), s)"

definition act_modify :: "('s \<Rightarrow> 's) \<Rightarrow> ('s, unit) action" where
  "act_modify f s = Some (Inr (), f s)"

text \<open>\<open>try { m } catch (const std::exception&) { h }\<close>; undefined behaviour is not caught.\<close>

definition act_catch :: "('s, 'a) action \<Rightarrow> ('s, 'a) action \<Rightarrow> ('s, 'a) action" where
  "act_catch m h s =
     (case m s of
        None \<Rightarrow> None
      | Some (Inr x, s') \<Rightarrow> Some (Inr x, s')
      | Some (Inl e, s') \<Rightarrow>
          (case e of Undefined_behaviour u \<Rightarrow> Some (Inl e, s') | _ \<Rightarrow> h s'))"

text \<open>An operation on a part of the state.\<close>

definition act_on ::
    "('s \<Rightarrow> 'r) \<Rightarrow> ('r \<Rightarrow> 's \<Rightarrow> 's) \<Rightarrow> ('r \<Rightarrow> (exn + 'a) \<times> 'r) \<Rightarrow> ('s, 'a) action" where
  "act_on get_part put_part f s = (let (x, r) = f (get_part s) in Some (x, put_part r s))"

primrec act_each :: "('a \<Rightarrow> ('s, unit) action) \<Rightarrow> 'a list \<Rightarrow> ('s, unit) action" where
  "act_each f [] = act_return ()"
| "act_each f (x # xs) = act_then (f x) (act_each f xs)"

section \<open>Running an action\<close>

named_theorems act_run "what an action does on a state"

lemma act_simps [act_run]:
  "act_return x s = Some (Inr x, s)"
  "act_lift r s = Some (r, s)"
  "act_gets f s = Some (Inr (f s), s)"
  "act_modify g s = Some (Inr (), g s)"
  "act_then m k = act_bind m (\<lambda>_. k)"
  by (simp_all add: act_return_def act_lift_def act_gets_def act_modify_def act_then_def)

lemma act_bind_simps [act_run]:
  "m s = None \<Longrightarrow> act_bind m f s = None"
  "m s = Some (Inl e, s') \<Longrightarrow> act_bind m f s = Some (Inl e, s')"
  "m s = Some (Inr x, s') \<Longrightarrow> act_bind m f s = f x s'"
  by (simp_all add: act_bind_def)

lemma act_bind_direct [act_run]:
  "act_bind (act_return x) f s = f x s"
  "act_bind (act_lift (Inr x)) f s = f x s"
  "act_bind (act_lift (Inl e)) f s = Some (Inl e, s)"
  "act_bind (act_gets g) f s = f (g s) s"
  "act_bind (act_modify h) f' s = f' () (h s)"
  "act_bind (act_bind m f) g' s = act_bind m (\<lambda>x. act_bind (f x) g') s"
  by (simp_all add: act_bind_def act_run split: option.splits sum.splits)

lemma act_catch_simps [act_run]:
  "m s = None \<Longrightarrow> act_catch m h s = None"
  "m s = Some (Inr x, s') \<Longrightarrow> act_catch m h s = Some (Inr x, s')"
  by (simp_all add: act_catch_def)

lemma act_catch_throw [act_run]:
  "m s = Some (Inl e, s') \<Longrightarrow> (\<And>u. e \<noteq> Undefined_behaviour u) \<Longrightarrow> act_catch m h s = h s'"
  by (cases e) (auto simp: act_catch_def)

lemma act_catch_undefined:
  "m s = Some (Inl (Undefined_behaviour u), s') \<Longrightarrow> act_catch m h s = Some (Inl (Undefined_behaviour u), s')"
  by (simp add: act_catch_def)

lemma act_on_simps [act_run]:
  "f (g s) = (x, r) \<Longrightarrow> act_on g p f s = Some (x, p r s)"
  by (simp add: act_on_def)

lemma act_bind_Inr:
  "act_bind m f s = Some (Inr y, s') \<longleftrightarrow> (\<exists>x s1. m s = Some (Inr x, s1) \<and> f x s1 = Some (Inr y, s'))"
  by (auto simp: act_bind_def split: option.splits sum.splits)

text \<open>A property of the state that every step keeps, whatever it returns.\<close>

definition keeps :: "('s \<Rightarrow> bool) \<Rightarrow> ('s, 'a) action \<Rightarrow> bool" where
  "keeps I m \<longleftrightarrow> (\<forall>s r s'. I s \<longrightarrow> m s = Some (r, s') \<longrightarrow> I s')"

named_theorems keeps_intros "rules for what actions keep"

lemma keeps_basic [keeps_intros]:
  "keeps I (act_return x)" "keeps I (act_lift r)" "keeps I (act_gets f)"
  by (simp_all add: keeps_def act_run)

lemma keeps_lift: "(\<And>x. r = Inr x \<Longrightarrow> keeps I (f x)) \<Longrightarrow> keeps I (act_bind (act_lift r) f)"
  by (cases r) (simp_all add: keeps_def act_run)

lemma keeps_modify: "(\<And>s. I s \<Longrightarrow> I (f s)) \<Longrightarrow> keeps I (act_modify f)"
  by (simp add: keeps_def act_run)

lemma keepsD: "keeps I m \<Longrightarrow> m s = Some (r, s') \<Longrightarrow> I s \<Longrightarrow> I s'"
  by (auto simp: keeps_def)

lemma keeps_bind [keeps_intros]:
  assumes "keeps I m" "\<And>x. keeps I (f x)"
  shows "keeps I (act_bind m f)"
  unfolding keeps_def
proof (intro allI impI)
  fix s r s' assume I: "I s" and eq: "act_bind m f s = Some (r, s')"
  then obtain q s1 where m: "m s = Some (q, s1)" by (cases "m s") (auto simp: act_bind_def)
  then have "I s1" using keepsD [OF assms(1) m I] by simp
  then show "I s'" using eq m keepsD [OF assms(2)] by (cases q) (auto simp: act_bind_def)
qed

lemma keeps_then [keeps_intros]: "keeps I m \<Longrightarrow> keeps I k \<Longrightarrow> keeps I (act_then m k)"
  by (simp add: act_run keeps_bind)

lemma keeps_catch [keeps_intros]:
  assumes "keeps I m" "keeps I h"
  shows "keeps I (act_catch m h)"
  unfolding keeps_def
proof (intro allI impI)
  fix s r s' assume I: "I s" and eq: "act_catch m h s = Some (r, s')"
  then obtain q s1 where m: "m s = Some (q, s1)" by (cases "m s") (auto simp: act_catch_def)
  then have "I s1" using keepsD [OF assms(1) m I] by simp
  then show "I s'" using eq m keepsD [OF assms(2), of s1]
    by (auto simp: act_catch_def split: sum.splits exn.splits)
qed

lemma keeps_if [keeps_intros]: "(b \<Longrightarrow> keeps I m) \<Longrightarrow> (\<not> b \<Longrightarrow> keeps I k) \<Longrightarrow> keeps I (if b then m else k)"
  by simp

lemma keeps_option [keeps_intros]:
  "keeps I m \<Longrightarrow> (\<And>x. keeps I (k x)) \<Longrightarrow> keeps I (case v of None \<Rightarrow> m | Some x \<Rightarrow> k x)"
  by (cases v) simp_all

lemma keeps_prod [keeps_intros]: "(\<And>a b. keeps I (f a b)) \<Longrightarrow> keeps I (case x of (a, b) \<Rightarrow> f a b)"
  by (cases x) simp

lemma keeps_on: "(\<And>s r. I s \<Longrightarrow> I (p r s)) \<Longrightarrow> keeps I (act_on g p f)"
  by (auto simp: keeps_def act_on_def split: prod.splits)

lemma keeps_each [keeps_intros]: "(\<And>x. keeps I (f x)) \<Longrightarrow> keeps I (act_each f xs)"
  by (induction xs) (simp_all add: keeps_intros)

text \<open>
  The same with what is known of the result: \<open>Z\<close> holds of an exception, \<open>Q\<close> of a value, on which the
  next step may depend.
\<close>

definition outcome :: "('s \<Rightarrow> bool) \<Rightarrow> (exn \<Rightarrow> bool) \<Rightarrow> ('a \<Rightarrow> bool) \<Rightarrow> ('s, 'a) action \<Rightarrow> bool" where
  "outcome I Z Q m \<longleftrightarrow> (\<forall>s r s'. I s \<longrightarrow> m s = Some (r, s') \<longrightarrow>
     I s' \<and> (case r of Inl e \<Rightarrow> Z e | Inr x \<Rightarrow> Q x))"

abbreviation gives :: "('s \<Rightarrow> bool) \<Rightarrow> ('a \<Rightarrow> bool) \<Rightarrow> ('s, 'a) action \<Rightarrow> bool" where
  "gives I Q m \<equiv> outcome I (\<lambda>_. True) Q m"

abbreviation any_value :: "'a \<Rightarrow> bool" where
  "any_value \<equiv> \<lambda>_. True"

abbreviation never :: "exn \<Rightarrow> bool" where
  "never \<equiv> \<lambda>_. False"

abbreviation catchable :: "exn \<Rightarrow> bool" where
  "catchable e \<equiv> \<forall>u. e \<noteq> Undefined_behaviour u"

named_theorems outcome_intros "rules for what actions keep, throw and return"

lemma outcomeD: "outcome I Z Q m \<Longrightarrow> m s = Some (r, s') \<Longrightarrow> I s \<Longrightarrow> I s' \<and> (case r of Inl e \<Rightarrow> Z e | Inr x \<Rightarrow> Q x)"
  unfolding outcome_def by blast

lemma keeps_outcome: "keeps I m \<longleftrightarrow> gives I any_value m"
  by (auto simp: keeps_def outcome_def split: sum.splits)

lemma outcome_bind:
  assumes "outcome I Z R m" "\<And>x. R x \<Longrightarrow> outcome I Z Q (f x)"
  shows "outcome I Z Q (act_bind m f)"
  unfolding outcome_def
proof (intro allI impI)
  fix s r s' assume I: "I s" and eq: "act_bind m f s = Some (r, s')"
  then obtain q s1 where m: "m s = Some (q, s1)" by (cases "m s") (auto simp: act_bind_def)
  note m' = outcomeD [OF assms(1) m I]
  show "I s' \<and> (case r of Inl e \<Rightarrow> Z e | Inr x \<Rightarrow> Q x)"
  proof (cases q)
    case (Inl e)
    then have "r = Inl e" "s' = s1" using eq m by (simp_all add: act_bind_def)
    then show ?thesis using m' Inl by simp
  next
    case (Inr x)
    then have "f x s1 = Some (r, s')" using eq m by (simp add: act_bind_def)
    then show ?thesis using m' Inr by (intro outcomeD [OF assms(2)]) auto
  qed
qed

lemma outcome_basic [outcome_intros]:
  "Q x \<Longrightarrow> outcome I Z Q (act_return x)" "outcome I Z any_value (act_gets f)"
  by (simp_all add: outcome_def act_run)

lemma outcome_then [outcome_intros]:
  "outcome I Z any_value m \<Longrightarrow> (\<And>x. outcome I Z Q (k x)) \<Longrightarrow> outcome I Z Q (act_bind m k)"
  "outcome I Z any_value m \<Longrightarrow> outcome I Z Q n \<Longrightarrow> outcome I Z Q (act_then m n)"
  unfolding act_then_def by (rule outcome_bind [where R = any_value]; simp)+

lemma outcome_if [outcome_intros]:
  "outcome I Z Q m \<Longrightarrow> outcome I Z Q n \<Longrightarrow> outcome I Z Q (if b then m else n)"
  by simp

lemma outcome_option [outcome_intros]:
  "outcome I Z Q m \<Longrightarrow> (\<And>x. outcome I Z Q (k x)) \<Longrightarrow> outcome I Z Q (case v of None \<Rightarrow> m | Some x \<Rightarrow> k x)"
  by (cases v) simp_all

text \<open>An invariant carried through a step whose result the next one depends on.\<close>

named_theorems gives_intros "rules for actions with a known result"

lemma keeps_bind_gives: "gives I Q m \<Longrightarrow> (\<And>x. Q x \<Longrightarrow> keeps I (f x)) \<Longrightarrow> keeps I (act_bind m f)"
  unfolding keeps_outcome by (rule outcome_bind)

lemma gives_steps [gives_intros]:
  "Q x \<Longrightarrow> gives I Q (act_return x)"
  "keeps I m \<Longrightarrow> (\<And>x. gives I Q (k x)) \<Longrightarrow> gives I Q (act_bind m k)"
  "keeps I m \<Longrightarrow> gives I Q n \<Longrightarrow> gives I Q (act_then m n)"
  "gives I Q m' \<Longrightarrow> gives I Q n \<Longrightarrow> gives I Q (if b then m' else n)"
  unfolding keeps_outcome by (simp_all add: outcome_intros)

lemma outcome_modify: "(\<And>s. I s \<Longrightarrow> I (f s)) \<Longrightarrow> outcome I Z any_value (act_modify f)"
  by (simp add: outcome_def act_run)

lemma outcome_weaken:
  assumes "outcome I Z Q m" "\<And>e. Z e \<Longrightarrow> Z' e"
  shows "outcome I Z' Q m"
  unfolding outcome_def
proof (intro allI impI)
  fix s r s' assume "I s" "m s = Some (r, s')"
  then have "I s' \<and> (case r of Inl e \<Rightarrow> Z e | Inr x \<Rightarrow> Q x)" using outcomeD [OF assms(1)] by blast
  then show "I s' \<and> (case r of Inl e \<Rightarrow> Z' e | Inr x \<Rightarrow> Q x)" using assms(2) by (cases r) simp_all
qed

text \<open>What is caught is no longer thrown; undefined behaviour is not caught.\<close>

lemma outcome_catch_but:
  assumes "outcome I (\<lambda>e. catchable e \<or> Z e) Q m" "outcome I Z Q h"
  shows "outcome I Z Q (act_catch m h)"
  unfolding outcome_def
proof (intro allI impI)
  fix s r s' assume I: "I s" and eq: "act_catch m h s = Some (r, s')"
  then obtain q s1 where m: "m s = Some (q, s1)" by (cases "m s") (auto simp: act_catch_def)
  note m' = outcomeD [OF assms(1) m I]
  show "I s' \<and> (case r of Inl e \<Rightarrow> Z e | Inr x \<Rightarrow> Q x)"
  proof (cases q)
    case (Inl e)
    show ?thesis
    proof (cases "catchable e")
      case True
      then have "act_catch m h s = h s1" using m Inl by (intro act_catch_throw) auto
      then have "h s1 = Some (r, s')" using eq by simp
      then show ?thesis using m' by (intro outcomeD [OF assms(2)]) auto
    next
      case False
      then obtain u where u: "e = Undefined_behaviour u" by blast
      then have "r = Inl e" "s' = s1" using eq act_catch_undefined [of m s u s1 h] m Inl by simp_all
      then show ?thesis using m' Inl False by simp
    qed
  next
    case (Inr x)
    then have "r = Inr x" "s' = s1" using eq m by (simp_all add: act_run)
    then show ?thesis using m' Inr by simp
  qed
qed

lemma outcome_catch:
  assumes "outcome I catchable Q m" "outcome I Z Q h"
  shows "outcome I Z Q (act_catch m h)"
  by (intro outcome_catch_but assms(2) outcome_weaken [OF assms(1)]) simp

lemma outcome_throw: "Z e \<Longrightarrow> outcome I Z Q (act_lift (Inl e))"
  by (simp add: outcome_def act_run)

text \<open>An action that always returns or throws.\<close>

definition returns :: "('s, 'a) action \<Rightarrow> bool" where
  "returns m \<longleftrightarrow> (\<forall>s. m s \<noteq> None)"

named_theorems returns_intros "rules for actions that return"

lemma returns_basic [returns_intros]:
  "returns (act_return x)" "returns (act_lift r)" "returns (act_gets f)" "returns (act_modify g)"
  "returns (act_on get_part put_part f')"
  by (auto simp: returns_def act_run act_on_def split: prod.splits)

lemma returns_bind [returns_intros]: "returns m \<Longrightarrow> (\<And>x. returns (f x)) \<Longrightarrow> returns (act_bind m f)"
  by (auto simp: returns_def act_bind_def split: option.splits sum.splits)

lemma returns_then [returns_intros]: "returns m \<Longrightarrow> returns k \<Longrightarrow> returns (act_then m k)"
  by (simp add: act_run returns_bind)

lemma returns_catch [returns_intros]: "returns m \<Longrightarrow> returns h \<Longrightarrow> returns (act_catch m h)"
  by (auto simp: returns_def act_catch_def split: option.splits sum.splits exn.splits)

lemma returns_if [returns_intros]: "returns m \<Longrightarrow> returns k \<Longrightarrow> returns (if b then m else k)"
  by simp

lemma returns_prod [returns_intros]: "(\<And>a b. returns (f a b)) \<Longrightarrow> returns (case x of (a, b) \<Rightarrow> f a b)"
  by (cases x) simp

lemma returns_option [returns_intros]:
  "returns m \<Longrightarrow> (\<And>x. returns (k x)) \<Longrightarrow> returns (case v of None \<Rightarrow> m | Some x \<Rightarrow> k x)"
  by (cases v) simp_all

end
