(* ===== verification/Repo_Manager.thy ===== *)
theory Repo_Manager
  imports Message_Repos File_Client Redis_Config Actions Clients
begin

text \<open>
  \<open>server/src/repository_manager.cpp\<close>: the one object through which the request handlers reach the
  databases and the file server. Its state is part of the state of the server. The libraries that
  the server uses come together in one argument.
\<close>

section \<open>What the server is built on\<close>

text \<open>
  Sockets (Boost.Asio) over a type \<open>'w\<close> of states: \<open>boost::asio::write\<close> sends the whole text or
  throws, \<open>read_until\<close> gives what was added to the buffer and the error code, if any.
\<close>

datatype read_error = Eof | Read_failed string

record 'w socket_ops =
  sock_write :: "socket \<Rightarrow> string \<Rightarrow> 'w \<Rightarrow> (exn + unit) \<times> 'w"
  sock_read_until :: "socket \<Rightarrow> 'w \<Rightarrow> (string \<times> read_error option) \<times> 'w"

record ('d, 'j, 'n, 'w) services =
  pg :: "'d pg_ops"
  json :: "'j json_ops"
  hex :: hex_ops
  beast :: "'n http_ops"
  socks :: "'w socket_ops"
  clock :: timestamp

section \<open>State\<close>

record ('d, 'n) repo_manager =
  rm_connections :: "'d connections"
  rm_file_client :: file_client
  rm_net :: 'n

record server_config =
  server_port :: "16 word"
  thread_pool_size :: u32
  user_metadata_db :: string
  msg_metadata_db :: string
  msg_text_db :: string
  file_server_host :: string
  file_server_port :: string

text \<open>The repository of texts is constructed, and may throw, but no handler uses it.\<close>

definition repo_manager_new ::
    "'d pg_ops \<Rightarrow> (redis_options \<Rightarrow> exn + 'r) \<Rightarrow> redis_options \<Rightarrow> server_config \<Rightarrow> 'n \<Rightarrow> exn + ('d, 'n) repo_manager" where
  "repo_manager_new P redis_connect defaults config n =
     rbind (add_connection P ''user_metadata_db'' (user_metadata_db config) Map.empty) (\<lambda>m.
       rbind (add_connection P ''message_metadata_db'' (msg_metadata_db config) m) (\<lambda>m.
         rbind (text_repo_new redis_connect defaults (msg_text_db config)) (\<lambda>_.
           Inr \<lparr>rm_connections = m,
             rm_file_client = file_client_new (file_server_host config) (file_server_port config), rm_net = n\<rparr>)))"

section \<open>Operations\<close>

definition on_database ::
    "string \<Rightarrow> ('d \<Rightarrow> (exn + 'a) \<times> 'd) \<Rightarrow> (('d, 'n, 'z) repo_manager_scheme, 'a) action" where
  "on_database name f = act_on rm_connections (\<lambda>m s. s\<lparr>rm_connections := m\<rparr>) (with_connection name f)"

definition create_user ::
    "('d, 'j, 'n, 'w) services \<Rightarrow> user \<Rightarrow> (('d, 'n, 'z) repo_manager_scheme, i32) action" where
  "create_user E u = on_database ''user_metadata_db'' (user_create (pg E) u)"

definition set_public_keys ::
    "('d, 'j, 'n, 'w) services \<Rightarrow> i32 \<Rightarrow> string \<Rightarrow> string \<Rightarrow> (('d, 'n, 'z) repo_manager_scheme, bool) action" where
  "set_public_keys E i el_gamal_key dsa_key =
     on_database ''user_metadata_db'' (user_set_public_keys (pg E) (clock E) i el_gamal_key dsa_key)"

definition get_public_keys ::
    "('d, 'j, 'n, 'w) services \<Rightarrow> i32 \<Rightarrow> (('d, 'n, 'z) repo_manager_scheme, user_keys option) action" where
  "get_public_keys E i = on_database ''user_metadata_db'' (user_get_public_keys (pg E) (json E) (hex E) i)"

definition authorize_user ::
    "('d, 'j, 'n, 'w) services \<Rightarrow> i32 \<Rightarrow> string \<Rightarrow> string \<Rightarrow> (('d, 'n, 'z) repo_manager_scheme, bool) action" where
  "authorize_user E i nick pass = on_database ''user_metadata_db'' (user_authorize (pg E) (json E) i nick pass)"

definition get_user_id ::
    "('d, 'j, 'n, 'w) services \<Rightarrow> string \<Rightarrow> (('d, 'n, 'z) repo_manager_scheme, i32) action" where
  "get_user_id E nick = on_database ''user_metadata_db'' (user_get_id_of (pg E) (json E) nick)"

definition create_message ::
    "('d, 'j, 'n, 'w) services \<Rightarrow> message \<Rightarrow> (('d, 'n, 'z) repo_manager_scheme, i32) action" where
  "create_message E msg = on_database ''message_metadata_db'' (metadata_create (pg E) (message_get_metadata msg))"

definition upload_file_chunk ::
    "('d, 'j, 'n, 'w) services \<Rightarrow> string \<Rightarrow> string \<Rightarrow> (('d, 'n, 'z) repo_manager_scheme, bool) action" where
  "upload_file_chunk E filename chunk_data s =
     act_on rm_net (\<lambda>n s. s\<lparr>rm_net := n\<rparr>) (upload_chunk (beast E) (rm_file_client s) filename chunk_data) s"

definition repo_download_file_chunks ::
    "('d, 'j, 'n, 'w) services \<Rightarrow> string \<Rightarrow> (('d, 'n, 'z) repo_manager_scheme, string list) action" where
  "repo_download_file_chunks E filename s =
     (case download_file_chunks (beast E) (rm_file_client s) filename (rm_net s) of
        None \<Rightarrow> None
      | Some (r, n) \<Rightarrow> Some (r, s\<lparr>rm_net := n\<rparr>))"

section \<open>Lemmas\<close>

lemma on_database_run [act_run]:
  "rm_connections s name = Some d \<Longrightarrow>
   on_database name f s = Some (fst (f d), s\<lparr>rm_connections := (rm_connections s)(name \<mapsto> snd (f d))\<rparr>)"
  by (simp add: on_database_def act_on_def)

text \<open>The constructor opens both connections, so no handler finds one missing.\<close>

definition connected :: "('d, 'n, 'z) repo_manager_scheme \<Rightarrow> bool" where
  "connected s \<longleftrightarrow> rm_connections s ''user_metadata_db'' \<noteq> None \<and> rm_connections s ''message_metadata_db'' \<noteq> None"

lemma repo_manager_new_connected: "repo_manager_new P rc dflt config n = Inr s \<Longrightarrow> connected s"
  by (auto simp: repo_manager_new_def rbind_Inr_iff add_connection_def connected_def)

lemma with_connection_dom: "dom (snd (with_connection name f m)) = dom m"
  by (auto simp: with_connection_def get_connection_def split: option.splits prod.splits)

lemma on_database_connected [keeps_intros]: "keeps connected (on_database name f)"
proof -
  have "m name' \<noteq> None \<Longrightarrow> snd (with_connection name f m) name' \<noteq> None" for m name'
    using with_connection_dom [of name f m] by blast
  then show ?thesis
    by (auto simp: keeps_def on_database_def act_on_def connected_def split: prod.splits) (metis snd_conv)+
qed

end
