(* ===== verification/Request_Handler.thy ===== *)
theory Request_Handler
  imports Repo_Manager
begin

text \<open>
  \<open>server/src/request_handler.cpp\<close>: the handlers of the chat server. The state extends that of the
  repository manager by the sockets, the connected clients, the pending file transfers, the state
  of each upload and the counter of the \<open>User\<close> class. Each request is handled in one piece; that
  several threads run handlers at the same time on the same maps is not modelled.
\<close>

section \<open>State\<close>

record upload_state =
  last_chunk_received :: u64
  completed :: bool

record pending_file_transfer =
  pft_filename :: string
  pft_sender_id :: i32
  pft_receiver_id :: i32

record ('d, 'n, 'w) handler = "('d, 'n) repo_manager" +
  sv_socks :: 'w
  sv_clients :: clients
  sv_pending :: "pending_file_transfer list"
  sv_uploads :: "string \<Rightarrow> upload_state option"
  sv_user_counter :: i32

type_synonym ('d, 'n, 'w, 'a) handling = "(('d, 'n, 'w) handler, 'a) action"

section \<open>Messages\<close>

definition delimiter :: string where
  "delimiter = [CHR 0x0D, CHR 0x0A, CHR 0x0D, CHR 0x0A]"

definition write_socket ::
    "('d, 'j, 'n, 'w) services \<Rightarrow> socket \<Rightarrow> string \<Rightarrow> ('d, 'n, 'w, unit) handling" where
  "write_socket E sock text = act_on sv_socks (\<lambda>w s. s\<lparr>sv_socks := w\<rparr>) (sock_write (socks E) sock text)"

text \<open>\<open>boost::asio::write(*socket, boost::asio::buffer(response.dump() + "\r\n\r\n"))\<close>.\<close>

definition write_json ::
    "('d, 'j, 'n, 'w) services \<Rightarrow> socket \<Rightarrow> 'j \<Rightarrow> ('d, 'n, 'w, unit) handling" where
  "write_json E sock response =
     act_bind (act_lift (dump_json (json E) response)) (\<lambda>text. write_socket E sock (text @ delimiter))"

text \<open>The write with an error code does not throw when it fails.\<close>

definition write_json_ec ::
    "('d, 'j, 'n, 'w) services \<Rightarrow> socket \<Rightarrow> 'j \<Rightarrow> ('d, 'n, 'w, unit) handling" where
  "write_json_ec E sock response =
     act_bind (act_lift (dump_json (json E) response)) (\<lambda>text.
       act_on sv_socks (\<lambda>w s. s\<lparr>sv_socks := w\<rparr>) (\<lambda>w. (Inr (), snd (sock_write (socks E) sock (text @ delimiter) w))))"

definition status_json :: "'j json_ops \<Rightarrow> string \<Rightarrow> string \<Rightarrow> 'j \<Rightarrow> 'j" where
  "status_json J status response j = put_string J ''response'' response (put_string J ''status'' status j)"

definition error_json :: "'j json_ops \<Rightarrow> string \<Rightarrow> 'j" where
  "error_json J response = status_json J ''error'' response (null_json J)"

section \<open>Users\<close>

definition handle_register ::
    "('d, 'j, 'n, 'w) services \<Rightarrow> socket \<Rightarrow> 'j \<Rightarrow> ('d, 'n, 'w, unit) handling" where
  "handle_register E sock request =
     act_bind (act_lift (read_string (json E) request ''nickname'')) (\<lambda>nick.
       act_bind (act_lift (read_string (json E) request ''password'')) (\<lambda>pass.
         act_bind (act_lift (read_string (json E) request ''el_gamal_public_key'')) (\<lambda>el_gamal_key.
           act_bind (act_lift (read_string (json E) request ''dsa_public_key'')) (\<lambda>dsa_key.
             act_bind (act_gets (\<lambda>s. user_new (clock E) (sv_user_counter s) nick pass)) (\<lambda>(new_user, counter).
               act_then (act_modify (\<lambda>s. s\<lparr>sv_user_counter := counter\<rparr>))
                 (act_bind (create_user E new_user) (\<lambda>user.
                   act_then (set_public_keys E user el_gamal_key dsa_key)
                     (write_json E sock
                       (if user \<noteq> 0
                        then put_int (json E) ''user_id'' user
                          (status_json (json E) ''success'' ''User registered successfully'' (null_json (json E)))
                        else error_json (json E) ''Failed to register user''))))))))) "

definition handle_authorize ::
    "('d, 'j, 'n, 'w) services \<Rightarrow> socket \<Rightarrow> 'j \<Rightarrow> ('d, 'n, 'w, unit) handling" where
  "handle_authorize E sock request =
     act_bind (act_lift (read_string (json E) request ''nickname'')) (\<lambda>nick.
       act_bind (act_lift (read_string (json E) request ''password'')) (\<lambda>pass.
         act_bind (act_lift (read_int (json E) request ''user_id'')) (\<lambda>user.
           act_bind (authorize_user E user nick pass) (\<lambda>auth_success.
             if auth_success
             then act_then (act_modify (\<lambda>s. s\<lparr>sv_clients := add_client user sock (sv_clients s)\<rparr>))
               (write_json E sock (status_json (json E) ''success'' ''Authorization successful'' (null_json (json E))))
             else write_json E sock (error_json (json E) ''Authorization failed: Invalid credentials'')))))"

definition handle_get_user_keys ::
    "('d, 'j, 'n, 'w) services \<Rightarrow> socket \<Rightarrow> 'j \<Rightarrow> ('d, 'n, 'w, unit) handling" where
  "handle_get_user_keys E sock request =
     act_bind (act_lift (read_string (json E) request ''nickname'')) (\<lambda>nick.
       act_bind (get_user_id E nick) (\<lambda>receiver.
         if receiver = 0 then write_json E sock (error_json (json E) ''Receiver not found'')
         else act_bind (get_public_keys E receiver) (\<lambda>receiver_crypto_keys.
           case receiver_crypto_keys of
             None \<Rightarrow> write_json E sock (error_json (json E) ''Failed to retrieve keys'')
           | Some keys \<Rightarrow>
               act_bind (act_lift (cpp_int_to_hex (hex E) (get_dsa_public_key keys))) (\<lambda>dsa_key.
                 act_bind (act_lift (cpp_int_to_hex (hex E) (get_el_gamal_public_key keys))) (\<lambda>el_gamal_key.
                   write_json E sock
                     (put_string (json E) ''el_gamal_public_key'' el_gamal_key
                       (put_string (json E) ''dsa_public_key'' dsa_key
                         (put_int (json E) ''user_id'' receiver
                           (put_string (json E) ''status'' ''success'' (null_json (json E)))))))))))"

text \<open>The signature is read from the misspelt key \<open>dsa_signrature\<close>.\<close>

definition handle_send_aes_key ::
    "('d, 'j, 'n, 'w) services \<Rightarrow> socket \<Rightarrow> 'j \<Rightarrow> ('d, 'n, 'w, unit) handling" where
  "handle_send_aes_key E sock request =
     act_bind (act_lift (read_int (json E) request ''sender_id'')) (\<lambda>sender.
       act_bind (act_lift (read_string (json E) request ''receiver_nickname'')) (\<lambda>receiver_nickname.
         act_bind (act_lift (read_string (json E) request ''encrypted_aes_key_c1'')) (\<lambda>c1.
           act_bind (act_lift (read_string (json E) request ''encrypted_aes_key_c2'')) (\<lambda>c2.
             act_bind (act_lift (read_string (json E) request ''dsa_r'')) (\<lambda>dsa_r.
               act_bind (act_lift (read_string (json E) request ''dsa_signrature'')) (\<lambda>dsa_signature.
                 act_bind (get_user_id E receiver_nickname) (\<lambda>receiver.
                   if receiver = 0 then write_json E sock (error_json (json E) ''Receiver not found'')
                   else act_then
                     (write_json E sock
                       (status_json (json E) ''success'' ''AES key sent successfully'' (null_json (json E))))
                     (act_bind (act_gets (\<lambda>s. get_client_socket receiver (sv_clients s))) (\<lambda>receiver_socket.
                       case receiver_socket of
                         None \<Rightarrow> act_return ()
                       | Some receiver_sock \<Rightarrow>
                           write_json E receiver_sock
                             (put_string (json E) ''dsa_signature'' dsa_signature
                               (put_string (json E) ''dsa_r'' dsa_r
                                 (put_string (json E) ''encrypted_aes_key_c2'' c2
                                   (put_string (json E) ''encrypted_aes_key_c1'' c1
                                     (put_int (json E) ''sender_id'' sender
                                       (put_string (json E) ''type'' ''receive_aes_key'' (null_json (json E)))))))))))))))))"

section \<open>Messages of users\<close>

text \<open>\<open>request.contains("file_name") && request["file_name"] != "none"\<close>.\<close>

definition has_file :: "'j json_ops \<Rightarrow> 'j \<Rightarrow> bool" where
  "has_file J request \<longleftrightarrow>
     (case find_field J request ''file_name'' of Some v \<Rightarrow> \<not> equals_string J v ''none'' | None \<Rightarrow> False)"

text \<open>The transfer is announced: it is pending, and its upload starts over.\<close>

definition announce_transfer :: "string \<Rightarrow> i32 \<Rightarrow> i32 \<Rightarrow> ('d, 'n, 'w) handler \<Rightarrow> ('d, 'n, 'w) handler" where
  "announce_transfer filename sender receiver s =
     s\<lparr>sv_pending := sv_pending s @
         [\<lparr>pft_filename = filename, pft_sender_id = sender, pft_receiver_id = receiver\<rparr>],
       sv_uploads := (sv_uploads s)(filename \<mapsto> \<lparr>last_chunk_received = 0, completed = False\<rparr>)\<rparr>"

definition sent_json :: "'j json_ops \<Rightarrow> message \<Rightarrow> 'j \<Rightarrow> 'j" where
  "sent_json J msg j =
     update_json J (status_json J ''success'' ''Message sent successfully'' j) (message_to_json J msg)"

definition received_json :: "'j json_ops \<Rightarrow> message \<Rightarrow> 'j \<Rightarrow> 'j" where
  "received_json J msg j = put_string J ''type'' ''receive_msg'' (update_json J j (message_to_json J msg))"

text \<open>The part behind the database, for a stored message.\<close>

definition deliver_message ::
    "('d, 'j, 'n, 'w) services \<Rightarrow> socket \<Rightarrow> 'j \<Rightarrow> i32 \<Rightarrow> i32 \<Rightarrow> message \<Rightarrow> ('d, 'n, 'w, unit) handling" where
  "deliver_message E sock request sender receiver msg =
     (let J = json E; sender_response = sent_json J msg (null_json J);
          receiver_response = received_json J msg (null_json J) in
      act_then (write_json E sock sender_response)
        (act_bind (act_gets (\<lambda>s. get_client_socket receiver (sv_clients s))) (\<lambda>receiver_socket.
          act_then
            (case receiver_socket of
               None \<Rightarrow> act_return ()
             | Some receiver_sock \<Rightarrow> write_json E receiver_sock receiver_response)
            (act_bind
              (if has_file J request
               then act_bind (act_lift (read_string J request ''file_name'')) (\<lambda>filename.
                 act_then (act_modify (announce_transfer filename sender receiver))
                   (act_return (put_string J ''file_name'' filename sender_response)))
               else act_return sender_response) (\<lambda>sender_response.
              act_then (write_json E sock (sent_json J msg sender_response))
                (case receiver_socket of
                   None \<Rightarrow> act_return ()
                 | Some receiver_sock \<Rightarrow>
                     (let again = received_json J msg receiver_response in
                      if has_file J request
                      then act_bind (act_lift (const_at J request ''file_name'')) (\<lambda>v.
                        write_json E receiver_sock (set_field J again ''file_name'' v))
                      else write_json E receiver_sock again)))))))"

text \<open>The second test of the id, for zero, cannot succeed behind the first.\<close>

definition handle_send_message ::
    "('d, 'j, 'n, 'w) services \<Rightarrow> socket \<Rightarrow> 'j \<Rightarrow> ('d, 'n, 'w, unit) handling" where
  "handle_send_message E sock request =
     act_bind (act_lift (read_int (json E) request ''sender_id'')) (\<lambda>sender.
       act_bind (act_lift (read_string (json E) request ''receiver_nickname'')) (\<lambda>receiver_nickname.
         act_bind (act_lift (read_string (json E) request ''message_text'')) (\<lambda>request_text.
           act_bind (get_user_id E receiver_nickname) (\<lambda>receiver.
             if receiver = 0 then write_json E sock (error_json (json E) ''Receiver not found'')
             else (let new_msg = message_new (clock E) sender receiver request_text in
               act_bind (create_message E new_msg) (\<lambda>msg_metadata_id.
                 if msg_metadata_id = 0
                 then write_json E sock
                   (error_json (json E) ''Failed to correctly save messages in database'')
                 else deliver_message E sock request sender receiver
                   (message_set_id msg_metadata_id new_msg)))))))"


section \<open>File transfers\<close>

text \<open>
  The chunks of a stored file, numbered from 0. A write that fails ends the loop, and
  \<open>send_file_to_client\<close> returns.
\<close>

fun send_file_messages ::
    "('d, 'j, 'n, 'w) services \<Rightarrow> socket \<Rightarrow> string \<Rightarrow> nat \<Rightarrow> string list \<Rightarrow> ('d, 'n, 'w, unit) handling" where
  "send_file_messages E sock filename i [] = act_return ()"
| "send_file_messages E sock filename i (chunk # chunks) =
     (let J = json E;
          chunk_message = put_bool J ''is_last'' (chunks = [])
            (put_string J ''chunk_data'' chunk
              (put_size J ''chunk_number'' (of_nat i)
                (put_string J ''filename'' filename
                  (put_string J ''type'' ''file_chunk'' (null_json J)))))
      in act_bind (act_catch (act_then (write_json E sock chunk_message) (act_return True)) (act_return False)) (\<lambda>sent.
           if sent then send_file_messages E sock filename (Suc i) chunks else act_return ()))"

definition send_file_to_client ::
    "('d, 'j, 'n, 'w) services \<Rightarrow> socket \<Rightarrow> string \<Rightarrow> ('d, 'n, 'w, unit) handling" where
  "send_file_to_client E sock filename =
     act_bind (repo_download_file_chunks E filename) (\<lambda>chunks.
       if chunks = [] then act_return () else send_file_messages E sock filename 0 chunks)"

text \<open>
  After the last chunk: the first pending transfer of the file, when its receiver is connected, is
  carried out and erased. An exception leaves it pending. Behind the erasure the receiver is read
  through the erased iterator, for a log line that is always written: undefined behaviour, which no
  handler catches.
\<close>

definition erased_transfer :: exn where
  "erased_transfer = Undefined_behaviour ''erased iterator dereferenced''"

definition notify_receiver ::
    "('d, 'j, 'n, 'w) services \<Rightarrow> string \<Rightarrow> ('d, 'n, 'w, unit) handling" where
  "notify_receiver E filename =
     act_bind (act_gets (\<lambda>s. List.find (\<lambda>t. pft_filename t = filename) (sv_pending s))) (\<lambda>pending.
       case pending of
         None \<Rightarrow> act_return ()
       | Some transfer \<Rightarrow>
           act_bind (act_gets (\<lambda>s. get_client_socket (pft_receiver_id transfer) (sv_clients s))) (\<lambda>receiver_socket.
             case receiver_socket of
               None \<Rightarrow> act_return ()
             | Some receiver_sock \<Rightarrow>
                 act_catch
                   (act_then
                     (write_json E receiver_sock
                       (put_int (json E) ''sender_id'' (pft_sender_id transfer)
                         (put_string (json E) ''filename'' filename
                           (put_string (json E) ''type'' ''incoming_file'' (null_json (json E))))))
                     (act_then (send_file_to_client E receiver_sock filename)
                       (act_then (act_modify (\<lambda>s. s\<lparr>sv_pending := remove1 transfer (sv_pending s)\<rparr>))
                         (act_lift (Inl erased_transfer)))))
                   (act_return ())))"

definition upload_of :: "string \<Rightarrow> (string \<Rightarrow> upload_state option) \<Rightarrow> upload_state" where
  "upload_of filename uploads =
     (case uploads filename of Some u \<Rightarrow> u | None \<Rightarrow> \<lparr>last_chunk_received = 0, completed = False\<rparr>)"

definition ack_json :: "'j json_ops \<Rightarrow> string \<Rightarrow> u64 \<Rightarrow> 'j" where
  "ack_json J filename chunk_number =
     put_size J ''chunk_number'' chunk_number
       (put_string J ''filename'' filename
         (put_string J ''type'' ''chunk_acknowledgment'' (null_json J)))"

definition refuse_json :: "'j json_ops \<Rightarrow> string \<Rightarrow> 'j \<Rightarrow> 'j" where
  "refuse_json J reason j = put_string J ''error'' reason (put_string J ''status'' ''error'' j)"

definition set_upload :: "string \<Rightarrow> upload_state \<Rightarrow> ('d, 'n, 'w) handler \<Rightarrow> ('d, 'n, 'w) handler" where
  "set_upload filename u s = s\<lparr>sv_uploads := (sv_uploads s)(filename \<mapsto> u)\<rparr>"

text \<open>What happens to the chunk; the result is the acknowledgement.\<close>

definition receive_chunk ::
    "('d, 'j, 'n, 'w) services \<Rightarrow> string \<Rightarrow> string \<Rightarrow> u64 \<Rightarrow> bool \<Rightarrow> ('d, 'n, 'w, 'j) handling" where
  "receive_chunk E filename chunk_data chunk_number is_last =
     (let J = json E; response = ack_json J filename chunk_number in
      act_bind (act_gets (\<lambda>s. upload_of filename (sv_uploads s))) (\<lambda>u.
        act_then (act_modify (set_upload filename u))
          (if chunk_number \<noteq> last_chunk_received u + 1
           then act_return (refuse_json J ''wrong_chunk_order'' response)
           else act_bind (upload_file_chunk E filename chunk_data) (\<lambda>uploaded.
             if uploaded
             then act_then (act_modify (set_upload filename (u\<lparr>last_chunk_received := chunk_number\<rparr>)))
               (act_then
                 (if is_last
                  then act_then
                    (act_modify (set_upload filename (u\<lparr>last_chunk_received := chunk_number, completed := True\<rparr>)))
                    (notify_receiver E filename)
                  else act_return ())
                 (act_return (put_string J ''status'' ''success'' response)))
             else act_return (refuse_json J ''upload_failed'' response)))))"

definition handle_file_chunk ::
    "('d, 'j, 'n, 'w) services \<Rightarrow> socket \<Rightarrow> 'j \<Rightarrow> ('d, 'n, 'w, unit) handling" where
  "handle_file_chunk E sock request =
     act_bind (act_lift (read_string (json E) request ''filename'')) (\<lambda>filename.
       act_bind (act_lift (read_string (json E) request ''chunk_data'')) (\<lambda>chunk_data.
         act_bind (act_lift (read_size (json E) request ''chunk_number'')) (\<lambda>chunk_number.
           act_bind (act_lift (read_bool (json E) request ''is_last'')) (\<lambda>is_last.
             act_bind (receive_chunk E filename chunk_data chunk_number is_last) (\<lambda>response.
               act_catch (write_json E sock response) (act_return ()))))))"

section \<open>Dispatch\<close>

definition is_request :: "'j json_ops \<Rightarrow> 'j \<Rightarrow> string \<Rightarrow> bool" where
  "is_request J request name \<longleftrightarrow>
     (case find_field J request ''type'' of Some v \<Rightarrow> equals_string J v name | None \<Rightarrow> False)"

definition dispatch ::
    "('d, 'j, 'n, 'w) services \<Rightarrow> socket \<Rightarrow> 'j \<Rightarrow> ('d, 'n, 'w, unit) handling" where
  "dispatch E sock request =
     (if contains (json E) request ''type''
      then if is_request (json E) request ''register'' then handle_register E sock request
        else if is_request (json E) request ''authorize'' then handle_authorize E sock request
        else if is_request (json E) request ''send_message'' then handle_send_message E sock request
        else if is_request (json E) request ''file_chunk'' then handle_file_chunk E sock request
        else if is_request (json E) request ''get_user_keys'' then handle_get_user_keys E sock request
        else if is_request (json E) request ''send_aes_key'' then handle_send_aes_key E sock request
        else write_json_ec E sock (error_json (json E) ''Unknown request type'')
      else write_json_ec E sock (error_json (json E) ''Missing request type''))"

text \<open>\<open>std::getline\<close>: the text before the first line feed of what was read.\<close>

definition first_line :: "string \<Rightarrow> string" where
  "first_line text = takeWhile (\<lambda>c. c \<noteq> CHR 0x0A) text"

text \<open>
  One round of the loop. Only \<open>parse_error\<close> is caught, from the parsing or from a handler; any
  other exception leaves the loop.
\<close>

definition handle_text ::
    "('d, 'j, 'n, 'w) services \<Rightarrow> socket \<Rightarrow> string \<Rightarrow> ('d, 'n, 'w, unit) handling" where
  "handle_text E sock text s =
     (case act_bind (act_lift (parse_json (json E) (first_line text))) (dispatch E sock) s of
        Some (Inl Json_parse_error, s') \<Rightarrow> write_json_ec E sock (error_json (json E) ''Invalid JSON format'') s'
      | r \<Rightarrow> r)"

text \<open>
  The loop on one connection. Everything that was read is consumed after the first line was
  handled. An error other than the end of the file is logged, and the loop goes on.
\<close>

partial_function (option) handle_request ::
    "('d, 'j, 'n, 'w) services \<Rightarrow> socket \<Rightarrow> ('d, 'n, 'w) handler \<Rightarrow> ((exn + unit) \<times> ('d, 'n, 'w) handler) option" where
  "handle_request E sock s =
     (case sock_read_until (socks E) sock (sv_socks s) of ((text, err), w) \<Rightarrow>
        (if err = Some Eof
         then Some (Inr (), s\<lparr>sv_socks := w, sv_clients := remove_client_by_socket sock (sv_clients s)\<rparr>)
         else (case handle_text E sock text (s\<lparr>sv_socks := w\<rparr>) of
             None \<Rightarrow> None
           | Some (r, s1) \<Rightarrow>
               (case r of Inl e \<Rightarrow> Some (Inl e, s1) | Inr _ \<Rightarrow> handle_request E sock s1))))"

end
