(* ===== verification/File_Transfer.thy ===== *)
theory File_Transfer
  imports Request_Handler
begin

text \<open>
  A file on its way from the sender through the server to the file server, and what the receiver is
  sent: what \<open>receive_chunk\<close>, \<open>notify_receiver\<close> and \<open>send_file_to_client\<close> do together.
\<close>

section \<open>Sockets that deliver\<close>

text \<open>Every write succeeds, and \<open>sent\<close> records it.\<close>

definition sends_all :: "'w socket_ops \<Rightarrow> ('w \<Rightarrow> (socket \<times> string) list) \<Rightarrow> bool" where
  "sends_all S sent \<longleftrightarrow>
     (\<forall>sock text w. \<exists>w'. sock_write S sock text w = (Inr (), w') \<and> sent w' = sent w @ [(sock, text)])"

text \<open>What is written for a json value.\<close>

definition wire :: "'j json_ops \<Rightarrow> 'j \<Rightarrow> string" where
  "wire J j = (case dump_json J j of Inr text \<Rightarrow> text @ delimiter | Inl _ \<Rightarrow> [])"

definition reliable :: "('d, 'j, 'n, 'w) services \<Rightarrow> ('w \<Rightarrow> (socket \<times> string) list) \<Rightarrow> bool" where
  "reliable E sent \<longleftrightarrow> json_laws (json E) \<and> dump_laws (json E) \<and> sends_all (socks E) sent"

lemma reliable_laws [simp]:
  "reliable E sent \<Longrightarrow> json_laws (json E)" "reliable E sent \<Longrightarrow> dump_laws (json E)"
  by (simp_all add: reliable_def)

lemma write_json_plain:
  assumes "reliable E sent" "plain (json E) j"
  shows "\<exists>w'. write_json E sock j s = Some (Inr (), s\<lparr>sv_socks := w'\<rparr>) \<and>
    sent w' = sent (sv_socks s) @ [(sock, wire (json E) j)]"
proof -
  obtain t where t: "dump_json (json E) j = Inr t" using dump_plain [OF reliable_laws(2) [OF assms(1)] assms(2)] by blast
  obtain w' where "sock_write (socks E) sock (t @ delimiter) (sv_socks s) = (Inr (), w')"
    "sent w' = sent (sv_socks s) @ [(sock, t @ delimiter)]"
    using assms(1) unfolding reliable_def sends_all_def by blast
  then show ?thesis using t
    by (intro exI [of _ w']) (simp add: write_json_def write_socket_def act_run wire_def)
qed

lemma write_json_ec_plain:
  assumes "reliable E sent" "plain (json E) j"
  shows "\<exists>w'. write_json_ec E sock j s = Some (Inr (), s\<lparr>sv_socks := w'\<rparr>) \<and>
    sent w' = sent (sv_socks s) @ [(sock, wire (json E) j)]"
proof -
  obtain t where t: "dump_json (json E) j = Inr t" using dump_plain [OF reliable_laws(2) [OF assms(1)] assms(2)] by blast
  obtain w' where "sock_write (socks E) sock (t @ delimiter) (sv_socks s) = (Inr (), w')"
    "sent w' = sent (sv_socks s) @ [(sock, t @ delimiter)]"
    using assms(1) unfolding reliable_def sends_all_def by blast
  then show ?thesis using t
    by (intro exI [of _ w']) (simp add: write_json_ec_def act_run wire_def)
qed

section \<open>To the receiver\<close>

definition chunk_json :: "'j json_ops \<Rightarrow> string \<Rightarrow> nat \<Rightarrow> string \<Rightarrow> bool \<Rightarrow> 'j" where
  "chunk_json J filename i chunk is_last =
     put_bool J ''is_last'' is_last
       (put_string J ''chunk_data'' chunk
         (put_size J ''chunk_number'' (of_nat i)
           (put_string J ''filename'' filename (put_string J ''type'' ''file_chunk'' (null_json J)))))"

lemma chunk_json_plain:
  "json_laws J \<Longrightarrow> ascii filename \<Longrightarrow> ascii chunk \<Longrightarrow> plain J (chunk_json J filename i chunk b)"
  unfolding chunk_json_def by (intro plain_field plain_start plain_value.intros) simp_all

text \<open>The messages for the chunks from number \<open>i\<close> on.\<close>

fun chunk_messages :: "'j json_ops \<Rightarrow> string \<Rightarrow> nat \<Rightarrow> string list \<Rightarrow> 'j list" where
  "chunk_messages J filename i [] = []"
| "chunk_messages J filename i (chunk # chunks) =
     chunk_json J filename i chunk (chunks = []) # chunk_messages J filename (Suc i) chunks"

lemma send_file_messages_plain:
  assumes "reliable E sent" "ascii filename" "\<forall>c \<in> set chunks. ascii c"
  shows "\<exists>w'. send_file_messages E sock filename i chunks s = Some (Inr (), s\<lparr>sv_socks := w'\<rparr>) \<and>
    sent w' = sent (sv_socks s) @ map (\<lambda>j. (sock, wire (json E) j)) (chunk_messages (json E) filename i chunks)"
  using assms(3)
proof (induction chunks arbitrary: i s)
  case Nil
  show ?case by (intro exI [of _ "sv_socks s"]) (simp add: act_run)
next
  case (Cons c cs)
  let ?j = "chunk_json (json E) filename i c (cs = [])"
  have "plain (json E) ?j"
    by (rule chunk_json_plain [OF reliable_laws(1) [OF assms(1)] assms(2)]) (use Cons.prems in simp)
  then obtain w1 where w1: "write_json E sock ?j s = Some (Inr (), s\<lparr>sv_socks := w1\<rparr>)"
    "sent w1 = sent (sv_socks s) @ [(sock, wire (json E) ?j)]"
    using write_json_plain [OF assms(1)] by blast
  obtain w2 where w2: "send_file_messages E sock filename (Suc i) cs (s\<lparr>sv_socks := w1\<rparr>) =
      Some (Inr (), s\<lparr>sv_socks := w2\<rparr>)"
    "sent w2 = sent w1 @ map (\<lambda>j. (sock, wire (json E) j)) (chunk_messages (json E) filename (Suc i) cs)"
    using Cons.IH [of "Suc i" "s\<lparr>sv_socks := w1\<rparr>"] Cons.prems by auto
  have "act_catch (act_then (write_json E sock ?j) (act_return True)) (act_return False) s =
      Some (Inr True, s\<lparr>sv_socks := w1\<rparr>)"
    by (intro act_catch_simps) (simp add: act_run w1(1))
  then show ?case using w1(2) w2
    by (intro exI [of _ w2]) (simp add: Let_def act_run flip: chunk_json_def)
qed

section \<open>From the sender\<close>

lemma upload_file_chunk_stores:
  assumes "http_uploads (beast E) io srv" "willing io" "is_valid_filename name"
    and "get_filepath_by_name io (srv (rm_net s)) name = Inr p" "length body \<le> 512"
    and "length (contents p (srv (rm_net s))) + length body \<le> unat (fs_max_file_size (srv (rm_net s)))"
  shows "\<exists>n'. upload_file_chunk E name body s = Some (Inr True, s\<lparr>rm_net := n'\<rparr>) \<and>
    srv n' = append_to p body (get_or_create_mutex p (srv (rm_net s)))"
proof -
  have "upload_file io name body (srv (rm_net s)) = (Inr (), [(Ok_code, ''File uploaded successfully'')],
      append_to p body (get_or_create_mutex p (srv (rm_net s))))"
    by (rule upload_file_accepts [OF assms(2-6)])
  from upload_chunk_through [OF assms(1,3,5) this, of "rm_file_client s"] show ?thesis
    by (auto simp: upload_file_chunk_def act_run)
qed

text \<open>All chunks of a file, numbered from \<open>n\<close>, the last one marked.\<close>

fun receive_chunks ::
    "('d, 'j, 'n, 'w) services \<Rightarrow> string \<Rightarrow> u64 \<Rightarrow> string list \<Rightarrow> ('d, 'n, 'w, 'j list) handling" where
  "receive_chunks E filename n [] = act_return []"
| "receive_chunks E filename n (body # bodies) =
     act_bind (receive_chunk E filename body n (bodies = [])) (\<lambda>ack.
       act_bind (receive_chunks E filename (n + 1) bodies) (\<lambda>acks. act_return (ack # acks)))"

definition success_acks :: "'j json_ops \<Rightarrow> string \<Rightarrow> u64 \<Rightarrow> nat \<Rightarrow> 'j list" where
  "success_acks J filename n k =
     map (\<lambda>i. put_string J ''status'' ''success'' (ack_json J filename (n + of_nat i))) [0..<k]"

lemma success_acks_Suc:
  "success_acks J filename n (Suc k) =
     put_string J ''status'' ''success'' (ack_json J filename n) # success_acks J filename (n + 1) k"
  by (simp add: success_acks_def upt_conv_Cons add.assoc flip: map_Suc_upt del: upt_Suc)


definition notification_json :: "'j json_ops \<Rightarrow> string \<Rightarrow> i32 \<Rightarrow> 'j" where
  "notification_json J filename sender =
     put_int J ''sender_id'' sender
       (put_string J ''filename'' filename (put_string J ''type'' ''incoming_file'' (null_json J)))"

lemma notification_json_plain: "json_laws J \<Longrightarrow> ascii filename \<Longrightarrow> plain J (notification_json J filename sender)"
  unfolding notification_json_def by (intro plain_field plain_start plain_value.intros) simp_all

text \<open>The pending transfer that the last chunk of a file carries out, and the socket of its receiver.\<close>

definition notified :: "string \<Rightarrow> ('d, 'n, 'w) handler \<Rightarrow> (pending_file_transfer \<times> socket) option" where
  "notified name s =
     (case List.find (\<lambda>t. pft_filename t = name) (sv_pending s) of
        None \<Rightarrow> None
      | Some t \<Rightarrow> map_option (\<lambda>sock. (t, sock)) (get_client_socket (pft_receiver_id t) (sv_clients s)))"

lemma notified_Some:
  "notified name s = Some (t, sock) \<longleftrightarrow>
    List.find (\<lambda>t. pft_filename t = name) (sv_pending s) = Some t \<and>
    get_client_socket (pft_receiver_id t) (sv_clients s) = Some sock"
  by (auto simp: notified_def split: option.splits)

lemma notify_nobody: "notified name s = None \<Longrightarrow> notify_receiver E name s = Some (Inr (), s)"
  by (auto simp: notified_def notify_receiver_def act_run split: option.splits)

text \<open>
  Whatever the download gives is sent to the receiver, the transfer is erased, and then the erased
  transfer is read.
\<close>

lemma notify_undefined:
  assumes rel: "reliable E sent" and name: "ascii name" "\<forall>c \<in> set chunks. ascii c"
    and "notified name s = Some (t, sock)"
    and "download_file_chunks (beast E) (rm_file_client s) name (rm_net s) = Some (Inr chunks, n')"
  shows "\<exists>w'. notify_receiver E name s =
      Some (Inl erased_transfer, s\<lparr>sv_socks := w', rm_net := n', sv_pending := remove1 t (sv_pending s)\<rparr>) \<and>
    sent w' = sent (sv_socks s) @ map (\<lambda>j. (sock, wire (json E) j))
      (notification_json (json E) name (pft_sender_id t) # chunk_messages (json E) name 0 chunks)"
proof -
  let ?n = "notification_json (json E) name (pft_sender_id t)"
  have "plain (json E) ?n" by (rule notification_json_plain [OF reliable_laws(1) [OF rel] name(1)])
  then obtain w1 where w1: "write_json E sock ?n s = Some (Inr (), s\<lparr>sv_socks := w1\<rparr>)"
    "sent w1 = sent (sv_socks s) @ [(sock, wire (json E) ?n)]"
    using write_json_plain [OF rel] by blast
  have down: "repo_download_file_chunks E name (s\<lparr>sv_socks := w1\<rparr>) =
      Some (Inr chunks, s\<lparr>rm_net := n', sv_socks := w1\<rparr>)"
    using assms(5) by (simp add: repo_download_file_chunks_def)
  obtain w2 where w2: "send_file_messages E sock name 0 chunks (s\<lparr>rm_net := n', sv_socks := w1\<rparr>) =
      Some (Inr (), s\<lparr>rm_net := n', sv_socks := w2\<rparr>)"
    "sent w2 = sent w1 @ map (\<lambda>j. (sock, wire (json E) j)) (chunk_messages (json E) name 0 chunks)"
    using send_file_messages_plain [OF rel name, of sock 0 "s\<lparr>rm_net := n', sv_socks := w1\<rparr>"] by auto
  have "\<exists>w'. send_file_to_client E sock name (s\<lparr>sv_socks := w1\<rparr>) = Some (Inr (), s\<lparr>sv_socks := w', rm_net := n'\<rparr>) \<and>
    sent w' = sent w1 @ map (\<lambda>j. (sock, wire (json E) j)) (chunk_messages (json E) name 0 chunks)"
  proof (cases "chunks = []")
    case True
    then show ?thesis using down by (intro exI [of _ w1]) (simp add: send_file_to_client_def act_run)
  next
    case False
    then show ?thesis using down w2 by (intro exI [of _ w2]) (simp add: send_file_to_client_def act_run)
  qed
  then obtain w' where w': "send_file_to_client E sock name (s\<lparr>sv_socks := w1\<rparr>) = Some (Inr (), s\<lparr>sv_socks := w', rm_net := n'\<rparr>)"
    "sent w' = sent w1 @ map (\<lambda>j. (sock, wire (json E) j)) (chunk_messages (json E) name 0 chunks)" by blast
  let ?act = "act_then (write_json E sock ?n) (act_then (send_file_to_client E sock name)
      (act_then (act_modify (\<lambda>s. s\<lparr>sv_pending := remove1 t (sv_pending s)\<rparr>)) (act_lift (Inl erased_transfer))))"
  have "?act s = Some (Inl erased_transfer, s\<lparr>sv_socks := w', rm_net := n', sv_pending := remove1 t (sv_pending s)\<rparr>)"
    using w1(1) w'(1) by (simp add: act_run)
  then have "act_catch ?act (act_return ()) s =
      Some (Inl erased_transfer, s\<lparr>sv_socks := w', rm_net := n', sv_pending := remove1 t (sv_pending s)\<rparr>)"
    unfolding erased_transfer_def by (rule act_catch_undefined)
  then show ?thesis
    using assms(4) w1(2) w'(2) unfolding notify_receiver_def notified_Some
    by (intro exI [of _ w']) (simp add: act_bind_direct notification_json_def)
qed

lemma receive_chunk_stores:
  assumes net: "http_uploads (beast E) io srv" "willing io" "is_valid_filename name"
    and stored: "get_filepath_by_name io (srv (rm_net s)) name = Inr p" "length body \<le> 512"
      "length (contents p (srv (rm_net s))) + length body \<le> unat (fs_max_file_size (srv (rm_net s)))"
    and n: "last_chunk_received (upload_of name (sv_uploads s)) + 1 = n"
  shows "\<exists>n'. srv n' = append_to p body (get_or_create_mutex p (srv (rm_net s))) \<and>
    receive_chunk E name body n is_last s =
      act_bind
        (if is_last then notify_receiver E name else act_return ())
        (\<lambda>_. act_return (put_string (json E) ''status'' ''success'' (ack_json (json E) name n)))
        (set_upload name ((upload_of name (sv_uploads s))
            \<lparr>last_chunk_received := n, completed := completed (upload_of name (sv_uploads s)) \<or> is_last\<rparr>)
          (s\<lparr>rm_net := n'\<rparr>))"
proof -
  let ?u = "upload_of name (sv_uploads s)"
  have up: "\<exists>n'. upload_file_chunk E name body (set_upload name ?u s) = Some (Inr True, (set_upload name ?u s)\<lparr>rm_net := n'\<rparr>) \<and>
    srv n' = append_to p body (get_or_create_mutex p (srv (rm_net s)))"
    using upload_file_chunk_stores [OF net, of "set_upload name ?u s" p body] stored by (simp add: set_upload_def)
  then obtain n' where n': "upload_file_chunk E name body (set_upload name ?u s) =
      Some (Inr True, (set_upload name ?u s)\<lparr>rm_net := n'\<rparr>)"
    "srv n' = append_to p body (get_or_create_mutex p (srv (rm_net s)))" by blast
  show ?thesis
  proof (intro exI [of _ n'] conjI)
    show "receive_chunk E name body n is_last s =
      act_bind
        (if is_last then notify_receiver E name else act_return ())
        (\<lambda>_. act_return (put_string (json E) ''status'' ''success'' (ack_json (json E) name n)))
        (set_upload name (?u\<lparr>last_chunk_received := n, completed := completed ?u \<or> is_last\<rparr>) (s\<lparr>rm_net := n'\<rparr>))"
      using n n'(1) by (cases is_last) (simp_all add: receive_chunk_def Let_def act_run set_upload_def)
  qed (rule n'(2))
qed


text \<open>What has to hold of the state before the rest of a file arrives, \<open>n\<close> being the next number.\<close>

definition transfer_ready ::
    "('n \<Rightarrow> file_server) \<Rightarrow> io_outcome \<Rightarrow> string \<Rightarrow> string \<Rightarrow> u64 \<Rightarrow> string list \<Rightarrow> ('d, 'n, 'w) handler \<Rightarrow> bool" where
  "transfer_ready srv io name p n bodies s \<longleftrightarrow>
     get_filepath_by_name io (srv (rm_net s)) name = Inr p \<and> (\<forall>b \<in> set bodies. length b \<le> 512) \<and>
     length (contents p (srv (rm_net s))) + length (concat bodies) \<le> unat (fs_max_file_size (srv (rm_net s))) \<and>
     last_chunk_received (upload_of name (sv_uploads s)) + 1 = n"

lemma notified_frame [simp]:
  "notified name (s\<lparr>rm_net := n\<rparr>) = notified name s" "notified name (s\<lparr>sv_socks := w\<rparr>) = notified name s"
  "notified name (set_upload other u s) = notified name s"
  by (simp_all add: notified_def set_upload_def split: option.split)

lemma upload_of_set [simp]: "upload_of name (sv_uploads (set_upload name u s)) = u"
  by (simp add: set_upload_def upload_of_def)

lemma set_upload_frame [simp]:
  "sv_socks (set_upload name u s) = sv_socks s" "rm_net (set_upload name u s) = rm_net s"
  "sv_pending (set_upload name u s) = sv_pending s" "sv_clients (set_upload name u s) = sv_clients s"
  by (simp_all add: set_upload_def)

lemma receive_chunks_store:
  assumes net: "http_uploads (beast E) io srv" "willing io" "is_valid_filename name"
    and "transfer_ready srv io name p n bodies s" "notified name s = None"
  shows "\<exists>s'. receive_chunks E name n bodies s = Some (Inr (success_acks (json E) name n (length bodies)), s') \<and>
    contents p (srv (rm_net s')) = contents p (srv (rm_net s)) @ concat bodies \<and>
    (bodies \<noteq> [] \<longrightarrow> fs_files (srv (rm_net s')) p \<noteq> None) \<and>
    sv_socks s' = sv_socks s \<and> sv_pending s' = sv_pending s"
  using assms(4,5)
proof (induction bodies arbitrary: n s)
  case Nil
  then show ?case by (simp add: act_run success_acks_def)
next
  case (Cons b bs)
  let ?u = "upload_of name (sv_uploads s)"
  note ready = Cons.prems(1) [unfolded transfer_ready_def]
  define u where "u = ?u\<lparr>last_chunk_received := n, completed := completed ?u \<or> bs = []\<rparr>"
  obtain n' where n': "srv n' = append_to p b (get_or_create_mutex p (srv (rm_net s)))"
    and chunk: "receive_chunk E name b n (bs = []) s =
      act_bind (if bs = [] then notify_receiver E name else act_return ())
        (\<lambda>_. act_return (put_string (json E) ''status'' ''success'' (ack_json (json E) name n)))
        (set_upload name u (s\<lparr>rm_net := n'\<rparr>))"
    using receive_chunk_stores [OF net, of s p b n "bs = []"] ready by (auto simp: u_def)
  define s1 where "s1 = set_upload name u (s\<lparr>rm_net := n'\<rparr>)"
  have s1: "srv (rm_net s1) = append_to p b (get_or_create_mutex p (srv (rm_net s)))"
    "sv_socks s1 = sv_socks s" "sv_pending s1 = sv_pending s" "notified name s1 = None"
    "upload_of name (sv_uploads s1) = u" using Cons.prems(2) by (simp_all add: s1_def n')
  have content: "contents p (srv (rm_net s1)) = contents p (srv (rm_net s)) @ b" by (simp add: s1)
  have here: "fs_files (srv (rm_net s1)) p \<noteq> None" by (simp add: s1 append_to_def)
  have one: "receive_chunk E name b n (bs = []) s =
      Some (Inr (put_string (json E) ''status'' ''success'' (ack_json (json E) name n)), s1)"
    unfolding chunk using notify_nobody [OF s1(4), of E] by (simp add: act_run flip: s1_def)
  have "transfer_ready srv io name p (n + 1) bs s1"
    using ready s1 content by (simp add: transfer_ready_def u_def)
  from Cons.IH [OF this s1(4)] obtain s' where IH: "receive_chunks E name (n + 1) bs s1 =
      Some (Inr (success_acks (json E) name (n + 1) (length bs)), s')"
    "contents p (srv (rm_net s')) = contents p (srv (rm_net s1)) @ concat bs"
    "bs \<noteq> [] \<longrightarrow> fs_files (srv (rm_net s')) p \<noteq> None"
    "sv_socks s' = sv_socks s1" "sv_pending s' = sv_pending s1" by blast
  have "receive_chunks E name n (b # bs) s = Some (Inr (success_acks (json E) name n (length (b # bs))), s')"
    using one IH(1) by (simp add: act_run success_acks_Suc)
  moreover have "fs_files (srv (rm_net s')) p \<noteq> None"
    using IH(1,3) here by (cases "bs = []") (simp_all add: act_run)
  ultimately show ?case using IH(2,4,5) s1 content by (intro exI [of _ s']) simp
qed

section \<open>Properties\<close>

text \<open>What the announcement of a file prepares.\<close>

lemma announced_ready:
  assumes "get_filepath_by_name io (srv (rm_net s)) name = Inr p" "\<forall>b \<in> set bodies. length b \<le> 512"
    and "length (contents p (srv (rm_net s))) + length (concat bodies) \<le> unat (fs_max_file_size (srv (rm_net s)))"
  shows "transfer_ready srv io name p 1 bodies (announce_transfer name sender receiver s)"
    and "rm_net (announce_transfer name sender receiver s) = rm_net s"
    and "sv_socks (announce_transfer name sender receiver s) = sv_socks s"
    and "sv_pending (announce_transfer name sender receiver s) =
      sv_pending s @ [\<lparr>pft_filename = name, pft_sender_id = sender, pft_receiver_id = receiver\<rparr>]"
  using assms by (simp_all add: transfer_ready_def announce_transfer_def upload_of_def)

lemma find_snoc:
  "List.find P (xs @ [x]) = (case List.find P xs of None \<Rightarrow> (if P x then Some x else None) | Some y \<Rightarrow> Some y)"
  by (induction xs) auto

lemma announced_notified:
  assumes "notified name s = None" "get_client_socket receiver (sv_clients s) = None"
  shows "notified name (announce_transfer name sender receiver s) = None"
  using assms by (auto simp: notified_def announce_transfer_def find_snoc split: option.splits)

text \<open>
  C10: A file that was stored before is not replaced: when its name is announced again and its chunks
  are sent again, every chunk is acknowledged, and the file server then has the stored file followed
  by the new one. This is for a receiver who is not connected; the new transfer stays pending.
\<close>

theorem resent_file_appended:
  assumes "http_uploads (beast E) io srv" "willing io" "is_valid_filename name"
    and "bodies \<noteq> []" "\<forall>b \<in> set bodies. length b \<le> 512"
    and "get_filepath_by_name io (srv (rm_net s)) name = Inr p" "fs_files (srv (rm_net s)) p = Some stored"
    and "length (stored @ concat bodies) \<le> unat (fs_max_file_size (srv (rm_net s)))"
    and "notified name s = None" "get_client_socket receiver (sv_clients s) = None"
  shows "\<exists>s'. receive_chunks E name 1 bodies (announce_transfer name sender receiver s) =
      Some (Inr (success_acks (json E) name 1 (length bodies)), s') \<and>
    fs_files (srv (rm_net s')) p = Some (stored @ concat bodies) \<and>
    sv_pending s' = sv_pending s @ [\<lparr>pft_filename = name, pft_sender_id = sender, pft_receiver_id = receiver\<rparr>]"
proof -
  have old: "contents p (srv (rm_net s)) = stored" using assms(7) by (simp add: contents_def)
  then have "length (contents p (srv (rm_net s))) + length (concat bodies) \<le> unat (fs_max_file_size (srv (rm_net s)))"
    using assms(8) by simp
  note ready = announced_ready [where srv = srv and s = s and sender = sender and receiver = receiver, OF assms(6,5) this]
  obtain s' where s': "receive_chunks E name 1 bodies (announce_transfer name sender receiver s) =
      Some (Inr (success_acks (json E) name 1 (length bodies)), s')"
    "contents p (srv (rm_net s')) = stored @ concat bodies" "fs_files (srv (rm_net s')) p \<noteq> None"
    "sv_pending s' = sv_pending s @ [\<lparr>pft_filename = name, pft_sender_id = sender, pft_receiver_id = receiver\<rparr>]"
    using receive_chunks_store [OF assms(1-3) ready(1) announced_notified [OF assms(9,10)]]
    unfolding ready(2-4) old using assms(4) by blast
  then have "fs_files (srv (rm_net s')) p = Some (stored @ concat bodies)" by (auto simp: contents_def)
  then show ?thesis using s' by blast
qed

text \<open>The libraries in memory: sockets that record what is written.\<close>

definition recording_socks :: "(socket \<times> string) list socket_ops" where
  "recording_socks = \<lparr>sock_write = (\<lambda>sock text w. (Inr (), w @ [(sock, text)])),
     sock_read_until = (\<lambda>sock w. (([], Some Eof), w))\<rparr>"

definition example_services ::
    "(tables, jval, file_server \<times> string list, (socket \<times> string) list) services" where
  "example_services = \<lparr>pg = example_pg, json = example_json, hex = example_hex,
     beast = loop_network willing_io, socks = recording_socks, clock = 0\<rparr>"

definition example_handler :: "clients \<Rightarrow> (tables, file_server \<times> string list, (socket \<times> string) list) handler" where
  "example_handler cs = \<lparr>rm_connections = (\<lambda>_. Some \<lparr>t_users = [], t_keys = [], t_next = 1\<rparr>),
     rm_file_client = file_client_new ''localhost'' ''9080'',
     rm_net = (file_server_new ''media'' 1000 (\<lambda>_. None), []),
     sv_socks = [], sv_clients = cs, sv_pending = [], sv_uploads = Map.empty, sv_user_counter = 1\<rparr>"

lemma example_reliable: "reliable example_services (\<lambda>w. w)"
  by (simp add: reliable_def example_services_def example_json_laws example_dump_laws sends_all_def
      recording_socks_def)

lemma example_uploads: "http_uploads (beast example_services) willing_io fst"
  by (simp add: example_services_def loop_network_uploads)

lemma willing_example: "willing willing_io"
  by (simp add: willing_def willing_io_def)

theorem resent_file_appended_witness:
  "\<exists>s s'. fs_files (fst (rm_net s)) ''media/AB/CD/ABCDEFGHIJKLMNOP.txt'' = Some ''abc'' \<and>
    receive_chunks example_services ''ABCDEFGHIJKLMNOP.txt'' 1 [''abc'']
      (announce_transfer ''ABCDEFGHIJKLMNOP.txt'' 5 7 s) =
      Some (Inr (success_acks example_json ''ABCDEFGHIJKLMNOP.txt'' 1 1), s') \<and>
    fs_files (fst (rm_net s')) ''media/AB/CD/ABCDEFGHIJKLMNOP.txt'' = Some ''abcabc''"
proof -
  let ?f = "''ABCDEFGHIJKLMNOP.txt''" and ?p = "''media/AB/CD/ABCDEFGHIJKLMNOP.txt''"
  define fs where "fs = file_server_new ''media'' 1000 [?p \<mapsto> ''abc'']"
  define s where "s = (example_handler [])\<lparr>rm_net := (fs, [])\<rparr>"
  have fs: "fs_files fs ?p = Some ''abc''" "fs_max_file_size fs = 1000" "base (fs_storage_dir fs) @ ''AB/CD/ABCDEFGHIJKLMNOP.txt'' = ?p"
    by (simp_all add: fs_def file_server_new_def base_def slash_def)
  have s: "rm_net s = (fs, [])" "notified ?f s = None" "get_client_socket 7 (sv_clients s) = None"
    by (simp_all add: s_def example_handler_def get_client_socket_def notified_def)
  have path: "get_filepath_by_name willing_io (fst (rm_net s)) ?f = Inr ?p"
    unfolding s(1) fst_conv by (subst fs(3) [symmetric], rule example_path)
  have j: "json example_services = example_json" by (simp add: example_services_def)
  have old: "fs_files (fst (rm_net s)) ?p = Some ''abc''" by (simp add: s fs)
  from resent_file_appended [OF example_uploads willing_example valid_example _ _ path old _ s(2,3), of "[''abc'']" 5]
  obtain s' where "receive_chunks example_services ?f 1 [''abc''] (announce_transfer ?f 5 7 s) =
      Some (Inr (success_acks example_json ?f 1 1), s')" "fs_files (fst (rm_net s')) ?p = Some ''abcabc''"
    unfolding j by (simp add: s fs del: receive_chunks.simps) blast
  with old show ?thesis by blast
qed

section \<open>The order of chunks\<close>

text \<open>Only \<open>receive_chunk\<close> itself and an announced transfer touch the upload states.\<close>

abbreviation same_uploads :: "(string \<Rightarrow> upload_state option) \<Rightarrow> ('d, 'n, 'w) handler \<Rightarrow> bool" where
  "same_uploads U s \<equiv> sv_uploads s = U"

lemma write_keeps_uploads [keeps_intros]: "keeps (same_uploads U) (write_json E sock j)"
  unfolding write_json_def write_socket_def by (intro keeps_intros keeps_on) simp

lemma download_keeps_uploads [keeps_intros]: "keeps (same_uploads U) (repo_download_file_chunks E name)"
  by (auto simp: keeps_def repo_download_file_chunks_def split: option.splits)

lemma messages_keep_uploads [keeps_intros]: "keeps (same_uploads U) (send_file_messages E sock name i chunks)"
  by (induction chunks arbitrary: i) (auto simp: Let_def intro!: keeps_intros)

lemma notify_keeps_uploads [keeps_intros]: "keeps (same_uploads U) (notify_receiver E name)"
  unfolding notify_receiver_def send_file_to_client_def by (intro keeps_intros keeps_modify) auto

text \<open>
  C12: Chunks of a file are stored in the order of their numbers. A chunk with another number than
  the next one is refused, and nothing is sent to the file server. The state of the upload advances
  by one exactly when the file server has accepted the next chunk; no other upload is touched. This
  holds for any behaviour of the libraries.
\<close>

theorem chunk_in_order:
  assumes "receive_chunk E name chunk n is_last s = Some (r, s')"
  shows "let last_n = last_chunk_received (upload_of name (sv_uploads s));
      last_n' = last_chunk_received (upload_of name (sv_uploads s')) in
    (if n = last_n + 1
     then last_n' = (if fst (upload_chunk (beast E) (rm_file_client s) name chunk (rm_net s)) = Inr True then n else last_n)
     else last_n' = last_n \<and> rm_net s' = rm_net s \<and> sv_socks s' = sv_socks s \<and>
       r = Inr (refuse_json (json E) ''wrong_chunk_order'' (ack_json (json E) name n))) \<and>
    (\<forall>other. other \<noteq> name \<longrightarrow> sv_uploads s' other = sv_uploads s other)"
proof -
  let ?u = "upload_of name (sv_uploads s)"
  let ?s = "set_upload name ?u s"
  obtain res n' where up: "upload_chunk (beast E) (rm_file_client s) name chunk (rm_net s) = (res, n')" by fastforce
  have client: "upload_file_chunk E name chunk ?s = Some (res, ?s\<lparr>rm_net := n'\<rparr>)"
    using up by (simp add: upload_file_chunk_def act_run set_upload_def)
  show ?thesis
  proof (cases "n = last_chunk_received ?u + 1 \<and> res = Inr True \<and> is_last")
    case True
    let ?u' = "?u\<lparr>last_chunk_received := n, completed := True\<rparr>"
    let ?s1 = "set_upload name ?u' (?s\<lparr>rm_net := n'\<rparr>)"
    have "act_bind (notify_receiver E name)
        (\<lambda>_. act_return (put_string (json E) ''status'' ''success'' (ack_json (json E) name n))) ?s1 = Some (r, s')"
      using assms True client by (simp add: receive_chunk_def Let_def act_run set_upload_def)
    then have "sv_uploads s' = sv_uploads ?s1"
      by (rule keepsD [rotated]) (auto intro: keeps_intros)
    then show ?thesis using True up by (simp add: set_upload_def upload_of_def Let_def)
  next
    case False
    then show ?thesis using assms client up
      by (cases res) (auto simp: receive_chunk_def Let_def act_run set_upload_def upload_of_def split: if_splits)
  qed
qed

theorem chunk_in_order_witness:
  "let (r, s') = the (receive_chunk example_services ''f'' ''x'' 3 False (example_handler [])) in
    r = Inr (refuse_json example_json ''wrong_chunk_order'' (ack_json example_json ''f'' 3)) \<and>
    rm_net s' = rm_net (example_handler [])"
proof -
  let ?s = "example_handler []"
  have zero: "last_chunk_received (upload_of ''f'' (sv_uploads ?s)) = 0"
    by (simp add: upload_of_def example_handler_def)
  obtain r s' where run: "receive_chunk example_services ''f'' ''x'' 3 False ?s = Some (r, s')"
    by (simp add: receive_chunk_def Let_def act_run zero)
  have j: "json example_services = example_json" by (simp add: example_services_def)
  from chunk_in_order [OF run] show ?thesis by (simp add: run zero j Let_def)
qed

end
