(* ===== verification/Server_Sessions.thy ===== *)
theory Server_Sessions
  imports File_Transfer
begin

text \<open>
  The life of a connection: which handler may register a client, what every run of the server keeps,
  and when the loop on a connection ends.
\<close>

section \<open>What the handlers leave alone\<close>

text \<open>What only looks at neither the network of the file server nor the sockets, of which only writes matter.\<close>

definition io_law ::
    "('d, 'j, 'n, 'w) services \<Rightarrow> (('d, 'n, 'w) handler \<Rightarrow> bool) \<Rightarrow> bool" where
  "io_law E I \<longleftrightarrow>
     (\<forall>s sock t. I s \<longrightarrow> I (s\<lparr>sv_socks := snd (sock_write (socks E) sock t (sv_socks s))\<rparr>)) \<and> (\<forall>s n. I s \<longrightarrow> I (s\<lparr>rm_net := n\<rparr>))"

lemma io_write:
  assumes "io_law E I"
  shows "keeps I (write_json E sock j)" "keeps I (write_json_ec E sock j)"
proof -
  have "keeps I (act_on sv_socks (\<lambda>w s. s\<lparr>sv_socks := w\<rparr>) (sock_write (socks E) sock t))"
    "keeps I (act_on sv_socks (\<lambda>w s. s\<lparr>sv_socks := w\<rparr>) (\<lambda>w. (Inr (), snd (sock_write (socks E) sock t w))))" for t
    using assms by (auto simp: keeps_def act_on_def io_law_def split_beta)
  then show "keeps I (write_json E sock j)" "keeps I (write_json_ec E sock j)"
    unfolding write_json_def write_json_ec_def write_socket_def by (intro keeps_intros; simp)+
qed

lemma io_download: "io_law E I \<Longrightarrow> keeps I (repo_download_file_chunks E name)"
  by (auto simp: keeps_def io_law_def repo_download_file_chunks_def split: option.splits)

lemma io_upload: "io_law E I \<Longrightarrow> keeps I (upload_file_chunk E name chunk)"
  by (auto simp: keeps_def io_law_def upload_file_chunk_def act_on_def split: prod.splits)

lemma io_messages: "io_law E I \<Longrightarrow> keeps I (send_file_messages E sock name i chunks)"
  by (induction chunks arbitrary: i) (auto simp: Let_def intro!: keeps_intros io_write)

lemma io_send_file: "io_law E I \<Longrightarrow> keeps I (send_file_to_client E sock name)"
  unfolding send_file_to_client_def by (intro keeps_intros io_download io_messages)

lemma io_deliver:
  assumes "io_law E I"
    and "\<And>name. has_file (json E) request \<Longrightarrow> read_string (json E) request ''file_name'' = Inr name \<Longrightarrow>
      keeps I (act_modify (announce_transfer name sender receiver))"
  shows "keeps I (deliver_message E sock request sender receiver msg)"
  unfolding deliver_message_def Let_def
  by (intro keeps_lift keeps_intros io_write [OF assms(1)] assms(2)) simp_all

text \<open>A property that does not look at the transfers, the uploads and the counter either.\<close>

definition frame_law ::
    "('d, 'j, 'n, 'w) services \<Rightarrow> (('d, 'n, 'w) handler \<Rightarrow> bool) \<Rightarrow> bool" where
  "frame_law E I \<longleftrightarrow> io_law E I \<and>
     (\<forall>s u. I s \<longrightarrow> I (s\<lparr>sv_uploads := u\<rparr>)) \<and> (\<forall>s p. I s \<longrightarrow> I (s\<lparr>sv_pending := p\<rparr>)) \<and>
     (\<forall>s c. I s \<longrightarrow> I (s\<lparr>sv_user_counter := c\<rparr>))"

lemma frame_io: "frame_law E I \<Longrightarrow> io_law E I"
  by (simp add: frame_law_def)

lemmas frame_write = io_write [OF frame_io]

lemma frame_notify: "frame_law E I \<Longrightarrow> keeps I (notify_receiver E name)"
  unfolding notify_receiver_def
  by (intro keeps_intros keeps_modify frame_write io_send_file [OF frame_io]) (simp_all add: frame_law_def)

lemma frame_set_upload: "frame_law E I \<Longrightarrow> keeps I (act_modify (set_upload name u))"
  by (auto simp: frame_law_def set_upload_def intro!: keeps_modify)

lemma frame_file_chunk: "frame_law E I \<Longrightarrow> keeps I (handle_file_chunk E sock request)"
  unfolding handle_file_chunk_def receive_chunk_def Let_def
  by (intro keeps_intros frame_write io_upload [OF frame_io] frame_notify frame_set_upload)

lemma frame_deliver: "frame_law E I \<Longrightarrow> keeps I (deliver_message E sock request sender receiver msg)"
  by (intro io_deliver keeps_modify) (simp_all add: frame_law_def announce_transfer_def)

text \<open>The handlers that read and write the databases, for properties that the databases keep.\<close>

lemma io_send_message:
  "io_law E I \<Longrightarrow> (\<And>nick. keeps I (get_user_id E nick)) \<Longrightarrow> (\<And>msg. keeps I (create_message E msg)) \<Longrightarrow>
   (\<And>sender receiver msg. keeps I (deliver_message E sock request sender receiver msg)) \<Longrightarrow>
   keeps I (handle_send_message E sock request)"
  unfolding handle_send_message_def Let_def by (intro keeps_intros io_write)

lemma io_send_aes_key:
  "io_law E I \<Longrightarrow> (\<And>nick. keeps I (get_user_id E nick)) \<Longrightarrow> keeps I (handle_send_aes_key E sock request)"
  unfolding handle_send_aes_key_def by (intro keeps_intros io_write)

lemma io_get_user_keys:
  "io_law E I \<Longrightarrow> (\<And>nick. keeps I (get_user_id E nick)) \<Longrightarrow> (\<And>i. keeps I (get_public_keys E i)) \<Longrightarrow>
   keeps I (handle_get_user_keys E sock request)"
  unfolding handle_get_user_keys_def by (intro keeps_intros io_write)

lemma io_register:
  "io_law E I \<Longrightarrow> (\<And>s c. I s \<Longrightarrow> I (s\<lparr>sv_user_counter := c\<rparr>)) \<Longrightarrow>
   (\<And>u. keeps I (create_user E u)) \<Longrightarrow> (\<And>i e d. keeps I (set_public_keys E i e d)) \<Longrightarrow>
   keeps I (handle_register E sock request)"
  unfolding handle_register_def
  by (intro keeps_intros io_write; (auto intro!: keeps_modify keeps_intros io_write)?)

text \<open>All requests but \<open>authorize\<close>.\<close>

definition database_law ::
    "('d, 'j, 'n, 'w) services \<Rightarrow> (('d, 'n, 'w) handler \<Rightarrow> bool) \<Rightarrow> bool" where
  "database_law E I \<longleftrightarrow>
     (\<forall>nick. keeps I (get_user_id E nick)) \<and> (\<forall>msg. keeps I (create_message E msg)) \<and>
     (\<forall>i. keeps I (get_public_keys E i)) \<and> (\<forall>u. keeps I (create_user E u)) \<and>
     (\<forall>i e d. keeps I (set_public_keys E i e d))"

lemma dispatch_keeps_io:
  assumes "io_law E I" "database_law E I" "\<And>s c. I s \<Longrightarrow> I (s\<lparr>sv_user_counter := c\<rparr>)"
    and "is_request (json E) request ''authorize'' \<Longrightarrow> keeps I (handle_authorize E sock request)"
    and "is_request (json E) request ''send_message'' \<Longrightarrow>
      (\<And>sender receiver msg. keeps I (deliver_message E sock request sender receiver msg))"
    and "is_request (json E) request ''file_chunk'' \<Longrightarrow> keeps I (handle_file_chunk E sock request)"
  shows "keeps I (dispatch E sock request)"
  using assms(2-6) unfolding dispatch_def database_law_def
  by (auto intro!: keeps_intros io_write io_register io_send_message io_get_user_keys io_send_aes_key assms(1))

lemma dispatch_keeps:
  assumes "frame_law E I" "database_law E I"
    and "is_request (json E) request ''authorize'' \<Longrightarrow> keeps I (handle_authorize E sock request)"
  shows "keeps I (dispatch E sock request)"
  using assms by (intro dispatch_keeps_io frame_io frame_deliver frame_file_chunk) (simp_all add: frame_law_def)

section \<open>Who is connected\<close>

text \<open>No handler but \<open>authorize\<close> changes the connected clients, whatever the database does.\<close>

lemma clients_frame: "frame_law E (\<lambda>s. sv_clients s = C)"
  by (simp add: frame_law_def io_law_def)

lemma clients_database: "keeps (\<lambda>s. sv_clients s = C) (on_database name f)"
  unfolding on_database_def by (rule keeps_on) simp

lemma clients_database_law: "database_law E (\<lambda>s. sv_clients s = C)"
  unfolding database_law_def get_user_id_def create_message_def get_public_keys_def create_user_def
    set_public_keys_def by (simp add: clients_database)

lemma write_keeps_clients: "write_json E sock j s = Some (r, s') \<Longrightarrow> sv_clients s' = sv_clients s"
  using keepsD [OF frame_write(1) [OF clients_frame [of E "sv_clients s"]], of sock j s r s'] by simp

lemma handle_authorize_clients:
  assumes run: "handle_authorize E sock request s = Some (r, s')"
    and laws: "pg_user_laws (pg E) users keys" and conn: "rm_connections s ''user_metadata_db'' = Some d"
  shows "sv_clients s' = sv_clients s \<or>
    (\<exists>row \<in> set (users d). sv_clients s' = add_client (row_id row) sock (sv_clients s) \<and>
      read_int (json E) request ''user_id'' = Inr (row_id row) \<and>
      read_string (json E) request ''nickname'' = Inr (row_nickname row) \<and>
      read_string (json E) request ''password'' = Inr (row_password row))"
proof (cases "\<exists>nick pass user. read_string (json E) request ''nickname'' = Inr nick \<and>
    read_string (json E) request ''password'' = Inr pass \<and> read_int (json E) request ''user_id'' = Inr user")
  case True
  then obtain nick pass user where req: "read_string (json E) request ''nickname'' = Inr nick"
    "read_string (json E) request ''password'' = Inr pass" "read_int (json E) request ''user_id'' = Inr user"
    by blast
  obtain b d' where auth: "user_authorize (pg E) (json E) user nick pass d = (Inr b, d')"
    "b \<longrightarrow> (\<exists>u \<in> set (users d). row_id u = user \<and> row_nickname u = nick \<and> row_password u = pass)"
    using user_authorize_spec [OF laws, of "json E" user nick pass d] by blast
  define s1 where "s1 = s\<lparr>rm_connections := (rm_connections s)(''user_metadata_db'' \<mapsto> d')\<rparr>"
  have step: "authorize_user E user nick pass s = Some (Inr b, s1)"
    using conn auth(1) by (simp add: authorize_user_def act_run s1_def)
  show ?thesis
  proof (cases b)
    case True
    define s2 where "s2 = s1\<lparr>sv_clients := add_client user sock (sv_clients s)\<rparr>"
    have "write_json E sock (status_json (json E) ''success'' ''Authorization successful'' (null_json (json E))) s2 = Some (r, s')"
      using run req step True by (simp add: handle_authorize_def act_run s2_def s1_def)
    then have "sv_clients s' = sv_clients s2" by (rule write_keeps_clients)
    then show ?thesis using auth(2) True req by (auto simp: s2_def)
  next
    case False
    then have "write_json E sock (error_json (json E) ''Authorization failed: Invalid credentials'') s1 = Some (r, s')"
      using run req step by (simp add: handle_authorize_def act_run)
    then have "sv_clients s' = sv_clients s1" by (rule write_keeps_clients)
    then show ?thesis by (simp add: s1_def)
  qed
next
  case False
  have "sv_clients s' = sv_clients s"
  proof (cases "read_string (json E) request ''nickname''")
    case (Inl e)
    then show ?thesis using run by (simp add: handle_authorize_def act_run)
  next
    case nick: (Inr nick)
    show ?thesis
    proof (cases "read_string (json E) request ''password''")
      case (Inl e)
      then show ?thesis using run nick by (simp add: handle_authorize_def act_run)
    next
      case (Inr pass)
      then show ?thesis using run nick False
        by (cases "read_int (json E) request ''user_id''") (simp_all add: handle_authorize_def act_run)
    qed
  qed
  then show ?thesis by simp
qed

text \<open>Users are never removed by a handler, so an id that is in the table stays there.\<close>

definition users_known ::
    "('d \<Rightarrow> user_row list) \<Rightarrow> ('d, 'n, 'w) handler \<Rightarrow> bool" where
  "users_known users s \<longleftrightarrow> (\<exists>d. rm_connections s ''user_metadata_db'' = Some d \<and>
     fst ` set (sv_clients s) \<subseteq> row_id ` set (users d))"

definition proper_services ::
    "('d, 'j, 'n, 'w) services \<Rightarrow> ('d \<Rightarrow> user_row list) \<Rightarrow> ('d \<Rightarrow> keys_row list) \<Rightarrow> bool" where
  "proper_services E users keys \<longleftrightarrow>
     pg_user_laws (pg E) users keys \<and> json_laws (json E) \<and> dump_laws (json E) \<and> hex_laws (hex E)"

lemma users_known_frame: "frame_law E (users_known users)"
  by (simp add: frame_law_def io_law_def users_known_def)

lemma users_known_grow:
  assumes "\<And>d. row_id ` set (users d) \<subseteq> row_id ` set (users (snd (f d)))"
  shows "keeps (users_known users) (on_database ''user_metadata_db'' f)"
  unfolding keeps_def
proof (intro allI impI)
  fix s r s' assume "users_known users s" and run: "on_database ''user_metadata_db'' f s = Some (r, s')"
  then obtain d where d: "rm_connections s ''user_metadata_db'' = Some d"
    "fst ` set (sv_clients s) \<subseteq> row_id ` set (users d)" by (auto simp: users_known_def)
  then have "rm_connections s' ''user_metadata_db'' = Some (snd (f d))" "sv_clients s' = sv_clients s"
    using run by (auto simp: act_run)
  then show "users_known users s'" using d(2) assms [of d] by (auto simp: users_known_def)
qed

lemma users_known_other: "name \<noteq> ''user_metadata_db'' \<Longrightarrow> keeps (users_known users) (on_database name f)"
  by (auto simp: keeps_def on_database_def act_on_def users_known_def with_connection_def
      split: sum.splits prod.splits)

lemma users_known_database:
  assumes "proper_services E users keys"
  shows "database_law E (users_known users)"
proof -
  have laws: "pg_user_laws (pg E) users keys" "json_laws (json E)" "hex_laws (hex E)"
    "\<And>j s. dump_json (json E) j \<noteq> Inl (Undefined_behaviour s)"
    using assms by (auto simp: proper_services_def dump_laws_def)
  have "users (snd (user_get_id_of (pg E) (json E) nick d)) = users d" for nick d
    using user_get_id_spec [OF laws(1), of "json E" nick d] by auto
  moreover have "users (snd (user_get_public_keys (pg E) (json E) (hex E) i d)) = users d" for i d
    using user_get_public_keys_spec [OF laws, of i d] by auto
  moreover have "users (snd (user_set_public_keys (pg E) now i e k d)) = users d" for now i e k d
    using user_set_public_keys_spec [OF laws(1), of now i e k d] by auto
  moreover have "row_id ` set (users d) \<subseteq> row_id ` set (users (snd (user_create (pg E) u d)))" for u d
    using user_create_spec [OF laws(1), of u d] by (auto split: if_splits)
  ultimately show ?thesis
    unfolding database_law_def get_user_id_def create_message_def get_public_keys_def create_user_def set_public_keys_def
    by (intro conjI allI users_known_other users_known_grow; simp)
qed

lemma add_client_ids: "fst ` set (add_client u sock m) = insert u (fst ` set m)"
  unfolding add_client_def
proof (induction m)
  case (Cons e m)
  then show ?case by (cases e) (auto dest: injD [OF inj_sint])
qed simp

lemma users_known_authorize:
  assumes "proper_services E users keys"
  shows "keeps (users_known users) (handle_authorize E sock request)"
  unfolding keeps_def
proof (intro allI impI)
  fix s r s' assume known: "users_known users s" and run: "handle_authorize E sock request s = Some (r, s')"
  have laws: "pg_user_laws (pg E) users keys" using assms by (simp add: proper_services_def)
  obtain d where d: "rm_connections s ''user_metadata_db'' = Some d"
    "fst ` set (sv_clients s) \<subseteq> row_id ` set (users d)" using known by (auto simp: users_known_def)
  let ?I = "\<lambda>s'. \<exists>d'. rm_connections s' ''user_metadata_db'' = Some d' \<and> users d' = users d"
  have frame: "frame_law E ?I" by (simp add: frame_law_def io_law_def)
  have db: "keeps ?I (authorize_user E user nick pass)" for user nick pass
    unfolding keeps_def
  proof (intro allI impI)
    fix s1 r1 s2 assume "?I s1" and run1: "authorize_user E user nick pass s1 = Some (r1, s2)"
    then obtain d1 where d1: "rm_connections s1 ''user_metadata_db'' = Some d1" "users d1 = users d" by blast
    then show "?I s2" using run1 user_authorize_spec [OF laws, of "json E" user nick pass d1]
      by (auto simp: authorize_user_def act_run)
  qed
  have "keeps ?I (handle_authorize E sock request)"
    unfolding handle_authorize_def by (intro keeps_intros db frame_write [OF frame] keeps_modify) auto
  then obtain d' where "rm_connections s' ''user_metadata_db'' = Some d'" "users d' = users d"
    using keepsD [of ?I "handle_authorize E sock request" s r s'] run d(1) by blast
  moreover have "fst ` set (sv_clients s') \<subseteq> row_id ` set (users d)"
    using handle_authorize_clients [OF run laws d(1)]
  proof (elim disjE bexE conjE)
    assume "sv_clients s' = sv_clients s"
    then show ?thesis using d(2) by simp
  next
    fix row assume "row \<in> set (users d)" "sv_clients s' = add_client (row_id row) sock (sv_clients s)"
    then show ?thesis using d(2) by (simp add: add_client_ids)
  qed
  ultimately show "users_known users s'" by (auto simp: users_known_def)
qed

lemma handle_text_keeps:
  assumes "keeps I (write_json_ec E sock (error_json (json E) ''Invalid JSON format''))"
    and "\<And>request. keeps I (dispatch E sock request)"
  shows "keeps I (handle_text E sock text)"
  unfolding keeps_def
proof (intro allI impI)
  fix s r s' assume I: "I s" and run: "handle_text E sock text s = Some (r, s')"
  let ?m = "act_bind (act_lift (parse_json (json E) (first_line text))) (dispatch E sock)"
  have "keeps I ?m" by (intro keeps_intros assms(2))
  note keep = keepsD [OF this]
  obtain q s1 where m: "?m s = Some (q, s1)" using run by (cases "?m s") (auto simp: handle_text_def)
  have "I s1" by (rule keep [OF m I])
  show "I s'"
  proof (cases "q = Inl Json_parse_error")
    case True
    then show ?thesis
      using run m keepsD [OF assms(1), of s1 r s'] \<open>I s1\<close>
      by (simp add: handle_text_def)
  next
    case False
    then show ?thesis using run m \<open>I s1\<close>
      by (auto simp: handle_text_def split: sum.splits exn.splits)
  qed
qed

section \<open>Properties\<close>

text \<open>
  C11: A connection is registered for a user only by a request to authorize on that connection, with
  the id, the nickname and the password of one row of the user table. No text that arrives, well
  formed or not, changes the registered clients in any other way.
\<close>

theorem login_required:
  assumes "pg_user_laws (pg E) users keys" "rm_connections s ''user_metadata_db'' = Some d"
    and "handle_text E sock t s = Some (r, s')"
  shows "sv_clients s' = sv_clients s \<or>
    (\<exists>request. parse_json (json E) (first_line t) = Inr request \<and> is_request (json E) request ''authorize'' \<and>
      (\<exists>row \<in> set (users d). sv_clients s' = add_client (row_id row) sock (sv_clients s) \<and>
        read_int (json E) request ''user_id'' = Inr (row_id row) \<and>
        read_string (json E) request ''nickname'' = Inr (row_nickname row) \<and>
        read_string (json E) request ''password'' = Inr (row_password row)))"
proof (cases "\<exists>request. parse_json (json E) (first_line t) = Inr request \<and> dispatch E sock request = handle_authorize E sock request \<and>
    is_request (json E) request ''authorize''")
  case True
  then obtain request where req: "parse_json (json E) (first_line t) = Inr request"
    "dispatch E sock request = handle_authorize E sock request" "is_request (json E) request ''authorize''" by blast
  show ?thesis
  proof (cases "handle_authorize E sock request s")
    case (Some qs)
    obtain q s1 where qs: "qs = (q, s1)" by fastforce
    have "sv_clients s' = sv_clients s1"
    proof (cases "q = Inl Json_parse_error")
      case True
      then show ?thesis using assms(3) req Some qs
          keepsD [OF frame_write(2) [OF clients_frame [of E "sv_clients s1"]], of sock _ s1 r s']
        by (simp add: handle_text_def act_run)
    next
      case False
      then show ?thesis using assms(3) req Some qs
        by (auto simp: handle_text_def act_run split: sum.splits exn.splits)
    qed
    then show ?thesis
      using handle_authorize_clients [OF Some [unfolded qs] assms(1,2)] req by auto
  qed (use assms(3) req in \<open>simp add: handle_text_def act_run\<close>)
next
  case False
  let ?I = "\<lambda>s1. sv_clients s1 = sv_clients s"
  show ?thesis
  proof (cases "parse_json (json E) (first_line t)")
    case (Inl e)
    then show ?thesis using assms(3) keepsD [OF frame_write(2) [OF clients_frame [of E "sv_clients s"]], of sock _ s r s']
      by (auto simp: handle_text_def act_run split: exn.splits)
  next
    case (Inr request)
    then have other: "dispatch E sock request \<noteq> handle_authorize E sock request \<or> \<not> is_request (json E) request ''authorize''"
      using False by blast
    have "keeps ?I (dispatch E sock request)"
    proof (cases "is_request (json E) request ''authorize''")
      case True
      then have "is_request (json E) request ''register''"
        using other by (auto simp: dispatch_def is_request_def contains_def split: option.splits if_splits)
      then have "dispatch E sock request = handle_register E sock request"
        by (auto simp: dispatch_def is_request_def contains_def split: option.splits)
      then show ?thesis
        using io_register [OF frame_io [OF clients_frame [of E "sv_clients s"]], of sock request]
          clients_database_law [of E "sv_clients s"] by (simp add: database_law_def)
    qed (rule dispatch_keeps [OF clients_frame clients_database_law], simp)
    note keep = keepsD [OF this]
    obtain q s1 where m: "dispatch E sock request s = Some (q, s1)"
      using assms(3) Inr by (cases "dispatch E sock request s") (auto simp: handle_text_def act_run)
    have s1: "sv_clients s1 = sv_clients s" by (rule keep [OF m]) simp
    show ?thesis
    proof (cases "q = Inl Json_parse_error")
      case True
      then show ?thesis using assms(3) Inr m s1
          keepsD [OF frame_write(2) [OF clients_frame [of E "sv_clients s"]], of sock _ s1 r s']
        by (simp add: handle_text_def act_run)
    next
      case False
      then show ?thesis using assms(3) Inr m s1
        by (auto simp: handle_text_def act_run split: sum.splits exn.splits)
    qed
  qed
qed

text \<open>The runs of a server: texts arrive, connections close, and the sockets do what they do.\<close>

inductive server_run :: "('d, 'j, 'n, 'w) services \<Rightarrow> ('d, 'n, 'w) handler \<Rightarrow> ('d, 'n, 'w) handler \<Rightarrow> bool"
  for E s0 where
  run_start: "server_run E s0 s0"
| run_text: "server_run E s0 s \<Longrightarrow> handle_text E sock t s = Some (r, s') \<Longrightarrow> server_run E s0 s'"
| run_close: "server_run E s0 s \<Longrightarrow> server_run E s0 (s\<lparr>sv_clients := remove_client_by_socket sock (sv_clients s)\<rparr>)"
| run_socks: "server_run E s0 s \<Longrightarrow> server_run E s0 (s\<lparr>sv_socks := w\<rparr>)"

inductive_cases server_run_cases: "server_run E s0 s"

text \<open>
  C14: In every run of a server that starts without clients, whoever is connected is a row of the
  user table, and the registry stays an ordered map with one socket for each user.
\<close>

theorem connected_users_exist:
  assumes "server_run E s0 s" "proper_services E users keys"
    and "rm_connections s0 ''user_metadata_db'' \<noteq> None" "sv_clients s0 = []"
    and "get_client_socket u (sv_clients s) = Some sock"
  shows "(\<exists>d. rm_connections s ''user_metadata_db'' = Some d \<and> u \<in> row_id ` set (users d)) \<and>
    imap_ok (sv_clients s)"
proof -
  have ok_frame: "frame_law E (\<lambda>s. imap_ok (sv_clients s))" by (simp add: frame_law_def io_law_def)
  have "database_law E (\<lambda>s. imap_ok (sv_clients s))"
    unfolding database_law_def get_user_id_def create_message_def get_public_keys_def create_user_def
      set_public_keys_def on_database_def by (auto intro!: keeps_on)
  moreover have "keeps (\<lambda>s. imap_ok (sv_clients s)) (handle_authorize E sock request)" for sock request
    unfolding handle_authorize_def authorize_user_def on_database_def
    by (intro keeps_intros frame_write [OF ok_frame] keeps_modify keeps_on)
      (auto simp: add_client_def imap.ok_set)
  ultimately have ok_text: "keeps (\<lambda>s. imap_ok (sv_clients s)) (handle_text E sock t)" for sock t
    by (intro handle_text_keeps dispatch_keeps frame_write ok_frame)
  have known_text: "keeps (users_known users) (handle_text E sock t)" for sock t
    by (intro handle_text_keeps dispatch_keeps frame_write users_known_frame users_known_database [OF assms(2)]
        users_known_authorize [OF assms(2)])
  have "users_known users s \<and> imap_ok (sv_clients s)"
    using assms(1)
  proof (induction rule: server_run.induct)
    case run_start
    then show ?case using assms(3,4) imap.ok_empty by (auto simp: users_known_def)
  next
    case (run_text s sock t r s')
    then show ?case using keepsD [OF ok_text run_text.hyps(2)] keepsD [OF known_text run_text.hyps(2)] by blast
  next
    case (run_close s sock)
    then show ?case using remove_by_socket_subset [of _ sock "sv_clients s"] remove_by_socket_ok
      by (fastforce simp: users_known_def)
  next
    case (run_socks s w)
    then show ?case by (simp add: users_known_def)
  qed
  moreover from this have "(u, sock) \<in> set (sv_clients s)"
    using assms(5) map_find_filter [of "sv_clients s" u sock] by (simp add: get_client_socket_def)
  ultimately show ?thesis by (force simp: users_known_def)
qed

text \<open>Witnesses: the example database with one user.\<close>

definition ann_tables :: tables where
  "ann_tables = \<lparr>t_users = [\<lparr>row_id = 1, row_nickname = ''ann'', row_password = ''pw'', row_registered = [],
     row_last_online = [], row_online = False\<rparr>], t_keys = [], t_next = 2\<rparr>"

definition ann_handler :: "(tables, file_server \<times> string list, (socket \<times> string) list) handler" where
  "ann_handler = (example_handler [])\<lparr>rm_connections := (\<lambda>_. Some ann_tables)\<rparr>"

definition ann_request :: jval where
  "ann_request = JObj [(''type'', JStr ''authorize''), (''nickname'', JStr ''ann''), (''password'', JStr ''pw''),
     (''user_id'', JNum 1)]"

lemma example_services_simps [simp]:
  "pg example_services = example_pg" "json example_services = example_json" "hex example_services = example_hex"
  "socks example_services = recording_socks"
  by (simp_all add: example_services_def)

lemma example_proper: "proper_services example_services good_users good_keys"
  by (simp add: proper_services_def example_pg_laws example_json_laws example_dump_laws example_hex_laws)

lemma ann_good: "good_users ann_tables = t_users ann_tables"
  by (simp add: good_users_def ann_tables_def tables_ok_def)

lemma ann_authorized: "\<exists>d. user_authorize example_pg example_json 1 ''ann'' ''pw'' ann_tables = (Inr True, d)"
proof -
  have "\<exists>r d1. exec_params example_pg ann_tables authorize_sql [PInt 1, PText ''ann''] = (Inr r, d1)"
    by (simp add: example_pg_def answer_def)
  moreover have "\<exists>u \<in> set (good_users ann_tables). row_id u = 1 \<and> row_nickname u = ''ann'' \<and> row_password u = ''pw''"
    unfolding ann_good by (simp add: ann_tables_def)
  ultimately show ?thesis
    using user_authorize_spec [OF example_pg_laws, of example_json 1 "''ann''" "''pw''" ann_tables] by auto
qed

lemma example_ops [simp]:
  "dump_json example_json = jdump" "parse_json example_json = jparse" "find_field example_json = jfind"
  "is_object example_json = is_JObj" "get_string example_json = jget_string"
  "get_int example_json = jget_num word_of_int" "equals_string example_json = (\<lambda>j s. j = JStr s)"
  by (simp_all add: example_json_def)

text \<open>The text that authorizes, without a carriage return.\<close>

definition ann_text :: string where
  "ann_text = (case jdump ann_request of Inr t \<Rightarrow> t | Inl _ \<Rightarrow> [])"

lemma ann_parsed: "jparse (first_line (ann_text @ [CHR 0x0A])) = Inr ann_request"
proof -
  obtain t where t: "jdump ann_request = Inr t" "CHR 0x0A \<notin> set t"
    by (auto simp: ann_request_def)
  have "first_line (t @ CHR 0x0A # []) = t"
    unfolding first_line_def using t(2) by (subst takeWhile_append2) auto
  then show ?thesis using t(1) example_parse_dump [OF t(1)] by (simp add: ann_text_def)
qed

lemma ann_handled:
  "\<exists>r s'. handle_text example_services 3 (ann_text @ [CHR 0x0A]) ann_handler = Some (r, s') \<and>
    sv_clients s' = [(1, 3)]"
proof -
  have req: "read_string example_json ann_request ''nickname'' = Inr ''ann''"
    "read_string example_json ann_request ''password'' = Inr ''pw''"
    "read_int example_json ann_request ''user_id'' = Inr 1"
    by (simp_all add: json_reads ann_request_def)
  obtain d where "user_authorize example_pg example_json 1 ''ann'' ''pw'' ann_tables = (Inr True, d)"
    using ann_authorized by blast
  then have auth: "authorize_user example_services 1 ''ann'' ''pw'' ann_handler =
      Some (Inr True, ann_handler\<lparr>rm_connections := (rm_connections ann_handler)(''user_metadata_db'' \<mapsto> d)\<rparr>)"
    by (simp add: authorize_user_def act_run ann_handler_def)
  have disp: "dispatch example_services 3 ann_request = handle_authorize example_services 3 ann_request"
    by (simp add: dispatch_def is_request_def contains_def ann_request_def)
  have "plain example_json (status_json example_json ''success'' ''Authorization successful'' (null_json example_json))"
    unfolding status_json_def by (intro plain_field plain_start plain_value.intros) (simp_all add: example_json_laws)
  from write_json_plain [OF example_reliable, simplified, OF this] show ?thesis
    using auth disp ann_parsed
    by (simp add: handle_text_def act_run req handle_authorize_def ann_handler_def example_handler_def add_client_def)
qed

theorem login_required_witness:
  "\<exists>r s'. handle_text example_services 3 (ann_text @ [CHR 0x0A]) ann_handler = Some (r, s') \<and>
    sv_clients s' = add_client 1 3 []"
proof -
  obtain r s' where run: "handle_text example_services 3 (ann_text @ [CHR 0x0A]) ann_handler = Some (r, s')"
    "sv_clients s' = [(1, 3)]"
    using ann_handled by blast
  have start: "sv_clients ann_handler = []" "rm_connections ann_handler ''user_metadata_db'' = Some ann_tables"
    by (simp_all add: ann_handler_def example_handler_def)
  have laws: "pg_user_laws (pg example_services) good_users good_keys" by (simp add: example_pg_laws)
  from login_required [OF laws start(2) run(1)] start(1) run(2) obtain row where
    "row \<in> set (good_users ann_tables)" "sv_clients s' = add_client (row_id row) 3 []" by auto
  then have "sv_clients s' = add_client 1 3 []" unfolding ann_good by (simp add: ann_tables_def)
  then show ?thesis using run(1) by blast
qed

theorem connected_users_exist_witness:
  "\<exists>s. server_run example_services ann_handler s \<and> get_client_socket 1 (sv_clients s) = Some 3 \<and>
    (\<exists>d. rm_connections s ''user_metadata_db'' = Some d \<and> 1 \<in> row_id ` set (good_users d))"
proof -
  obtain r s' where run: "handle_text example_services 3 (ann_text @ [CHR 0x0A]) ann_handler = Some (r, s')"
    "sv_clients s' = [(1, 3)]"
    using ann_handled by blast
  have start: "sv_clients ann_handler = []" "rm_connections ann_handler ''user_metadata_db'' \<noteq> None"
    by (simp_all add: ann_handler_def example_handler_def)
  have reach: "server_run example_services ann_handler s'" by (rule run_text [OF run_start run(1)])
  have sock: "get_client_socket 1 (sv_clients s') = Some 3" by (simp add: run(2) get_client_socket_def)
  from connected_users_exist [OF reach example_proper start(2,1) sock] reach sock show ?thesis by blast
qed

section \<open>The loop on a connection\<close>

lemma returns_file_chunk:
  fixes E :: "('d, 'j, 'n, 'w) services"
  assumes "\<And>name. returns (repo_download_file_chunks E name :: ('d, 'n, 'w, string list) handling)"
  shows "returns (handle_file_chunk E sock request)"
proof -
  have upload: "returns (upload_file_chunk E name chunk)" for name chunk
    by (simp add: returns_def upload_file_chunk_def act_on_def split_beta)
  have wr: "returns (write_json E sock j)" for sock j
    unfolding write_json_def write_socket_def by (intro returns_intros)
  have msgs: "returns (send_file_messages E sock name i chunks)" for sock name i chunks
    by (induction chunks arbitrary: i) (auto simp: Let_def intro!: returns_intros wr)
  show ?thesis
    unfolding handle_file_chunk_def receive_chunk_def notify_receiver_def send_file_to_client_def Let_def
    by (intro returns_intros upload wr msgs assms)
qed

lemma returns_handle_text:
  fixes E :: "('d, 'j, 'n, 'w) services"
  assumes "\<And>name. returns (repo_download_file_chunks E name :: ('d, 'n, 'w, string list) handling)"
  shows "handle_text E sock t s \<noteq> None"
proof -
  have wr: "returns (write_json E sock j)" "returns (write_json_ec E sock j)" for sock j
    unfolding write_json_def write_json_ec_def write_socket_def by (intro returns_intros)+
  have db: "returns (on_database name f)" for name f
    unfolding on_database_def by (intro returns_intros)
  have "returns (dispatch E sock request)" for request
    unfolding dispatch_def handle_register_def handle_authorize_def handle_send_message_def deliver_message_def
      handle_get_user_keys_def handle_send_aes_key_def create_user_def set_public_keys_def get_public_keys_def
      authorize_user_def get_user_id_def create_message_def Let_def
    by (intro returns_intros wr db returns_file_chunk assms)
  then have "returns (act_bind (act_lift (parse_json (json E) (first_line t))) (dispatch E sock))"
    by (intro returns_intros)
  moreover have "write_json_ec E sock j s' \<noteq> None" for j s' using wr(2) by (simp add: returns_def)
  ultimately show ?thesis
    by (auto simp: handle_text_def returns_def split: option.splits sum.splits exn.splits)
qed

text \<open>
  What arrives on a connection: \<open>inbox\<close> lists the texts that are still to be read, then the
  connection ends. Writing does not change what arrives.
\<close>

definition inbox_law :: "'w socket_ops \<Rightarrow> socket \<Rightarrow> ('w \<Rightarrow> string list) \<Rightarrow> bool" where
  "inbox_law S sock inbox \<longleftrightarrow>
     (\<forall>w. case inbox w of
        [] \<Rightarrow> snd (fst (sock_read_until S sock w)) = Some Eof
      | t # ts \<Rightarrow> fst (sock_read_until S sock w) = (t, None) \<and> inbox (snd (sock_read_until S sock w)) = ts) \<and>
     (\<forall>other t w. inbox (snd (sock_write S other t w)) = inbox w)"

lemma inbox_law_read:
  "inbox_law S sock inbox \<Longrightarrow> case inbox w of
     [] \<Rightarrow> snd (fst (sock_read_until S sock w)) = Some Eof
   | t # ts \<Rightarrow> fst (sock_read_until S sock w) = (t, None) \<and> inbox (snd (sock_read_until S sock w)) = ts"
  by (simp add: inbox_law_def)

lemma inbox_kept:
  assumes "inbox_law (socks E) sock inbox"
  shows "keeps (\<lambda>s. inbox (sv_socks s) = ts) (handle_text E sock t)"
proof -
  have frame: "frame_law E (\<lambda>s. inbox (sv_socks s) = ts)" using assms by (simp add: frame_law_def io_law_def inbox_law_def)
  have db: "keeps (\<lambda>s. inbox (sv_socks s) = ts) (on_database name f)" for name f
    unfolding on_database_def by (rule keeps_on) simp
  have "database_law E (\<lambda>s. inbox (sv_socks s) = ts)"
    unfolding database_law_def get_user_id_def create_message_def get_public_keys_def create_user_def
      set_public_keys_def by (simp add: db)
  moreover have "keeps (\<lambda>s. inbox (sv_socks s) = ts) (handle_authorize E sock request)" for request
    unfolding handle_authorize_def authorize_user_def by (intro keeps_intros frame_write [OF frame] db keeps_modify) simp
  ultimately show ?thesis by (intro handle_text_keeps dispatch_keeps frame_write frame)
qed

text \<open>
  What the loop makes of the texts that arrive before the connection ends: each is read, then it is
  handled, and a handler that throws ends it all.
\<close>

definition read_text :: "('d, 'j, 'n, 'w) services \<Rightarrow> socket \<Rightarrow> ('d, 'n, 'w) handler \<Rightarrow> ('d, 'n, 'w) handler" where
  "read_text E sock s = s\<lparr>sv_socks := snd (sock_read_until (socks E) sock (sv_socks s))\<rparr>"

fun handle_inbox ::
    "('d, 'j, 'n, 'w) services \<Rightarrow> socket \<Rightarrow> string list \<Rightarrow> ('d, 'n, 'w, unit) handling" where
  "handle_inbox E sock [] = act_return ()"
| "handle_inbox E sock (t # ts) =
     act_then (act_modify (read_text E sock)) (act_then (handle_text E sock t) (handle_inbox E sock ts))"

text \<open>
  C30: When the connection delivers finitely many texts and then ends, and downloads return, the loop
  on the connection returns, and exactly this has happened: every text was handled once, in the order
  of arrival, up to the first handler that throws, whose exception leaves the loop with the state it
  made; without one, the end of the connection was read and then the first user of this socket,
  and nobody else, was taken out of the connected clients (\<open>remove_client_by_socket\<close>).
\<close>

theorem request_loop_returns:
  assumes "inbox_law (socks E) sock inbox"
    and "\<And>name. returns (repo_download_file_chunks E name :: ('d, 'n, 'w, string list) handling)"
  shows "\<exists>r s1. handle_inbox (E :: ('d, 'j, 'n, 'w) services) sock (inbox (sv_socks s)) s = Some (r, s1) \<and>
    handle_request E sock s =
      Some (r, if r = Inr () then (read_text E sock s1)\<lparr>sv_clients := remove_client_by_socket sock (sv_clients s1)\<rparr>
               else s1)"
proof (induction "inbox (sv_socks s)" arbitrary: s)
  case Nil
  then have "snd (fst (sock_read_until (socks E) sock (sv_socks s))) = Some Eof"
    using inbox_law_read [OF assms(1), of "sv_socks s"] by (simp flip: Nil)
  then have "handle_request E sock s =
      Some (Inr (), (read_text E sock s)\<lparr>sv_clients := remove_client_by_socket sock (sv_clients s)\<rparr>)"
    by (subst handle_request.simps) (simp add: read_text_def split_beta)
  then show ?case unfolding Nil [symmetric] by (intro exI [of _ "Inr ()"] exI [of _ s]) (simp add: act_run)
next
  case (Cons t ts)
  obtain w where w: "sock_read_until (socks E) sock (sv_socks s) = ((t, None), w)" "inbox w = ts"
    using inbox_law_read [OF assms(1), of "sv_socks s"]
    by (cases "sock_read_until (socks E) sock (sv_socks s)") (auto simp flip: Cons.hyps(2))
  obtain r s1 where handled: "handle_text E sock t (s\<lparr>sv_socks := w\<rparr>) = Some (r, s1)"
    using returns_handle_text [of E sock t "s\<lparr>sv_socks := w\<rparr>"] assms(2) by fastforce
  have read: "read_text E sock s = s\<lparr>sv_socks := w\<rparr>" using w(1) by (simp add: read_text_def)
  show ?case
  proof (cases r)
    case (Inl e)
    have "handle_request E sock s = Some (Inl e, s1)"
      using w(1) handled Inl by (subst handle_request.simps) simp
    moreover have "handle_inbox E sock (t # ts) s = Some (Inl e, s1)"
      using handled Inl by (simp add: act_run read)
    ultimately show ?thesis unfolding Cons.hyps(2) [symmetric] by (intro exI [of _ "Inl e"] exI [of _ s1]) simp
  next
    case (Inr u)
    have "inbox (sv_socks s1) = ts" by (rule keepsD [OF inbox_kept [OF assms(1)] handled]) (simp add: w(2))
    moreover have "handle_request E sock s = handle_request E sock s1"
      using w(1) handled Inr by (subst handle_request.simps) simp
    moreover have "handle_inbox E sock (t # ts) s = handle_inbox E sock ts s1"
      using handled Inr by (simp add: act_run read)
    ultimately show ?thesis using Cons.hyps(1) [of s1] unfolding Cons.hyps(2) [symmetric] by simp
  qed
qed

text \<open>
  A connection that is broken, so that every read fails with an error other than the end of the
  file, is never given up: the loop on it does not return. It goes on answering
  \<open>Invalid JSON format\<close>.
\<close>

theorem broken_connection_loops:
  fixes E :: "('d, 'j, 'n, 'w) services" and s :: "('d, 'n, 'w) handler"
  assumes "\<And>w. broken w \<Longrightarrow> \<exists>m w'. sock_read_until (socks E) sock w = (([], Some (Read_failed m)), w') \<and> broken w'"
    and "\<And>other t w. broken w \<Longrightarrow> broken (snd (sock_write (socks E) other t w))"
    and "parse_json (json E) [] = Inl Json_parse_error" "json_laws (json E)" "dump_laws (json E)"
    and "broken (sv_socks s)"
  shows "handle_request E sock s = None"
proof (rule ccontr)
  assume "handle_request E sock s \<noteq> None"
  then obtain r where ret: "handle_request E sock s = Some r" by blast
  let ?P = "\<lambda>E' sock' (s :: ('d, 'n, 'w) handler) r. E' = E \<longrightarrow> sock' = sock \<longrightarrow> \<not> broken (sv_socks s)"
  have "?P E sock s r"
  proof (rule handle_request.raw_induct [where P = ?P, OF _ ret])
    fix loop :: "('d, 'j, 'n, 'w) services \<Rightarrow> socket \<Rightarrow> ('d, 'n, 'w) handler \<Rightarrow> ((exn + unit) \<times> ('d, 'n, 'w) handler) option"
      and E' sock' s r
    assume IH: "\<And>E' sock' s r. loop E' sock' s = Some r \<Longrightarrow> ?P E' sock' s r"
      and eq: "(case sock_read_until (socks E') sock' (sv_socks s) of ((t, err), w) \<Rightarrow>
        (if err = Some Eof
         then Some (Inr (), s\<lparr>sv_socks := w, sv_clients := remove_client_by_socket sock' (sv_clients s)\<rparr>)
         else (case handle_text E' sock' t (s\<lparr>sv_socks := w\<rparr>) of
             None \<Rightarrow> None
           | Some (r, s1) \<Rightarrow> (case r of Inl e \<Rightarrow> Some (Inl e, s1) | Inr _ \<Rightarrow> loop E' sock' s1)))) = Some r"
    show "?P E' sock' s r"
    proof (intro impI notI)
      assume E: "E' = E" "sock' = sock" and br: "broken (sv_socks s)"
      obtain m w where rd: "sock_read_until (socks E) sock (sv_socks s) = (([], Some (Read_failed m)), w)" "broken w"
        using assms(1) br by blast
      have "plain (json E) (error_json (json E) ''Invalid JSON format'')"
        unfolding error_json_def status_json_def by (intro plain_field plain_start plain_value.intros assms(4)) simp_all
      then obtain t where t: "dump_json (json E) (error_json (json E) ''Invalid JSON format'') = Inr t"
        using dump_plain [OF assms(5)] by blast
      have "handle_text E sock [] (s\<lparr>sv_socks := w\<rparr>) =
          Some (Inr (), s\<lparr>sv_socks := snd (sock_write (socks E) sock (t @ delimiter) w)\<rparr>)"
        using assms(3) t by (simp add: handle_text_def first_line_def act_run write_json_ec_def)
      then have next_round: "loop E sock (s\<lparr>sv_socks := snd (sock_write (socks E) sock (t @ delimiter) w)\<rparr>) = Some r"
        using eq rd(1) E by simp
      show False using IH [OF next_round] assms(2) [OF rd(2)] by simp
    qed
  qed
  then show False using assms(6) by simp
qed


text \<open>Sockets over a list of texts that arrive, and sockets on which every read fails.\<close>

definition queue_socks :: "string list socket_ops" where
  "queue_socks = \<lparr>sock_write = (\<lambda>sock t w. (Inr (), w)),
     sock_read_until = (\<lambda>sock w. case w of [] \<Rightarrow> (([], Some Eof), []) | t # ts \<Rightarrow> ((t, None), ts))\<rparr>"

definition failing_socks :: "unit socket_ops" where
  "failing_socks = \<lparr>sock_write = (\<lambda>sock t w. (Inr (), w)),
     sock_read_until = (\<lambda>sock w. (([], Some (Read_failed ''reset'')), w))\<rparr>"

definition services_on :: "'w socket_ops \<Rightarrow> (tables, jval, file_server \<times> string list, 'w) services" where
  "services_on S = \<lparr>pg = example_pg, json = example_json, hex = example_hex,
     beast = loop_network willing_io, socks = S, clock = 0\<rparr>"

definition handler_on :: "'w \<Rightarrow> (tables, file_server \<times> string list, 'w) handler" where
  "handler_on w = \<lparr>rm_connections = (\<lambda>_. Some ann_tables),
     rm_file_client = file_client_new ''localhost'' ''9080'',
     rm_net = (file_server_new ''media'' 1000 (\<lambda>_. None), []),
     sv_socks = w, sv_clients = [(1, 3)], sv_pending = [], sv_uploads = Map.empty, sv_user_counter = 1\<rparr>"

theorem request_loop_returns_witness:
  "\<exists>r s1 s'. handle_inbox (services_on queue_socks) 3 [''rubbish'', []] (handler_on [''rubbish'', []]) = Some (r, s1) \<and>
    handle_request (services_on queue_socks) 3 (handler_on [''rubbish'', []]) = Some (r, s')"
proof -
  have law: "inbox_law (socks (services_on queue_socks)) 3 (\<lambda>w. w)"
    by (auto simp: inbox_law_def services_on_def queue_socks_def split: list.splits)
  have "returns (repo_download_file_chunks (services_on queue_socks) name)" for name
    using loop_network_downloads by (auto simp: returns_def repo_download_file_chunks_def services_on_def split: option.splits)
  from request_loop_returns [OF law this, of "handler_on [''rubbish'', []]"] show ?thesis
    by (auto simp: handler_on_def)
qed

theorem broken_connection_loops_witness:
  "handle_request (services_on failing_socks) 3 (handler_on ()) = None"
  by (rule broken_connection_loops [where broken = "\<lambda>_. True"])
    (simp_all add: services_on_def failing_socks_def example_json_laws example_dump_laws jparse_def)

section \<open>Messages\<close>

lemma metadata_json_plain: "json_laws J \<Longrightarrow> plain J (metadata_to_json J m)"
  unfolding metadata_to_json_def put_optional_def
  by (auto split: option.splits intro!: plain_field plain_start plain_value.intros)

lemma text_json_plain: "json_laws J \<Longrightarrow> ascii (text_of m) \<Longrightarrow> plain J (text_to_json J m)"
  unfolding text_to_json_def by (intro plain_field plain_start plain_value.intros) simp_all

lemma message_json_plain: "json_laws J \<Longrightarrow> ascii (text_of (msg_text m)) \<Longrightarrow> plain J (message_to_json J m)"
  unfolding message_to_json_def
  by (rule plain_joined [OF _ disjI1 [OF plain_joined [OF _ disjI2]]])
    (simp_all add: metadata_json_plain text_json_plain)

lemma sent_json_plain:
  "json_laws J \<Longrightarrow> plain J (message_to_json J m) \<Longrightarrow> plain J j \<or> j = null_json J \<Longrightarrow> plain J (sent_json J m j)"
  unfolding sent_json_def status_json_def
  by (elim disjE) (simp_all add: plain_joined plain_field plain_start plain_value.intros)

lemma received_json_plain:
  "json_laws J \<Longrightarrow> plain J (message_to_json J m) \<Longrightarrow> plain J j \<or> j = null_json J \<Longrightarrow> plain J (received_json J m j)"
  unfolding received_json_def by (simp add: plain_joined plain_field plain_value.intros)

text \<open>The file that a message announces, if any.\<close>

definition announced :: "string option \<Rightarrow> string option" where
  "announced name = (if name = Some ''none'' then None else name)"

text \<open>What the sender and the receiver are sent for a stored message, in this order.\<close>

definition message_writes ::
    "'j json_ops \<Rightarrow> message \<Rightarrow> string option \<Rightarrow> socket \<Rightarrow> socket option \<Rightarrow> (socket \<times> 'j) list" where
  "message_writes J msg name sock receiver_sock =
     (let s1 = sent_json J msg (null_json J); r1 = received_json J msg (null_json J);
          named = (\<lambda>j. case announced name of Some f \<Rightarrow> put_string J ''file_name'' f j | None \<Rightarrow> j);
          to_receiver = (\<lambda>j. case receiver_sock of Some rs \<Rightarrow> [(rs, j)] | None \<Rightarrow> [])
      in [(sock, s1)] @ to_receiver r1 @ [(sock, sent_json J msg (named s1))] @
         to_receiver (named (received_json J msg r1)))"

lemma write_to_receiver:
  assumes "reliable E sent" "plain (json E) j"
  shows "\<exists>w'. (case rs of None \<Rightarrow> act_return () | Some rs \<Rightarrow> write_json E rs j) s = Some (Inr (), s\<lparr>sv_socks := w'\<rparr>) \<and>
    sent w' = sent (sv_socks s) @ (case rs of Some rs \<Rightarrow> [(rs, wire (json E) j)] | None \<Rightarrow> [])"
proof (cases rs)
  case None
  then show ?thesis by (intro exI [of _ "sv_socks s"]) (simp add: act_run)
qed (use write_json_plain [OF assms] in auto)

lemma deliver_message_writes:
  assumes rel: "reliable E sent" and "is_object (json E) request"
    and name: "find_field (json E) request ''file_name'' = map_option (string_json (json E)) name"
      "case name of Some f \<Rightarrow> ascii f | None \<Rightarrow> True"
    and msg: "ascii (text_of (msg_text msg))"
  shows "\<exists>w. deliver_message E sock request sender receiver msg s =
      Some (Inr (), (case announced name of Some f \<Rightarrow> announce_transfer f sender receiver s | None \<Rightarrow> s)\<lparr>sv_socks := w\<rparr>) \<and>
    sent w = sent (sv_socks s) @ map (\<lambda>(sock, j). (sock, wire (json E) j))
      (message_writes (json E) msg name sock (get_client_socket receiver (sv_clients s)))"
proof -
  let ?J = "json E" and ?rs = "get_client_socket receiver (sv_clients s)"
  have J: "json_laws ?J" using rel by simp
  note m = message_json_plain [OF J msg]
  define s1 r1 where "s1 = sent_json ?J msg (null_json ?J)" and "r1 = received_json ?J msg (null_json ?J)"
  define named where "named j = (case announced name of Some f \<Rightarrow> put_string ?J ''file_name'' f j | None \<Rightarrow> j)" for j
  have named: "plain ?J (named j)" if "plain ?J j" for j
    using that name(2) by (auto simp: named_def announced_def split: option.splits if_splits intro!: plain_field J plain_value.intros)
  have plain1: "plain ?J s1" "plain ?J r1" unfolding s1_def r1_def by (rule sent_json_plain [OF J m], simp, rule received_json_plain [OF J m], simp)
  then have plain2: "plain ?J (sent_json ?J msg (named s1))" "plain ?J (named (received_json ?J msg r1))"
    by (auto intro!: sent_json_plain [OF J m] received_json_plain [OF J m] named)
  define t where "t = (case announced name of Some f \<Rightarrow> announce_transfer f sender receiver s | None \<Rightarrow> s)"
  have t: "sv_clients t = sv_clients s" "sv_socks t = sv_socks s"
    by (auto simp: t_def announce_transfer_def split: option.splits)
  have filed: "has_file ?J request = (announced name \<noteq> None)"
    using J name(1) by (cases name) (auto simp: has_file_def announced_def json_simps)
  have val: "announced name = Some f \<Longrightarrow> const_at ?J request ''file_name'' = Inr (string_json ?J f)" for f
    using assms(2) name(1) by (auto simp: announced_def const_at_def split: if_splits)
  obtain w1 where w1: "write_json E sock s1 s = Some (Inr (), s\<lparr>sv_socks := w1\<rparr>)"
    "sent w1 = sent (sv_socks s) @ [(sock, wire ?J s1)]" using write_json_plain [OF rel plain1(1)] by blast
  obtain w2 where w2: "(case ?rs of None \<Rightarrow> act_return () | Some rs \<Rightarrow> write_json E rs r1) (s\<lparr>sv_socks := w1\<rparr>) =
      Some (Inr (), s\<lparr>sv_socks := w2\<rparr>)"
    "sent w2 = sent w1 @ (case ?rs of Some rs \<Rightarrow> [(rs, wire ?J r1)] | None \<Rightarrow> [])"
    using write_to_receiver [OF rel plain1(2), of ?rs "s\<lparr>sv_socks := w1\<rparr>"] by auto
  obtain w3 where w3: "write_json E sock (sent_json ?J msg (named s1)) (t\<lparr>sv_socks := w2\<rparr>) = Some (Inr (), t\<lparr>sv_socks := w3\<rparr>)"
    "sent w3 = sent w2 @ [(sock, wire ?J (sent_json ?J msg (named s1)))]"
    using write_json_plain [OF rel plain2(1), of sock "t\<lparr>sv_socks := w2\<rparr>"] by auto
  obtain w4 where w4: "(case ?rs of None \<Rightarrow> act_return () | Some rs \<Rightarrow> write_json E rs (named (received_json ?J msg r1)))
      (t\<lparr>sv_socks := w3\<rparr>) = Some (Inr (), t\<lparr>sv_socks := w4\<rparr>)"
    "sent w4 = sent w3 @ (case ?rs of Some rs \<Rightarrow> [(rs, wire ?J (named (received_json ?J msg r1)))] | None \<Rightarrow> [])"
    using write_to_receiver [OF rel plain2(2), of ?rs "t\<lparr>sv_socks := w3\<rparr>"] by auto
  have "deliver_message E sock request sender receiver msg s = Some (Inr (), t\<lparr>sv_socks := w4\<rparr>)"
  proof (cases "announced name")
    case None
    then show ?thesis using w1(1) w2(1) w3(1) w4(1) filed
      by (cases ?rs) (simp_all add: deliver_message_def Let_def act_run t_def named_def s1_def r1_def)
  next
    case (Some f)
    then have "read_string ?J request ''file_name'' = Inr f" using val J by (simp add: read_string_def json_simps)
    moreover have "announce_transfer f sender receiver (s\<lparr>sv_socks := w2\<rparr>) = t\<lparr>sv_socks := w2\<rparr>"
      using Some by (simp add: announce_transfer_def t_def)
    ultimately show ?thesis using w1(1) w2(1) w3(1) w4(1) filed val Some
      by (cases ?rs) (simp_all add: deliver_message_def Let_def act_run named_def s1_def r1_def)
  qed
  moreover have "sent w4 = sent (sv_socks s) @ map (\<lambda>(sock, j). (sock, wire ?J j)) (message_writes ?J msg name sock ?rs)"
    using w1(2) w2(2) w3(2) w4(2)
    by (auto simp: message_writes_def Let_def named_def s1_def r1_def split: option.splits)
  ultimately show ?thesis by (auto simp: t_def)
qed

text \<open>The handler on every branch behind the reads of the request.\<close>

lemma send_message_run:
  assumes "reliable E sent" "is_object (json E) request"
    and "read_int (json E) request ''sender_id'' = Inr sender"
    and "read_string (json E) request ''receiver_nickname'' = Inr nick"
    and "read_string (json E) request ''message_text'' = Inr t" "ascii t"
    and "find_field (json E) request ''file_name'' = map_option (string_json (json E)) name"
    and "case name of Some f \<Rightarrow> ascii f | None \<Rightarrow> True"
    and "get_user_id E nick s = Some (Inr receiver, s1)"
    and "create_message E (message_new (clock E) sender receiver t) s1 = Some (Inr i, s2)"
  shows "\<exists>w. handle_send_message E sock request s =
      (if receiver = 0 then Some (Inr (), s1\<lparr>sv_socks := w\<rparr>)
       else if i = 0 then Some (Inr (), s2\<lparr>sv_socks := w\<rparr>)
       else Some (Inr (), (case announced name of Some f \<Rightarrow> announce_transfer f sender receiver s2 | None \<Rightarrow> s2)\<lparr>sv_socks := w\<rparr>)) \<and>
    (if receiver = 0
     then sent w = sent (sv_socks s1) @ [(sock, wire (json E) (error_json (json E) ''Receiver not found''))]
     else if i = 0
     then sent w = sent (sv_socks s2) @
       [(sock, wire (json E) (error_json (json E) ''Failed to correctly save messages in database''))]
     else sent w = sent (sv_socks s2) @ map (\<lambda>(sock, j). (sock, wire (json E) j))
       (message_writes (json E) (message_set_id i (message_new (clock E) sender receiver t)) name sock
         (get_client_socket receiver (sv_clients s2))))"
proof -
  let ?J = "json E" and ?msg = "message_set_id i (message_new (clock E) sender receiver t)"
  have J: "json_laws ?J" using assms(1) by simp
  have err: "plain ?J (error_json ?J m)" if "ascii m" for m
    unfolding error_json_def status_json_def by (intro plain_field plain_start plain_value.intros J that) simp_all
  consider "receiver = 0" | "receiver \<noteq> 0" "i = 0" | "receiver \<noteq> 0" "i \<noteq> 0" by blast
  then show ?thesis
  proof cases
    case 1
    have "ascii ''Receiver not found''" by simp
    from write_json_plain [OF assms(1) err [OF this], of sock s1] show ?thesis
      using assms(3-5,9) 1 by (auto simp: handle_send_message_def act_run)
  next
    case 2
    have "ascii ''Failed to correctly save messages in database''" by simp
    from write_json_plain [OF assms(1) err [OF this], of sock s2] show ?thesis
      using assms(3-5,9,10) 2 by (auto simp: handle_send_message_def act_run Let_def)
  next
    case 3
    have "ascii (text_of (msg_text ?msg))"
      using assms(6) by (simp add: message_set_id_def message_new_def text_set_id_def text_new_def)
    from deliver_message_writes [OF assms(1,2,7,8) this, of sock sender receiver s2] show ?thesis
      using assms(3-5,9,10) 3 by (simp add: handle_send_message_def act_run Let_def)
  qed
qed


text \<open>The example database, with an id for every inserted message.\<close>

definition message_services ::
    "(tables, jval, file_server \<times> string list, (socket \<times> string) list) services" where
  "message_services = example_services\<lparr>pg := example_pg\<lparr>exec_params := (\<lambda>d sql vs.
     if sql = insert_message_sql then (answer [[Some (print_id 9)]] 1, d) else example_exec d sql vs)\<rparr>\<rparr>"

definition send_request_json :: jval where
  "send_request_json = JObj [(''type'', JStr ''send_message''), (''sender_id'', JNum 4),
     (''receiver_nickname'', JStr ''ann''), (''message_text'', JStr ''hi''), (''file_name'', JStr ''f'')]"

lemma message_services_simps [simp]:
  "json message_services = example_json" "socks message_services = recording_socks" "clock message_services = 0"
  by (simp_all add: message_services_def example_services_def)

lemma ann_found_on:
  assumes "rm_connections s ''user_metadata_db'' = Some ann_tables"
  shows "get_user_id message_services ''ann'' s =
    Some (Inr 1, s\<lparr>rm_connections := (rm_connections s)(''user_metadata_db'' \<mapsto> ann_tables)\<rparr>)"
proof -
  let ?ann = "hd (t_users ann_tables)"
  define r where "r = \<lparr>pg_columns = [], pg_rows = [print_user_row ?ann], affected_rows = 0\<rparr>"
  have ex: "exec_params (pg message_services) ann_tables select_nickname_sql [PText ''ann''] = (Inr r, ann_tables)"
    using ann_good by (simp add: message_services_def example_services_def insert_message_sql_def select_nickname_sql_def
        answer_def r_def) (simp add: ann_tables_def)
  have "prints_user (pg message_services) ?ann (print_user_row ?ann)"
    by (auto simp: prints_user_def prints_int_def print_user_row_def message_services_def example_services_def example_pg_def)
  then have "cell_int (pg message_services) r 0 = Inr 1" "\<exists>j. users_result_to_json (pg message_services) example_json r = Inr j"
    using printed_row(1) [of _ _ _ r "[]"] printed_row(4) [of _ _ _ r "[]"] by (fastforce simp: r_def ann_tables_def)+
  moreover have "abort_txn (pg message_services) ann_tables ann_tables = ann_tables"
    by (simp add: message_services_def example_services_def example_pg_def)
  ultimately have "user_get_id_of (pg message_services) example_json ''ann'' ann_tables = (Inr 1, ann_tables)"
    using ex by (auto simp: user_get_id_of_def run_txn_def) (simp add: r_def)
  then show ?thesis using assms by (simp add: get_user_id_def act_run)
qed

lemma message_created: "\<exists>s2. create_message message_services msg s1 = Some (Inr 9, s2) \<and>
    sv_clients s2 = sv_clients s1 \<and> sv_socks s2 = sv_socks s1 \<and> sv_pending s2 = sv_pending s1"
  if "rm_connections s1 ''message_metadata_db'' = Some d"
proof -
  have "metadata_create (pg message_services) m d = (Inr 9, d)" for m
    by (simp add: metadata_create_def run_committed_def message_services_def example_services_def example_pg_def
        answer_def cell_int_def cell_string_def cell_def as_string_def)
  then show ?thesis using that by (simp add: create_message_def act_run)
qed


end
