(* ===== verification/Server_Process.thy ===== *)
theory Server_Process
  imports Server_Sessions Redis_Config
begin

text \<open>
  \<open>server/src/server.cpp\<close>: the server process. The \<open>io_service\<close> of Boost.Asio holds a queue of
  handlers that are ready to run; the main thread, in \<open>start\<close>, and the threads of the pool take
  them from its front. A thread that takes a connection stays in its loop until the client
  closes it. One round of a loop is one step: rounds of different connections interleave, they do
  not overlap.
\<close>

section \<open>Boost.Asio\<close>

text \<open>What the operations of the acceptor give: they throw, or set an error code.\<close>

record acceptor_ops =
  ac_open :: "exn + unit"
  ac_reuse_address :: "string option"
  ac_bind :: "16 word \<Rightarrow> exn + unit"
  ac_listen :: "exn + unit"

text \<open>
  A handler in the queue: the completion of an accept, with its error flag; the completion of the
  timer of \<open>start_request_handling\<close>; the posted loop on a connection.
\<close>

datatype job = Accepted socket bool | Retry_accept | Session socket

text \<open>Thread 0 is the main thread, the others are those of the pool.\<close>

type_synonym thread = nat

section \<open>State\<close>

record ('d, 'n, 'w) server_process =
  sp_handler :: "('d, 'n, 'w) handler"
  sp_config :: server_config
  sp_open :: bool
  sp_accepting :: "socket option"
  sp_timers :: nat
  sp_jobs :: "job list"
  sp_serving :: "thread \<Rightarrow> socket option"
  sp_stopped :: bool
  sp_down :: bool

definition sp_threads :: "('d, 'n, 'w) server_process \<Rightarrow> nat" where
  "sp_threads s = unat (thread_pool_size (sp_config s))"

definition handler_new :: "('d, 'n) repo_manager \<Rightarrow> 'w \<Rightarrow> ('d, 'n, 'w) handler" where
  "handler_new m w = repo_manager.extend m (handler.fields w [] [] Map.empty 1)"

text \<open>The constructor logs a \<open>system_error\<close> and throws it again.\<close>

definition server_new ::
    "acceptor_ops \<Rightarrow> 'd pg_ops \<Rightarrow> (redis_options \<Rightarrow> exn + 'r) \<Rightarrow> redis_options \<Rightarrow> server_config \<Rightarrow> 'n \<Rightarrow> 'w \<Rightarrow>
      exn + ('d, 'n, 'w) server_process" where
  "server_new A P redis_connect defaults config n w =
     rbind (repo_manager_new P redis_connect defaults config n) (\<lambda>m.
       rbind (ac_open A) (\<lambda>_.
         case ac_reuse_address A of
           Some e \<Rightarrow> Inl (Library_error (''Failed to set acceptor reuse_address option: '' @ e))
         | None \<Rightarrow>
             rbind (ac_bind A (server_port config)) (\<lambda>_.
               rbind (ac_listen A) (\<lambda>_.
                 Inr \<lparr>sp_handler = handler_new m w, sp_config = config, sp_open = True, sp_accepting = None,
                   sp_timers = 0, sp_jobs = [], sp_serving = (\<lambda>_. None), sp_stopped = False, sp_down = False\<rparr>))))"

text \<open>The configuration in \<open>server/main.cpp\<close>.\<close>

definition main_config :: server_config where
  "main_config =
     \<lparr>server_port = 55555, thread_pool_size = 256,
       user_metadata_db = ''host=localhost port=5432 dbname=user_metadata user=postgres password=pass'',
       msg_metadata_db = ''host=localhost port=5432 dbname=message_metadata user=postgres password=pass'',
       msg_text_db = ''redis://spraga@127.0.0.1:6379'', file_server_host = ''localhost'', file_server_port = ''55544''\<rparr>"

section \<open>Accepting connections\<close>

text \<open>
  \<open>attempt\<close> is the outcome of making a socket and starting to accept on it: the socket, or the
  exception, after which a timer starts again a second later.
\<close>

fun start_request_handling ::
    "exn + socket \<Rightarrow> ('d, 'n, 'w) server_process \<Rightarrow> ('d, 'n, 'w) server_process" where
  "start_request_handling (Inr sock) s = s\<lparr>sp_accepting := Some sock\<rparr>"
| "start_request_handling (Inl e) s = s\<lparr>sp_timers := Suc (sp_timers s)\<rparr>"

definition post_session :: "socket \<Rightarrow> ('d, 'n, 'w) server_process \<Rightarrow> ('d, 'n, 'w) server_process" where
  "post_session sock s = s\<lparr>sp_jobs := sp_jobs s @ [Session sock]\<rparr>"

text \<open>The completion handler of \<open>async_accept\<close>; a failure of an option is only logged.\<close>

definition accept_handler ::
    "exn + socket \<Rightarrow> socket \<Rightarrow> bool \<Rightarrow> ('d, 'n, 'w) server_process \<Rightarrow> ('d, 'n, 'w) server_process" where
  "accept_handler attempt sock error s =
     start_request_handling attempt (if \<not> error then post_session sock s else s)"

text \<open>\<open>handle_accept\<close>, which nothing calls: unlike the handler above it gives up after an error.\<close>

definition handle_accept ::
    "exn + socket \<Rightarrow> socket \<Rightarrow> bool \<Rightarrow> ('d, 'n, 'w) server_process \<Rightarrow> ('d, 'n, 'w) server_process" where
  "handle_accept attempt sock error s =
     (if \<not> error then start_request_handling attempt (post_session sock s) else s)"

definition server_start :: "exn + socket \<Rightarrow> ('d, 'n, 'w) server_process \<Rightarrow> ('d, 'n, 'w) server_process" where
  "server_start attempt s = (if \<not> sp_open s then s else start_request_handling attempt s)"

text \<open>
  The destructor: closing the acceptor completes the pending accept with an error, stopping the
  service keeps the threads from taking further handlers, and the joins wait for the sessions of
  the pool. \<open>start\<close> does not return after the constructor succeeded, so it is never reached.
\<close>

definition server_destroy :: "('d, 'n, 'w) server_process \<Rightarrow> ('d, 'n, 'w) server_process" where
  "server_destroy s =
     (let s' = (if sp_open s
        then s\<lparr>sp_open := False, sp_accepting := None,
          sp_jobs := (case sp_accepting s of None \<Rightarrow> sp_jobs s | Some sock \<Rightarrow> sp_jobs s @ [Accepted sock True])\<rparr>
        else s)
      in s'\<lparr>sp_stopped := True\<rparr>)"

section \<open>Sessions\<close>

text \<open>One round of the loop \<open>handle_request\<close>: whether the loop ends, or what it throws.\<close>

definition session_round ::
    "('d, 'j, 'n, 'w) services \<Rightarrow> socket \<Rightarrow> ('d, 'n, 'w) handler \<Rightarrow> ((exn + bool) \<times> ('d, 'n, 'w) handler) option" where
  "session_round E sock s =
     (case sock_read_until (socks E) sock (sv_socks s) of ((text, err), w) \<Rightarrow>
        (if err = Some Eof
         then Some (Inr True, s\<lparr>sv_socks := w, sv_clients := remove_client_by_socket sock (sv_clients s)\<rparr>)
         else (case handle_text E sock text (s\<lparr>sv_socks := w\<rparr>) of
             None \<Rightarrow> None
           | Some (Inl e, s1) \<Rightarrow> Some (Inl e, s1)
           | Some (Inr _, s1) \<Rightarrow> Some (Inr False, s1))))"

text \<open>
  An exception that leaves a handler: \<open>start\<close> catches it on the main thread, resets the service and
  runs it again; the function of a pool thread is \<open>run\<close> itself, so there it ends the process.
  Undefined behaviour is taken to end the process too.
\<close>

fun undefined_exn :: "exn \<Rightarrow> bool" where
  "undefined_exn (Undefined_behaviour u) = True"
| "undefined_exn e = False"

definition thread_throws ::
    "thread \<Rightarrow> exn \<Rightarrow> ('d, 'n, 'w) server_process \<Rightarrow> ('d, 'n, 'w) server_process" where
  "thread_throws t e s =
     (if t = 0 \<and> \<not> undefined_exn e then s\<lparr>sp_serving := (sp_serving s)(t := None)\<rparr> else s\<lparr>sp_down := True\<rparr>)"

fun run_job ::
    "exn + socket \<Rightarrow> thread \<Rightarrow> job \<Rightarrow> ('d, 'n, 'w) server_process \<Rightarrow> ('d, 'n, 'w) server_process" where
  "run_job attempt t (Accepted sock error) s = accept_handler attempt sock error s"
| "run_job attempt t Retry_accept s = start_request_handling attempt s"
| "run_job attempt t (Session sock) s = s\<lparr>sp_serving := (sp_serving s)(t \<mapsto> sock)\<rparr>"

section \<open>Runs of the process\<close>

datatype process_event = Arrived socket bool | Timer_fired | Took thread job | Round thread | Ended thread | Threw thread | Net

inductive process_step ::
    "('d, 'j, 'n, 'w) services \<Rightarrow> ('d, 'n, 'w) server_process \<Rightarrow> process_event \<Rightarrow> ('d, 'n, 'w) server_process \<Rightarrow> bool"
  for E where
  step_arrived: "\<not> sp_down s \<Longrightarrow> sp_accepting s = Some sock \<Longrightarrow>
    process_step E s (Arrived sock error) (s\<lparr>sp_accepting := None, sp_jobs := sp_jobs s @ [Accepted sock error]\<rparr>)"
| step_timer: "\<not> sp_down s \<Longrightarrow> sp_timers s = Suc k \<Longrightarrow>
    process_step E s Timer_fired (s\<lparr>sp_timers := k, sp_jobs := sp_jobs s @ [Retry_accept]\<rparr>)"
| step_took: "\<not> sp_down s \<Longrightarrow> \<not> sp_stopped s \<Longrightarrow> t \<le> sp_threads s \<Longrightarrow> sp_serving s t = None \<Longrightarrow>
    sp_jobs s = j # js \<Longrightarrow> process_step E s (Took t j) (run_job attempt t j (s\<lparr>sp_jobs := js\<rparr>))"
| step_round: "\<not> sp_down s \<Longrightarrow> sp_serving s t = Some sock \<Longrightarrow>
    session_round E sock (sp_handler s) = Some (Inr False, h) \<Longrightarrow> process_step E s (Round t) (s\<lparr>sp_handler := h\<rparr>)"
| step_ended: "\<not> sp_down s \<Longrightarrow> sp_serving s t = Some sock \<Longrightarrow>
    session_round E sock (sp_handler s) = Some (Inr True, h) \<Longrightarrow>
    process_step E s (Ended t) (s\<lparr>sp_handler := h, sp_serving := (sp_serving s)(t := None)\<rparr>)"
| step_threw: "\<not> sp_down s \<Longrightarrow> sp_serving s t = Some sock \<Longrightarrow>
    session_round E sock (sp_handler s) = Some (Inl e, h) \<Longrightarrow>
    process_step E s (Threw t) (thread_throws t e (s\<lparr>sp_handler := h\<rparr>))"
| step_net: "\<not> sp_down s \<Longrightarrow> process_step E s Net (s\<lparr>sp_handler := (sp_handler s)\<lparr>sv_socks := w\<rparr>\<rparr>)"

inductive process_run ::
    "('d, 'j, 'n, 'w) services \<Rightarrow> ('d, 'n, 'w) server_process \<Rightarrow> process_event list \<Rightarrow> ('d, 'n, 'w) server_process \<Rightarrow> bool"
  for E s0 where
  process_start: "process_run E s0 [] s0"
| process_next: "process_run E s0 tr s \<Longrightarrow> process_step E s ev s' \<Longrightarrow> process_run E s0 (tr @ [ev]) s'"

inductive_cases process_stepE: "process_step E s ev s'"

section \<open>Rounds and the loop\<close>

text \<open>The loop of the request handler is the iteration of its rounds.\<close>

lemma loop_of_rounds:
  "(case sock_read_until (socks E) sock (sv_socks s) of ((text, err), w) \<Rightarrow>
        (if err = Some Eof
         then Some (Inr (), s\<lparr>sv_socks := w, sv_clients := remove_client_by_socket sock (sv_clients s)\<rparr>)
         else (case handle_text E sock text (s\<lparr>sv_socks := w\<rparr>) of
             None \<Rightarrow> None
           | Some (r, s1) \<Rightarrow> (case r of Inl e \<Rightarrow> Some (Inl e, s1) | Inr _ \<Rightarrow> loop E sock s1)))) =
   (case session_round E sock s of
        None \<Rightarrow> None
      | Some (Inl e, s1) \<Rightarrow> Some (Inl e, s1)
      | Some (Inr ended, s1) \<Rightarrow> (if ended then Some (Inr (), s1) else loop E sock s1))"
  unfolding session_round_def
  by (simp split: prod.split option.split sum.split)

lemma handle_request_rounds:
  "handle_request E sock s =
     (case session_round E sock s of
        None \<Rightarrow> None
      | Some (Inl e, s1) \<Rightarrow> Some (Inl e, s1)
      | Some (Inr ended, s1) \<Rightarrow> (if ended then Some (Inr (), s1) else handle_request E sock s1))"
  by (subst handle_request.simps) (rule loop_of_rounds)

lemma process_append:
  "process_run E s0 tr s \<Longrightarrow> process_run E s tr' s' \<Longrightarrow> process_run E s0 (tr @ tr') s'"
  by (rotate_tac, induction rule: process_run.induct)
    (auto simp: process_start simp flip: append_assoc intro: process_next)

lemma process_single: "process_step E s ev s' \<Longrightarrow> process_run E s [ev] s'"
  using process_next [OF process_start] by simp

text \<open>A connection that a thread serves alone is served as the loop says.\<close>

lemma loop_is_run:
  fixes E :: "('d, 'j, 'n, 'w) services" and s :: "('d, 'n, 'w) server_process"
  assumes "handle_request E sock h = Some (Inr (), h')"
  shows "\<not> sp_down s \<Longrightarrow> sp_serving s t = Some sock \<Longrightarrow> sp_handler s = h \<Longrightarrow>
    \<exists>tr. process_run E s tr (s\<lparr>sp_handler := h', sp_serving := (sp_serving s)(t := None)\<rparr>)"
proof -
  let ?P = "\<lambda>E' sock' (h :: ('d, 'n, 'w) handler) r. E' = E \<longrightarrow> sock' = sock \<longrightarrow> (\<forall>h' (s :: ('d, 'n, 'w) server_process). r = (Inr (), h') \<longrightarrow> \<not> sp_down s \<longrightarrow>
    sp_serving s t = Some sock \<longrightarrow> sp_handler s = h \<longrightarrow>
    (\<exists>tr. process_run E s tr (s\<lparr>sp_handler := h', sp_serving := (sp_serving s)(t := None)\<rparr>)))"
  obtain r where r: "handle_request E sock h = Some r" "r = (Inr (), h')" using assms by blast
  have "?P E sock h r"
  proof (rule handle_request.raw_induct [where P = ?P, OF _ r(1)])
    fix loop :: "('d, 'j, 'n, 'w) services \<Rightarrow> socket \<Rightarrow> ('d, 'n, 'w) handler \<Rightarrow> ((exn + unit) \<times> ('d, 'n, 'w) handler) option"
      and E' sock' h r
    assume IH: "\<And>E' sock' s r. loop E' sock' s = Some r \<Longrightarrow> ?P E' sock' s r"
      and eq: "(case sock_read_until (socks E') sock' (sv_socks h) of ((t, err), w) \<Rightarrow>
        (if err = Some Eof
         then Some (Inr (), h\<lparr>sv_socks := w, sv_clients := remove_client_by_socket sock' (sv_clients h)\<rparr>)
         else (case handle_text E' sock' t (h\<lparr>sv_socks := w\<rparr>) of
             None \<Rightarrow> None
           | Some (r, s1) \<Rightarrow> (case r of Inl e \<Rightarrow> Some (Inl e, s1) | Inr _ \<Rightarrow> loop E' sock' s1)))) = Some r"
    show "?P E' sock' h r"
    proof (intro impI allI)
      fix h' and s :: "('d, 'n, 'w) server_process"
      assume E: "E' = E" "sock' = sock" and r: "r = (Inr (), h')" and s: "\<not> sp_down s" "sp_serving s t = Some sock"
        "sp_handler s = h"
      show "\<exists>tr. process_run E s tr (s\<lparr>sp_handler := h', sp_serving := (sp_serving s)(t := None)\<rparr>)"
      proof (cases "session_round E sock h = Some (Inr True, h')")
        case True
        then show ?thesis using process_single [OF step_ended [OF s(1,2)]] s(3) by blast
      next
        case False
        then obtain h1 where round: "session_round E sock h = Some (Inr False, h1)" and more: "loop E sock h1 = Some (Inr (), h')"
          using eq unfolding loop_of_rounds E r by (auto split: option.splits prod.splits sum.splits if_splits)
        let ?s1 = "s\<lparr>sp_handler := h1\<rparr>"
        have step: "process_step E s (Round t) ?s1" using step_round [OF s(1,2)] round s(3) by simp
        obtain tr where "process_run E ?s1 tr (?s1\<lparr>sp_handler := h', sp_serving := (sp_serving ?s1)(t := None)\<rparr>)"
          using IH [OF more, rule_format, of h' ?s1] s by auto
        then have "process_run E s ([Round t] @ tr) (s\<lparr>sp_handler := h', sp_serving := (sp_serving s)(t := None)\<rparr>)"
          using process_append [OF process_single [OF step]] by simp
        then show ?thesis by blast
      qed
    qed
  qed
  then show "\<not> sp_down s \<Longrightarrow> sp_serving s t = Some sock \<Longrightarrow> sp_handler s = h \<Longrightarrow>
    \<exists>tr. process_run E s tr (s\<lparr>sp_handler := h', sp_serving := (sp_serving s)(t := None)\<rparr>)"
    using r(2) by blast
qed

section \<open>What the process promises\<close>

text \<open>
  The server without its machinery: accepted connections wait in the order of their arrival; a free
  thread takes the first one and serves it, and no other, until it ends. It handles the texts that
  arrive on that connection. At the end of the connection the users of exactly this socket are
  taken out of the connected clients; an exception frees the main thread and leaves them, and takes
  the whole server down when another thread meets it. There is no queue of handlers here, no
  accept that has to be started again and no timer.
\<close>

record ('d, 'n, 'w) sessions =
  ss_handler :: "('d, 'n, 'w) handler"
  ss_waiting :: "socket list"
  ss_serving :: "thread \<Rightarrow> socket option"
  ss_down :: bool

datatype session_event = Accept socket | Serve thread socket | Handled thread | Closed thread | Failed thread | Traffic

inductive session_step ::
    "('d, 'j, 'n, 'w) services \<Rightarrow> ('d, 'n, 'w) sessions \<Rightarrow> session_event \<Rightarrow> ('d, 'n, 'w) sessions \<Rightarrow> bool"
  for E where
  accept: "\<not> ss_down s \<Longrightarrow> session_step E s (Accept sock) (s\<lparr>ss_waiting := ss_waiting s @ [sock]\<rparr>)"
| serve: "\<not> ss_down s \<Longrightarrow> ss_waiting s = sock # others \<Longrightarrow> ss_serving s t = None \<Longrightarrow>
    session_step E s (Serve t sock) (s\<lparr>ss_waiting := others, ss_serving := (ss_serving s)(t \<mapsto> sock)\<rparr>)"
| handled: "\<not> ss_down s \<Longrightarrow> ss_serving s t = Some sock \<Longrightarrow>
    sock_read_until (socks E) sock (sv_socks (ss_handler s)) = ((received, err), w) \<Longrightarrow> err \<noteq> Some Eof \<Longrightarrow>
    handle_text E sock received ((ss_handler s)\<lparr>sv_socks := w\<rparr>) = Some (Inr (), h) \<Longrightarrow>
    session_step E s (Handled t) (s\<lparr>ss_handler := h\<rparr>)"
| closed: "\<not> ss_down s \<Longrightarrow> ss_serving s t = Some sock \<Longrightarrow>
    sock_read_until (socks E) sock (sv_socks (ss_handler s)) = ((received, Some Eof), w) \<Longrightarrow>
    session_step E s (Closed t)
      (s\<lparr>ss_handler := (ss_handler s)\<lparr>sv_socks := w, sv_clients := remove_client_by_socket sock (sv_clients (ss_handler s))\<rparr>,
         ss_serving := (ss_serving s)(t := None)\<rparr>)"
| failed: "\<not> ss_down s \<Longrightarrow> ss_serving s t = Some sock \<Longrightarrow>
    sock_read_until (socks E) sock (sv_socks (ss_handler s)) = ((received, err), w) \<Longrightarrow> err \<noteq> Some Eof \<Longrightarrow>
    handle_text E sock received ((ss_handler s)\<lparr>sv_socks := w\<rparr>) = Some (Inl e, h) \<Longrightarrow>
    session_step E s (Failed t)
      (if t = 0 \<and> \<not> undefined_exn e then s\<lparr>ss_handler := h, ss_serving := (ss_serving s)(t := None)\<rparr>
       else s\<lparr>ss_handler := h, ss_down := True\<rparr>)"
| traffic: "\<not> ss_down s \<Longrightarrow> session_step E s Traffic (s\<lparr>ss_handler := (ss_handler s)\<lparr>sv_socks := w\<rparr>\<rparr>)"

inductive session_run ::
    "('d, 'j, 'n, 'w) services \<Rightarrow> ('d, 'n, 'w) sessions \<Rightarrow> session_event list \<Rightarrow> ('d, 'n, 'w) sessions \<Rightarrow> bool"
  for E s0 where
  session_start: "session_run E s0 [] s0"
| session_next: "session_run E s0 tr s \<Longrightarrow> session_step E s ev s' \<Longrightarrow> session_run E s0 (tr @ [ev]) s'"

text \<open>What is seen of the process: the sessions that wait in its queue, and the events that are not only machinery.\<close>

fun waiting_sessions :: "job list \<Rightarrow> socket list" where
  "waiting_sessions [] = []"
| "waiting_sessions (Session sock # js) = sock # waiting_sessions js"
| "waiting_sessions (j # js) = waiting_sessions js"

definition view :: "('d, 'n, 'w) server_process \<Rightarrow> ('d, 'n, 'w) sessions" where
  "view s = \<lparr>ss_handler = sp_handler s, ss_waiting = waiting_sessions (sp_jobs s), ss_serving = sp_serving s, ss_down = sp_down s\<rparr>"

fun observed :: "process_event \<Rightarrow> session_event list" where
  "observed (Took t (Accepted sock error)) = (if error then [] else [Accept sock])"
| "observed (Took t (Session sock)) = [Serve t sock]"
| "observed (Round t) = [Handled t]"
| "observed (Ended t) = [Closed t]"
| "observed (Threw t) = [Failed t]"
| "observed Net = [Traffic]"
| "observed ev = []"

lemma waiting_append [simp]: "waiting_sessions (a @ b) = waiting_sessions a @ waiting_sessions b"
  by (induction a rule: waiting_sessions.induct) simp_all

lemma start_handling_view [simp]:
  "sp_jobs (start_request_handling attempt s) = sp_jobs s" "sp_handler (start_request_handling attempt s) = sp_handler s"
  "sp_serving (start_request_handling attempt s) = sp_serving s" "sp_down (start_request_handling attempt s) = sp_down s"
  "view (start_request_handling attempt s) = view s"
  by (cases attempt; simp add: view_def)+

text \<open>One round is what the specification says of one text, of the end, and of an exception.\<close>

lemma round_handled:
  assumes "session_round E sock h = Some (Inr False, h')"
  obtains received err w where "sock_read_until (socks E) sock (sv_socks h) = ((received, err), w)" "err \<noteq> Some Eof"
    "handle_text E sock received (h\<lparr>sv_socks := w\<rparr>) = Some (Inr (), h')"
  using assms by (auto simp: session_round_def split: option.splits sum.splits prod.splits if_splits)

lemma round_closed:
  assumes "session_round E sock h = Some (Inr True, h')"
  obtains received w where "sock_read_until (socks E) sock (sv_socks h) = ((received, Some Eof), w)"
    "h' = h\<lparr>sv_socks := w, sv_clients := remove_client_by_socket sock (sv_clients h)\<rparr>"
  using assms by (auto simp: session_round_def split: option.splits sum.splits prod.splits if_splits)

lemma round_failed:
  assumes "session_round E sock h = Some (Inl e, h')"
  obtains received err w where "sock_read_until (socks E) sock (sv_socks h) = ((received, err), w)" "err \<noteq> Some Eof"
    "handle_text E sock received (h\<lparr>sv_socks := w\<rparr>) = Some (Inl e, h')"
  using assms by (auto simp: session_round_def split: option.splits sum.splits prod.splits if_splits)

lemma view_simps [simp]:
  "ss_handler (view s) = sp_handler s" "ss_waiting (view s) = waiting_sessions (sp_jobs s)"
  "ss_serving (view s) = sp_serving s" "ss_down (view s) = sp_down s"
  by (simp_all add: view_def)

text \<open>A step of the process is a step of the specification, or none of it is seen.\<close>

lemma took_seen:
  assumes "\<not> sp_down s" "sp_serving s t = None" "sp_jobs s = j # js"
  shows "session_run E (view s) (observed (Took t j)) (view (run_job attempt t j (s\<lparr>sp_jobs := js\<rparr>)))"
proof (cases j)
  case (Accepted sock error)
  show ?thesis
  proof (cases error)
    case True
    then have "view (run_job attempt t j (s\<lparr>sp_jobs := js\<rparr>)) = view s"
      using Accepted assms(3) by (simp add: accept_handler_def view_def)
    then show ?thesis using Accepted True by (simp add: session_start)
  next
    case False
    have "view (run_job attempt t j (s\<lparr>sp_jobs := js\<rparr>)) = (view s)\<lparr>ss_waiting := ss_waiting (view s) @ [sock]\<rparr>"
      using Accepted False assms(3) by (simp add: accept_handler_def view_def post_session_def)
    then show ?thesis
      using session_next [OF session_start accept [of "view s" E sock]] assms(1) Accepted False by simp
  qed
next
  case Retry_accept
  then have "view (run_job attempt t j (s\<lparr>sp_jobs := js\<rparr>)) = view s" using assms(3) by (simp add: view_def)
  then show ?thesis using Retry_accept by (simp add: session_start)
next
  case (Session sock)
  have seen: "view (run_job attempt t j (s\<lparr>sp_jobs := js\<rparr>)) =
      (view s)\<lparr>ss_waiting := waiting_sessions js, ss_serving := (ss_serving (view s))(t \<mapsto> sock)\<rparr>"
    using Session by (simp add: view_def)
  show ?thesis
    unfolding seen using session_next [OF session_start serve [of "view s" sock "waiting_sessions js" t E]] assms Session by simp
qed

lemma step_seen:
  assumes "process_step E s ev s'"
  shows "session_run E (view s) (observed ev) (view s')"
  using assms
proof cases
  case (step_arrived sock error)
  then have same: "view s' = view s" by (simp add: view_def)
  show ?thesis unfolding same step_arrived(1) by (simp add: session_start)
next
  case (step_timer k)
  then have same: "view s' = view s" by (simp add: view_def)
  show ?thesis unfolding same step_timer(1) by (simp add: session_start)
next
  case (step_took t j js attempt)
  then show ?thesis using took_seen [of s t j js E attempt] by simp
next
  case (step_round t sock h)
  from step_round(5) obtain received err w where
    "sock_read_until (socks E) sock (sv_socks (sp_handler s)) = ((received, err), w)" "err \<noteq> Some Eof"
    "handle_text E sock received ((sp_handler s)\<lparr>sv_socks := w\<rparr>) = Some (Inr (), h)"
    by (rule round_handled)
  then have "session_step E (view s) (Handled t) ((view s)\<lparr>ss_handler := h\<rparr>)"
    using step_round(3,4) by (intro handled) simp_all
  moreover have "view s' = (view s)\<lparr>ss_handler := h\<rparr>" using step_round(2) by (simp add: view_def)
  ultimately show ?thesis using session_next [OF session_start] step_round(1) by fastforce
next
  case (step_ended t sock h)
  from step_ended(5) obtain received w where
    "sock_read_until (socks E) sock (sv_socks (sp_handler s)) = ((received, Some Eof), w)"
    "h = (sp_handler s)\<lparr>sv_socks := w, sv_clients := remove_client_by_socket sock (sv_clients (sp_handler s))\<rparr>"
    by (rule round_closed)
  then have "session_step E (view s) (Closed t) (view s')"
    using closed [of "view s" t sock E received w] step_ended(2-4) by (simp add: view_def)
  then show ?thesis using session_next [OF session_start] step_ended(1) by fastforce
next
  case (step_threw t sock e h)
  from step_threw(5) obtain received err w where
    "sock_read_until (socks E) sock (sv_socks (sp_handler s)) = ((received, err), w)" "err \<noteq> Some Eof"
    "handle_text E sock received ((sp_handler s)\<lparr>sv_socks := w\<rparr>) = Some (Inl e, h)"
    by (rule round_failed)
  then have "session_step E (view s) (Failed t)
      (if t = 0 \<and> \<not> undefined_exn e then (view s)\<lparr>ss_handler := h, ss_serving := (ss_serving (view s))(t := None)\<rparr>
       else (view s)\<lparr>ss_handler := h, ss_down := True\<rparr>)"
    using step_threw(3,4) by (intro failed) simp_all
  moreover have "view s' = (if t = 0 \<and> \<not> undefined_exn e
      then (view s)\<lparr>ss_handler := h, ss_serving := (ss_serving (view s))(t := None)\<rparr>
      else (view s)\<lparr>ss_handler := h, ss_down := True\<rparr>)"
    unfolding step_threw(2) by (simp add: view_def thread_throws_def)
  ultimately have "session_step E (view s) (Failed t) (view s')" by simp
  then show ?thesis using session_next [OF session_start] step_threw(1) by fastforce
next
  case (step_net w)
  then have "session_step E (view s) Traffic (view s')"
    using traffic [of "view s" E w] by (simp add: view_def)
  then show ?thesis using session_next [OF session_start] step_net(1) by fastforce
qed

lemma session_append:
  "session_run E s0 tr s \<Longrightarrow> session_run E s tr' s' \<Longrightarrow> session_run E s0 (tr @ tr') s'"
  by (rotate_tac, induction rule: session_run.induct)
    (auto simp: session_start simp flip: append_assoc intro: session_next)

section \<open>Properties\<close>

lemma run_job_frame [simp]:
  "sp_handler (run_job attempt t j s) = sp_handler s" "sp_config (run_job attempt t j s) = sp_config s"
  "sp_down (run_job attempt t j s) = sp_down s"
  by (cases j; cases attempt; simp add: accept_handler_def post_session_def)+

lemma thread_throws_frame [simp]:
  "sp_handler (thread_throws t e s) = sp_handler s" "sp_config (thread_throws t e s) = sp_config s"
  "sp_jobs (thread_throws t e s) = sp_jobs s" "sp_accepting (thread_throws t e s) = sp_accepting s"
  "sp_timers (thread_throws t e s) = sp_timers s"
  by (simp_all add: thread_throws_def)

text \<open>
  C29: The process, with its queue of handlers, its accepts and timers and its threads, implements the
  server as the sessions describe it: every run of the process, seen without the machinery, is a run
  of the sessions with the same events. So connections are served in the order in which they were
  accepted, each by one thread that reads from it alone, and the first user of its socket is taken
  out of the connected clients when it ends.
\<close>

theorem process_refines_handler:
  assumes "process_run E s0 tr s"
  shows "session_run E (view s0) (concat (map observed tr)) (view s)"
  using assms
proof induction
  case process_start
  show ?case by (simp add: session_start)
next
  case (process_next tr s ev s')
  then show ?case using session_append [OF process_next.IH step_seen] by simp
qed

text \<open>The handler goes through a run of the handler alone, of which \<open>Server_Sessions\<close> speaks.\<close>

lemma sessions_run_handler:
  assumes "session_run E s0 tr s"
  shows "server_run E (ss_handler s0) (ss_handler s)"
  using assms
proof induction
  case session_start
  show ?case by (rule server_run.run_start)
next
  case (session_next tr s ev s')
  note read = run_socks [OF session_next.IH]
  from session_next.hyps(2) show ?case
  proof cases
    case (handled t sock received err w h)
    then show ?thesis using run_text [OF read handled(7)] by simp
  next
    case (closed t sock received w)
    then show ?thesis using run_close [OF read [of w], of sock] by simp
  next
    case (failed t sock received err w e h)
    then show ?thesis using run_text [OF read failed(7)] by simp
  qed (use session_next.IH read in simp_all)
qed

text \<open>Where the one pending accept is: with the acceptor, with a timer, or in the queue.\<close>

definition accept_job :: "job \<Rightarrow> bool" where
  "accept_job j = (case j of Session sock \<Rightarrow> False | _ \<Rightarrow> True)"

definition accepts_outside :: "('d, 'n, 'w) server_process \<Rightarrow> nat" where
  "accepts_outside s = (if sp_accepting s = None then 0 else 1) + sp_timers s"

definition accepts_pending :: "('d, 'n, 'w) server_process \<Rightarrow> nat" where
  "accepts_pending s = accepts_outside s + length (filter accept_job (sp_jobs s))"

lemmas accepts_defs = accept_job_def accepts_outside_def accepts_pending_def

lemma start_accepts:
  "sp_accepting s = None \<Longrightarrow> accepts_pending (start_request_handling attempt s) = Suc (accepts_pending s)"
  by (cases attempt) (auto simp: accepts_defs)

lemma run_job_accepts:
  assumes "sp_accepting s = None \<or> \<not> accept_job j"
  shows "accepts_pending (run_job attempt t j s) = accepts_pending s + (if accept_job j then 1 else 0)"
proof (cases j)
  case (Accepted sock error)
  have "accepts_pending (if \<not> error then post_session sock s else s) = accepts_pending s"
    "sp_accepting (if \<not> error then post_session sock s else s) = sp_accepting s"
    by (simp_all add: post_session_def accepts_defs)
  then show ?thesis using Accepted assms start_accepts [of "if \<not> error then post_session sock s else s" attempt]
    by (simp add: accept_handler_def accept_job_def)
next
  case Retry_accept
  then show ?thesis using assms start_accepts by (simp add: accept_job_def)
qed (simp add: accepts_defs)

definition process_ok :: "server_config \<Rightarrow> ('d, 'n, 'w) server_process \<Rightarrow> bool" where
  "process_ok config s \<longleftrightarrow> accepts_pending s = 1 \<and> sp_config s = config \<and>
     (\<forall>t. sp_serving s t \<noteq> None \<longrightarrow> t \<le> unat (thread_pool_size config))"

lemma process_step_ok:
  assumes "process_step E s ev s'" "process_ok config s"
  shows "process_ok config s'"
  using assms(1)
proof cases
  case (step_took t j js attempt)
  let ?s = "s\<lparr>sp_jobs := js\<rparr>"
  have pend: "accepts_pending ?s + (if accept_job j then 1 else 0) = 1"
    using assms(2) step_took by (cases "accept_job j") (simp_all add: process_ok_def accepts_pending_def accepts_outside_def)
  have "sp_accepting ?s = None \<or> \<not> accept_job j"
    using pend by (auto simp: accepts_pending_def accepts_outside_def split: if_splits)
  from run_job_accepts [OF this, of attempt t] pend have "accepts_pending s' = 1" by (simp add: step_took)
  moreover have "sp_serving s' = sp_serving s \<or> (\<exists>sock. sp_serving s' = (sp_serving s)(t \<mapsto> sock))"
    unfolding step_took by (cases j; cases attempt; auto simp: accept_handler_def post_session_def)
  ultimately show ?thesis
    using assms(2) step_took by (auto simp: process_ok_def sp_threads_def split: if_splits)
qed (use assms(2) in \<open>auto simp: process_ok_def accepts_defs thread_throws_def\<close>)

lemma process_run_ok: "process_run E s0 tr s \<Longrightarrow> process_ok config s0 \<Longrightarrow> process_ok config s"
  by (induction rule: process_run.induct) (auto intro: process_step_ok)

lemma server_new_ok:
  assumes "server_new A P rc dflt config n w = Inr s"
  shows "process_ok config (server_start attempt s)" "sp_jobs (server_start attempt s) = []"
proof -
  have s: "sp_open s" "sp_accepting s = None" "sp_timers s = 0" "sp_jobs s = []" "sp_serving s = (\<lambda>_. None)"
    "sp_config s = config"
    using assms by (auto simp: server_new_def rbind_Inr_iff split: option.splits)
  show "process_ok config (server_start attempt s)" "sp_jobs (server_start attempt s) = []"
    by (cases attempt; simp add: process_ok_def server_start_def s accepts_defs)+
qed

text \<open>
  C28: In every state of a started server exactly one accept is pending, with the acceptor, with
  the timer or in the queue, whatever fails on the way; and at most one connection more than the
  size of the thread pool is served.
\<close>

theorem one_accept_pending:
  assumes "server_new A P redis_connect defaults config n w = Inr s0"
    and "process_run E (server_start attempt s0) tr s"
  shows "accepts_pending s = 1 \<and> (\<forall>t. sp_serving s t \<noteq> None \<longrightarrow> t \<le> unat (thread_pool_size config)) \<and>
    card {t. sp_serving s t \<noteq> None} \<le> Suc (unat (thread_pool_size config))"
proof -
  have ok: "process_ok config s" by (rule process_run_ok [OF assms(2) server_new_ok(1) [OF assms(1)]])
  then have "{t. sp_serving s t \<noteq> None} \<subseteq> {..unat (thread_pool_size config)}" by (auto simp: process_ok_def)
  from card_mono [OF _ this] ok show ?thesis by (simp add: process_ok_def)
qed

text \<open>
  C27: Once every thread serves a connection, and as long as no session ends, no handler is taken
  from the queue: at most one more connection is accepted, and it is never served.
\<close>

theorem full_server_stalls:
  assumes "server_new A P redis_connect defaults config n w = Inr s0"
    and "process_run E (server_start attempt s0) tr s" "process_run E s tr' s'"
    and "\<forall>t \<le> unat (thread_pool_size config). sp_serving s t \<noteq> None"
    and "\<forall>ev \<in> set tr'. \<forall>t. ev \<noteq> Ended t \<and> ev \<noteq> Threw t"
  shows "sp_serving s' = sp_serving s \<and> (\<exists>js. sp_jobs s' = sp_jobs s @ js \<and> length js \<le> 1)"
proof -
  have ok: "process_ok config s" by (rule process_run_ok [OF assms(2) server_new_ok(1) [OF assms(1)]])
  have "sp_serving s' = sp_serving s \<and> sp_config s' = config \<and>
      (\<exists>js. sp_jobs s' = sp_jobs s @ js \<and> length js + accepts_outside s' = accepts_outside s)"
    using assms(3,5)
  proof induction
    case process_start
    then show ?case using ok by (simp add: process_ok_def)
  next
    case (process_next tr s1 ev s2)
    then have IH: "sp_serving s1 = sp_serving s" "sp_config s1 = config"
      "\<exists>js. sp_jobs s1 = sp_jobs s @ js \<and> length js + accepts_outside s1 = accepts_outside s" by auto
    from process_next.hyps(2) show ?case
    proof cases
      case (step_took t j js attempt)
      then show ?thesis using assms(4) IH(1,2) by (auto simp: sp_threads_def)
    qed (use IH process_next.prems in \<open>auto simp: accepts_outside_def\<close>)
  qed
  moreover have "accepts_outside s \<le> 1" using ok by (simp add: process_ok_def accepts_pending_def)
  ultimately show ?thesis by fastforce
qed

text \<open>
  C26: A thread whose client sends an \<open>authorize\<close> request with a nickname that is not a string can
  only throw. On the main thread this ends the session, and the registry keeps the socket; on a
  thread of the pool it ends the process, and with it every other session.
\<close>

theorem mistyped_request_stops_server:
  assumes "\<not> sp_down s" "sp_serving s t = Some sock"
    and "sock_read_until (socks E) sock (sv_socks (sp_handler s)) = ((received, err), w)" "err \<noteq> Some Eof"
    and "parse_json (json E) (first_line received) = Inr request" "is_request (json E) request ''authorize''"
    and "\<not> is_request (json E) request ''register''"
    and "read_string (json E) request ''nickname'' = Inl e" "e \<noteq> Json_parse_error" "\<not> undefined_exn e"
  shows "(\<forall>s'. \<not> process_step E s (Round t) s' \<and> \<not> process_step E s (Ended t) s') \<and>
    (\<exists>s'. process_step E s (Threw t) s' \<and> sv_clients (sp_handler s') = sv_clients (sp_handler s) \<and>
      (if t = 0 then \<not> sp_down s' \<and> sp_serving s' = (sp_serving s)(0 := None)
       else \<forall>ev s''. \<not> process_step E s' ev s''))"
proof -
  let ?h = "(sp_handler s)\<lparr>sv_socks := w\<rparr>"
  have "dispatch E sock request = handle_authorize E sock request"
    using assms(6,7) by (auto simp: dispatch_def contains_def is_request_def split: option.splits)
  then have "act_bind (act_lift (parse_json (json E) (first_line received))) (dispatch E sock) ?h = Some (Inl e, ?h)"
    using assms(5,8) by (simp add: handle_authorize_def act_run)
  then have "handle_text E sock received ?h = Some (Inl e, ?h)"
    using assms(9) by (cases e) (simp_all add: handle_text_def)
  then have round: "session_round E sock (sp_handler s) = Some (Inl e, ?h)"
    using assms(3,4) by (simp add: session_round_def)
  have "process_step E s (Threw t) (thread_throws t e (s\<lparr>sp_handler := ?h\<rparr>))"
    by (rule step_threw [OF assms(1,2) round])
  moreover have "\<not> process_step E s (Round t) s'" "\<not> process_step E s (Ended t) s'" for s'
    using assms(2) round by (auto elim: process_stepE)
  moreover have "\<not> process_step E s' ev s''" if "sp_down s'" for s' ev s''
    using that by (auto elim: process_stepE)
  ultimately show ?thesis
    using assms(1,10)
    by (intro conjI exI [of _ "thread_throws t e (s\<lparr>sp_handler := ?h\<rparr>)"]) (auto simp: thread_throws_def)
qed

section \<open>Witnesses\<close>

definition willing_acceptor :: acceptor_ops where
  "willing_acceptor = \<lparr>ac_open = Inr (), ac_reuse_address = None, ac_bind = (\<lambda>_. Inr ()), ac_listen = Inr ()\<rparr>"

definition example_redis_options :: redis_options where
  "example_redis_options = \<lparr>redis_user = ''default'', redis_password = [], redis_host = [], redis_port = 6379, redis_db = 0\<rparr>"

text \<open>A server with the configuration of \<open>main\<close>, but without a pool.\<close>

definition small_config :: server_config where
  "small_config = main_config\<lparr>thread_pool_size := 0\<rparr>"

lemma main_redis: "parse_config_string example_redis_options (msg_text_db main_config) =
  Inr (example_redis_options\<lparr>redis_password := ''spraga'', redis_host := ''127.0.0.1''\<rparr>)"
  by (simp add: main_config_def parse_config_string_def until_def behind_def word_char_def digit_def stoi_digits_def
    split_login_def example_redis_options_def)

lemma server_starts:
  assumes "\<And>c. pg_connect P c = Inr d" "msg_text_db config = msg_text_db main_config"
  shows "\<exists>s. server_new willing_acceptor P (\<lambda>_. Inr ()) example_redis_options config n w = Inr s \<and>
    sp_handler s = handler_new \<lparr>rm_connections = [''user_metadata_db'' \<mapsto> d, ''message_metadata_db'' \<mapsto> d],
      rm_file_client = file_client_new (file_server_host config) (file_server_port config), rm_net = n\<rparr> w \<and>
    sp_config s = config \<and> sp_open s \<and> sp_jobs s = [] \<and> sp_serving s = (\<lambda>_. None) \<and> \<not> sp_stopped s \<and> \<not> sp_down s \<and>
    sp_accepting s = None \<and> sp_timers s = 0"
  by (simp add: server_new_def repo_manager_new_def add_connection_def assms text_repo_new_def main_redis
      willing_acceptor_def)

definition busy :: "('d, 'n, 'w) server_process \<Rightarrow> ('d, 'n, 'w) server_process" where
  "busy s = s\<lparr>sp_accepting := Some 4, sp_jobs := [], sp_serving := [0 \<mapsto> 3]\<rparr>"

text \<open>The first connection, accepted and served by the main thread.\<close>

lemma first_connection:
  assumes "\<not> sp_down s" "\<not> sp_stopped s" "sp_open s" "sp_jobs s = []" "sp_serving s = (\<lambda>_. None)" "sp_accepting s = None"
  shows "process_run E (server_start (Inr 3) s) [Arrived 3 False, Took 0 (Accepted 3 False), Took 0 (Session 3)]
    (busy s)"
proof -
  let ?s1 = "s\<lparr>sp_accepting := Some 3\<rparr>" and ?s2 = "s\<lparr>sp_accepting := None, sp_jobs := [Accepted 3 False]\<rparr>"
  let ?s3 = "s\<lparr>sp_jobs := [Session 3], sp_accepting := Some 4\<rparr>" and ?s4 = "busy s"
  have 1: "process_step E ?s1 (Arrived 3 False) ?s2"
    using step_arrived [of ?s1 3 E False] assms by simp
  have 2: "process_step E ?s2 (Took 0 (Accepted 3 False)) ?s3"
    using step_took [of ?s2 0 "Accepted 3 False" "[]" E "Inr 4"] assms by (simp add: accept_handler_def post_session_def)
  have 3: "process_step E ?s3 (Took 0 (Session 3)) ?s4"
    using step_took [of ?s3 0 "Session 3" "[]" E "Inr 4"] assms by (simp add: busy_def)
  have "server_start (Inr 3) s = ?s1" using assms by (simp add: server_start_def)
  then show ?thesis
    using process_next [OF process_next [OF process_next [OF process_start 1] 2] 3] by simp
qed

definition example_tables :: tables where
  "example_tables = \<lparr>t_users = [], t_keys = [], t_next = 1\<rparr>"

definition small_server :: "(tables, file_server \<times> string list, string list) server_process" where
  "small_server =
     (case server_new willing_acceptor example_pg (\<lambda>_. Inr ()) example_redis_options small_config
         (file_server_new ''media'' 1000 (\<lambda>_. None), []) [] of Inr s \<Rightarrow> s)"

lemma small_server:
  "server_new willing_acceptor example_pg (\<lambda>_. Inr ()) example_redis_options small_config
     (file_server_new ''media'' 1000 (\<lambda>_. None), []) [] = Inr small_server"
  "sp_config small_server = small_config" "sp_open small_server" "sp_jobs small_server = []"
  "sp_serving small_server = (\<lambda>_. None)" "\<not> sp_stopped small_server" "\<not> sp_down small_server"
  "sp_accepting small_server = None" "sv_clients (sp_handler small_server) = []"
proof -
  have "pg_connect example_pg c = Inr example_tables" "msg_text_db small_config = msg_text_db main_config" for c
    by (simp_all add: example_pg_def example_tables_def small_config_def)
  note starts = server_starts [of example_pg example_tables small_config
      "(file_server_new ''media'' 1000 (\<lambda>_. None), [] :: string list)" "[] :: string list", OF this]
  obtain s where new: "server_new willing_acceptor example_pg (\<lambda>_. Inr ()) example_redis_options small_config
      (file_server_new ''media'' 1000 (\<lambda>_. None), [] :: string list) ([] :: string list) = Inr s"
    and s: "sp_handler s = handler_new \<lparr>rm_connections = [''user_metadata_db'' \<mapsto> example_tables, ''message_metadata_db'' \<mapsto> example_tables],
      rm_file_client = file_client_new (file_server_host small_config) (file_server_port small_config),
      rm_net = (file_server_new ''media'' 1000 (\<lambda>_. None), [])\<rparr> []"
      "sp_config s = small_config" "sp_open s" "sp_jobs s = []" "sp_serving s = (\<lambda>_. None)"
      "\<not> sp_stopped s" "\<not> sp_down s" "sp_accepting s = None"
    using starts by (elim exE conjE) (rule that)
  have "small_server = s" by (simp add: small_server_def new)
  then show "server_new willing_acceptor example_pg (\<lambda>_. Inr ()) example_redis_options small_config
     (file_server_new ''media'' 1000 (\<lambda>_. None), []) [] = Inr small_server"
    "sp_config small_server = small_config" "sp_open small_server" "sp_jobs small_server = []"
    "sp_serving small_server = (\<lambda>_. None)" "\<not> sp_stopped small_server" "\<not> sp_down small_server"
    "sp_accepting small_server = None" "sv_clients (sp_handler small_server) = []"
    using new s by (simp_all add: handler_new_def handler.defs repo_manager.defs)
qed

lemmas small_run = first_connection [OF small_server(7,6,3,4,5,8)]

theorem process_refines_handler_witness:
  "session_run (services_on queue_socks) (view (server_start (Inr 3) small_server)) [Accept 3, Serve 0 3]
     (view (busy small_server))"
  using process_refines_handler [OF small_run [of "services_on queue_socks"]] by simp

theorem one_accept_pending_witness:
  "card {t. ([0 \<mapsto> 3] :: thread \<Rightarrow> socket option) t \<noteq> None} \<le> Suc (unat (thread_pool_size small_config))"
  using one_accept_pending [OF small_server(1) small_run [of "services_on queue_socks"]] by (simp add: busy_def)

theorem full_server_stalls_witness:
  "\<exists>s'. process_run (services_on queue_socks) (server_start (Inr 3) small_server)
      [Arrived 3 False, Took 0 (Accepted 3 False), Took 0 (Session 3), Arrived 4 False] s' \<and>
    sp_jobs s' = [Accepted 4 False] \<and> sp_serving s' = [0 \<mapsto> 3]"
proof -
  let ?s = "busy small_server"
  let ?s' = "?s\<lparr>sp_accepting := None, sp_jobs := [Accepted 4 False]\<rparr>"
  have step: "process_step (services_on queue_socks) ?s (Arrived 4 False) ?s'"
    using step_arrived [of ?s 4 "services_on queue_socks" False] small_server by (simp add: busy_def)
  have "\<forall>t \<le> unat (thread_pool_size small_config). sp_serving ?s t \<noteq> None"
    by (simp add: small_config_def busy_def)
  from full_server_stalls [OF small_server(1) small_run process_single [OF step] this]
  have "sp_serving ?s' = sp_serving ?s" by simp
  then show ?thesis
    using process_next [OF small_run step] by (intro exI [of _ ?s']) (simp add: busy_def)
qed

text \<open>The request of a client whose nickname is a number.\<close>

definition odd_request :: jval where
  "odd_request = JObj [(''type'', JStr ''authorize''), (''nickname'', JNum 1)]"

definition odd_text :: string where
  "odd_text = (case jdump odd_request of Inr t \<Rightarrow> t | Inl _ \<Rightarrow> [])"

lemma odd_parsed: "jparse (first_line (odd_text @ [CHR 0x0A])) = Inr odd_request"
proof -
  obtain t where t: "jdump odd_request = Inr t" "CHR 0x0A \<notin> set t"
    by (auto simp: odd_request_def)
  have "first_line (t @ CHR 0x0A # []) = t"
    unfolding first_line_def using t(2) by (subst takeWhile_append2) auto
  then show ?thesis using t(1) example_parse_dump [OF t(1)] by (simp add: odd_text_def)
qed

definition odd_server :: "thread \<Rightarrow> (tables, file_server \<times> string list, string list) server_process" where
  "odd_server t = small_server\<lparr>sp_handler := handler_on [odd_text @ [CHR 0x0A]], sp_serving := [t \<mapsto> 3]\<rparr>"

theorem mistyped_request_stops_server_witness:
  "(\<exists>s'. process_step (services_on queue_socks) (odd_server 0) (Threw 0) s' \<and> \<not> sp_down s') \<and>
   (\<exists>s'. process_step (services_on queue_socks) (odd_server 1) (Threw 1) s' \<and>
     (\<forall>ev s''. \<not> process_step (services_on queue_socks) s' ev s''))"
proof -
  have typed: "is_request (json (services_on queue_socks)) odd_request ''authorize''"
    "\<not> is_request (json (services_on queue_socks)) odd_request ''register''"
    "read_string (json (services_on queue_socks)) odd_request ''nickname'' = Inl Json_type_error"
    by (simp_all add: services_on_def is_request_def odd_request_def json_reads)
  have parsed: "parse_json (json (services_on queue_socks)) (first_line (odd_text @ [CHR 0x0A])) = Inr odd_request"
    using odd_parsed by (simp add: services_on_def)
  have arrives: "sock_read_until (socks (services_on queue_socks)) 3 (sv_socks (sp_handler (odd_server t))) =
      ((odd_text @ [CHR 0x0A], None), [])" for t
    by (simp add: services_on_def queue_socks_def odd_server_def handler_on_def)
  have serving: "\<not> sp_down (odd_server t)" "sp_serving (odd_server t) t = Some 3" for t
    using small_server by (simp_all add: odd_server_def)
  note stops = mistyped_request_stops_server [OF serving arrives _ parsed typed]
  show ?thesis using stops [of 0] stops [of 1] by auto
qed

end
