(* ===== verification/Client_State.thy ===== *)
theory Client_State
  imports Hybrid Entities File_Server Actions Repo_Manager
begin

text \<open>
  \<open>client/src/client.cpp\<close> and \<open>client/include/client.hpp\<close>: the object of the chat client, its files
  on disk, its user data (also \<open>save_user_data_to_json\<close> and \<open>load_user_data_from_json\<close> of
  \<open>common/src/user.cpp\<close>) and its constructor. The terminal is a list of input lines, at the end of
  which \<open>std::getline\<close> gives the empty string.
\<close>

section \<open>State\<close>

text \<open>The one socket of a client, over a type \<open>'w\<close> of network states.\<close>

record 'w client_socket =
  cs_connect :: "string \<Rightarrow> 16 word \<Rightarrow> 'w \<Rightarrow> (exn + unit) \<times> 'w"
  cs_write :: "string \<Rightarrow> 'w \<Rightarrow> (exn + unit) \<times> 'w"
  cs_read_until :: "'w \<Rightarrow> (string \<times> read_error option) \<times> 'w"
  cs_is_open :: "'w \<Rightarrow> bool"

text \<open>
  The write queue has three parts: the messages whose posted handler has not run yet, the queue
  itself, and the text of the asynchronous write under way. \<open>cl_reading\<close> tells whether an
  asynchronous read is under way. An incoming file is its path with the
  state of the stream.
\<close>

record 'w client =
  cl_net :: 'w
  cl_input :: "string list"
  cl_disk :: "string \<Rightarrow> string option"
  cl_draws :: nat
  cl_server_address :: string
  cl_server_port :: "16 word"
  cl_user :: user
  cl_authorized :: bool
  cl_user_files_dir :: string
  cl_incoming :: "string \<Rightarrow> (string \<times> bool) option"
  cl_hybrid :: hybrid
  cl_keys :: key_set
  cl_chunk_acknowledged :: bool
  cl_posted :: "string list"
  cl_write_queue :: "string list"
  cl_writing :: "string option"
  cl_reading :: bool

type_synonym ('w, 'a) client_action = "('w client, 'a) action"

text \<open>
  What the operating system answers. A result \<open>Inl\<close> is a \<open>filesystem_error\<close>; \<open>Inr\<close> tells whether
  \<open>create_directories\<close> created one.
\<close>

record client_io =
  ci_is_directory :: "string \<Rightarrow> bool"
  ci_make_directories :: "string \<Rightarrow> exn + bool"
  ci_can_read :: "string \<Rightarrow> bool"
  ci_can_create :: "string \<Rightarrow> bool"

text \<open>
  The libraries of the client. \<open>ce_pick seed i\<close> is the \<open>i\<close>-th position in the
  alphabet that \<open>std::uniform_int_distribution\<close> draws from \<open>std::mt19937\<close> with that seed. \<open>ce_meanwhile\<close> is what the threads of the \<open>io_service\<close>
  have made of the object when a wait of the main thread is over.
\<close>

record ('j, 'w) client_env =
  ce_json :: "'j json_ops"
  ce_hex :: hex_ops
  ce_entropy :: entropy
  ce_pick :: "u32 \<Rightarrow> nat \<Rightarrow> nat"
  ce_socket :: "'w client_socket"
  ce_io :: client_io
  ce_source_dir :: string
  ce_dump_indented :: "'j \<Rightarrow> exn + string"
  ce_read_json :: "string \<Rightarrow> exn + 'j"
  ce_meanwhile :: "'w client \<Rightarrow> 'w client"

section \<open>Terminal and files\<close>

definition get_line :: "('w, string) client_action" where
  "get_line s =
     (case cl_input s of [] \<Rightarrow> Some (Inr [], s) | l # ls \<Rightarrow> Some (Inr l, s\<lparr>cl_input := ls\<rparr>))"

definition read_user_text :: "('w, string) client_action" where
  "read_user_text = get_line"

definition path_exists :: "client_io \<Rightarrow> (string \<Rightarrow> string option) \<Rightarrow> string \<Rightarrow> bool" where
  "path_exists io disk p \<longleftrightarrow> disk p \<noteq> None \<or> ci_is_directory io p"

text \<open>An \<open>ifstream\<close>: a directory opens as well, and reading it gives nothing.\<close>

definition open_read :: "client_io \<Rightarrow> (string \<Rightarrow> string option) \<Rightarrow> string \<Rightarrow> string option" where
  "open_read io disk p =
     (if \<not> ci_can_read io p then None
      else case disk p of
          Some content \<Rightarrow> Some content
        | None \<Rightarrow> (if ci_is_directory io p then Some [] else None))"

definition path_parent :: "string \<Rightarrow> string" where
  "path_parent s =
     (let d = rev (dropWhile (\<lambda>c. c = slash) (dropWhile (\<lambda>c. c \<noteq> slash) (rev s)))
      in if d = [] \<and> s \<noteq> [] \<and> hd s = slash then [slash] else d)"

section \<open>User data\<close>

text \<open>
  A directory that cannot be created ends the call; a file that cannot be opened is only logged.
  An exception of \<open>dump\<close> leaves the opened, empty file behind.
\<close>

definition save_user_data_to_json ::
    "('j, 'w) client_env \<Rightarrow> user \<Rightarrow> string \<Rightarrow> ('w, unit) client_action" where
  "save_user_data_to_json E u filename s =
     (let io = ce_io E; j = user_to_json (ce_json E) u; dir = path_parent filename in
      if (path_exists io (cl_disk s) dir \<or> ci_make_directories io dir = Inr True) \<and> ci_can_create io filename
      then (case ce_dump_indented E j of
          Inl e \<Rightarrow> Some (Inl e, s\<lparr>cl_disk := (cl_disk s)(filename \<mapsto> [])\<rparr>)
        | Inr text \<Rightarrow> Some (Inr (), s\<lparr>cl_disk := (cl_disk s)(filename \<mapsto> text)\<rparr>))
      else Some (Inr (), s))"

definition load_user_data_from_json ::
    "('j, 'w) client_env \<Rightarrow> bool \<Rightarrow> (string \<Rightarrow> string option) \<Rightarrow> string \<Rightarrow> exn + user" where
  "load_user_data_from_json E indeterminate disk filename =
     (case open_read (ce_io E) disk filename of
        Some content \<Rightarrow> rbind (ce_read_json E content) (user_from_json (ce_json E))
      | None \<Rightarrow> Inr (user_default indeterminate))"

definition user_data_filename :: "('j, 'w) client_env \<Rightarrow> string \<Rightarrow> string \<Rightarrow> 16 word \<Rightarrow> string" where
  "user_data_filename E nick address port =
     ce_source_dir E @ ''/client/user_data/'' @ ''user_'' @ nick @ ''_'' @ address @ ''_'' @
       to_string (uint port) @ ''.json''"

definition get_user_data_filename :: "('j, 'w) client_env \<Rightarrow> 'w client \<Rightarrow> string" where
  "get_user_data_filename E s =
     user_data_filename E (user_get_nickname (cl_user s)) (cl_server_address s) (cl_server_port s)"

section \<open>Construction\<close>

text \<open>
  The key pairs are drawn before the body runs. Without stored data, or with data whose id is 0,
  the client starts with a temporary user.
\<close>

definition client_new ::
    "('j, 'w) client_env \<Rightarrow> bool \<Rightarrow> string \<Rightarrow> 16 word \<Rightarrow> string \<Rightarrow> 'w \<Rightarrow> string list \<Rightarrow>
     (string \<Rightarrow> string option) \<Rightarrow> nat \<Rightarrow> 'w client comp" where
  "client_new E indeterminate address port nick w input disk k =
     cbind (hybrid_new (ce_hex E) (ce_entropy E) k) (\<lambda>(hybrid, k).
       let dir = ce_source_dir E @ ''/client/user_files/'' @ nick in
       cbind (lift_result (ci_make_directories (ce_io E) dir)) (\<lambda>_.
         cbind (lift_result
             (load_user_data_from_json E indeterminate disk (user_data_filename E nick address port))) (\<lambda>u.
           ret \<lparr>cl_net = w, cl_input = input, cl_disk = disk, cl_draws = k,
             cl_server_address = address, cl_server_port = port,
             cl_user = (if user_get_id u = 0 then user_set_nickname nick (user_default indeterminate) else u),
             cl_authorized = False, cl_user_files_dir = dir, cl_incoming = Map.empty,
             cl_hybrid = hybrid, cl_keys = [], cl_chunk_acknowledged = False,
             cl_posted = [], cl_write_queue = [], cl_writing = None, cl_reading = False\<rparr>)))"

definition get_user :: "'w client \<Rightarrow> user" where
  "get_user s = cl_user s"

definition is_registered :: "'w client \<Rightarrow> bool" where
  "is_registered s \<longleftrightarrow> user_get_id (cl_user s) \<noteq> 0"

definition is_connected :: "('j, 'w) client_env \<Rightarrow> 'w client \<Rightarrow> bool" where
  "is_connected E s = cs_is_open (ce_socket E) (cl_net s)"

end
