(* ===== verification/Client_App.thy ===== *)
theory Client_App
  imports Client_State Request_Handler Sha256
begin

text \<open>
  The operations of \<open>client/src/client.cpp\<close>: the requests of the blocking phase, the queue of
  asynchronous writes, the sending and receiving of files, the handlers of the messages that the
  server sends, and the interaction with the user. Each callback of the \<open>io_service\<close> is one action;
  how they interleave is the subject of \<open>Client_Async\<close>.
\<close>

section \<open>Writing and reading\<close>

definition blocking_write :: "('j, 'w) client_env \<Rightarrow> string \<Rightarrow> ('w, unit) client_action" where
  "blocking_write E text = act_on cl_net (\<lambda>w s. s\<lparr>cl_net := w\<rparr>) (cs_write (ce_socket E) text)"

definition send_message :: "('j, 'w) client_env \<Rightarrow> string \<Rightarrow> ('w, unit) client_action" where
  "send_message E message = blocking_write E (message @ delimiter)"

definition send_json :: "('j, 'w) client_env \<Rightarrow> 'j \<Rightarrow> ('w, unit) client_action" where
  "send_json E request = act_bind (act_lift (dump_json (ce_json E) request)) (send_message E)"

text \<open>An error of the read is only logged; what was read is returned.\<close>

definition receive_response :: "('j, 'w) client_env \<Rightarrow> ('w, string) client_action" where
  "receive_response E =
     act_on cl_net (\<lambda>w s. s\<lparr>cl_net := w\<rparr>)
       (\<lambda>w. case cs_read_until (ce_socket E) w of ((text, err), w') \<Rightarrow> (Inr text, w'))"

section \<open>The queue of asynchronous writes\<close>

definition async_write :: "('j, 'w) client_env \<Rightarrow> string \<Rightarrow> ('w, unit) client_action" where
  "async_write E message =
     act_modify (\<lambda>s. if is_connected E s then s\<lparr>cl_posted := cl_posted s @ [message]\<rparr> else s)"

definition do_write :: "'w client \<Rightarrow> 'w client" where
  "do_write s = (case cl_write_queue s of [] \<Rightarrow> s | front # _ \<Rightarrow> s\<lparr>cl_writing := Some front\<rparr>)"

text \<open>The handler that \<open>async_write\<close> posts.\<close>

definition posted_write :: "string \<Rightarrow> 'w client \<Rightarrow> 'w client" where
  "posted_write message s =
     (let s' = s\<lparr>cl_write_queue := cl_write_queue s @ [message @ delimiter]\<rparr>
      in if cl_write_queue s = [] then do_write s' else s')"

text \<open>The write under way has ended, with or without an error.\<close>

definition handle_async_write :: "bool \<Rightarrow> 'w client \<Rightarrow> 'w client" where
  "handle_async_write error s =
     (if \<not> error then do_write (s\<lparr>cl_writing := None, cl_write_queue := tl (cl_write_queue s)\<rparr>)
      else s\<lparr>cl_writing := None\<rparr>)"

definition async_read :: "('w, unit) client_action" where
  "async_read = act_modify (\<lambda>s. s\<lparr>cl_reading := True\<rparr>)"

section \<open>Requests\<close>

text \<open>
  \<open>j[key]\<close> on a json value that is not constant: a missing field is inserted as null, other values
  than objects and null throw.
\<close>

definition value_at :: "'j json_ops \<Rightarrow> 'j \<Rightarrow> string \<Rightarrow> exn + 'j" where
  "value_at J j key =
     (if holds_fields J j
      then Inr (case find_field J j key of Some v \<Rightarrow> v | None \<Rightarrow> null_json J)
      else Inl Json_type_error)"

definition present_field :: "'j json_ops \<Rightarrow> 'j \<Rightarrow> string \<Rightarrow> 'j option" where
  "present_field J j key =
     (case find_field J j key of Some v \<Rightarrow> (if is_null J v then None else Some v) | None \<Rightarrow> None)"

definition register_request :: "'j json_ops \<Rightarrow> string \<Rightarrow> string \<Rightarrow> string \<Rightarrow> string \<Rightarrow> 'j" where
  "register_request J nick pass el_gamal_key dsa_key =
     put_string J ''dsa_public_key'' dsa_key
       (put_string J ''el_gamal_public_key'' el_gamal_key
         (put_string J ''password'' pass
           (put_string J ''nickname'' nick (put_string J ''type'' ''register'' (null_json J)))))"

definition save_user :: "('j, 'w) client_env \<Rightarrow> ('w, unit) client_action" where
  "save_user E s = save_user_data_to_json E (cl_user s) (get_user_data_filename E s) s"

text \<open>What a successful answer changes, in the order of the code.\<close>

definition registered ::
    "('j, 'w) client_env \<Rightarrow> string \<Rightarrow> string \<Rightarrow> 'j \<Rightarrow> ('w, unit) client_action" where
  "registered E nick pass response =
     act_then
       (case present_field (ce_json E) response ''user_id'' of
          None \<Rightarrow> act_return ()
        | Some v \<Rightarrow> act_bind (act_lift (get_int (ce_json E) v)) (\<lambda>i.
            act_modify (\<lambda>s. s\<lparr>cl_user := user_set_id i (cl_user s)\<rparr>)))
       (act_then
         (case present_field (ce_json E) response ''registered_timestamp'' of
            None \<Rightarrow> act_return ()
          | Some v \<Rightarrow> act_bind (act_lift (get_int64 (ce_json E) v)) (\<lambda>t.
              act_modify (\<lambda>s. s\<lparr>cl_user := user_set_registered_timestamp t (cl_user s)\<rparr>)))
         (act_then
           (act_modify (\<lambda>s. s\<lparr>cl_user := user_set_password pass (user_set_nickname nick (cl_user s))\<rparr>))
           (save_user E)))"

definition register_user :: "('j, 'w) client_env \<Rightarrow> ('w, unit) client_action" where
  "register_user E =
     act_bind (act_gets (\<lambda>s. user_get_nickname (cl_user s))) (\<lambda>nick.
       act_bind get_line (\<lambda>pass.
         act_bind (act_gets cl_hybrid) (\<lambda>h.
           act_bind (act_lift (cpp_int_to_hex (ce_hex E) (get_el_gamal_key h))) (\<lambda>el_gamal_key.
             act_bind (act_lift (cpp_int_to_hex (ce_hex E) (get_dsa_key h))) (\<lambda>dsa_key.
               act_then (send_json E (register_request (ce_json E) nick pass el_gamal_key dsa_key))
                 (act_bind (receive_response E) (\<lambda>text.
                   act_bind (act_lift (parse_json (ce_json E) text)) (\<lambda>response.
                     act_bind (act_lift (value_at (ce_json E) response ''status'')) (\<lambda>status.
                       if equals_string (ce_json E) status ''success'' then registered E nick pass response
                       else act_return ()))))))))) "

definition authorize_request :: "'j json_ops \<Rightarrow> i32 \<Rightarrow> string \<Rightarrow> string \<Rightarrow> 'j" where
  "authorize_request J i nick pass =
     put_string J ''password'' pass
       (put_string J ''nickname'' nick
         (put_int J ''user_id'' i (put_string J ''type'' ''authorize'' (null_json J))))"

definition client_authorize_user :: "('j, 'w) client_env \<Rightarrow> ('w, unit) client_action" where
  "client_authorize_user E =
     act_bind get_line (\<lambda>pass.
       act_bind (act_gets cl_user) (\<lambda>u.
         act_catch
           (act_then (send_json E (authorize_request (ce_json E) (user_get_id u) (user_get_nickname u) pass))
             (act_bind (receive_response E) (\<lambda>text.
               act_bind (act_lift (parse_json (ce_json E) text)) (\<lambda>response.
                 act_bind (act_lift (value_at (ce_json E) response ''status'')) (\<lambda>status.
                   if equals_string (ce_json E) status ''success''
                   then act_then (act_modify (\<lambda>s. s\<lparr>cl_authorized := True\<rparr>)) (save_user E)
                   else act_return ())))))
           (act_return ())))"

text \<open>Operations that draw random numbers.\<close>

definition with_draws :: "(nat \<Rightarrow> ('a \<times> nat) comp) \<Rightarrow> ('w, 'a) client_action" where
  "with_draws f s =
     (case f (cl_draws s) of
        None \<Rightarrow> None
      | Some (Inl e) \<Rightarrow> Some (Inl e, s)
      | Some (Inr (x, k)) \<Rightarrow> Some (Inr x, s\<lparr>cl_draws := k\<rparr>))"

definition string_bytes :: "string \<Rightarrow> bytes" where
  "string_bytes = map of_char"

definition sha256_text :: "string \<Rightarrow> string" where
  "sha256_text text = fst (digest (update sha256_new (string_bytes text)))"

definition aes_key_request ::
    "'j json_ops \<Rightarrow> i32 \<Rightarrow> string \<Rightarrow> string \<Rightarrow> string \<Rightarrow> string \<Rightarrow> string \<Rightarrow> 'j" where
  "aes_key_request J sender receiver_nickname c1_text c2_text r_text s_text =
     put_string J ''dsa_signature'' s_text
       (put_string J ''dsa_r'' r_text
         (put_string J ''encrypted_aes_key_c2'' c2_text
           (put_string J ''encrypted_aes_key_c1'' c1_text
             (put_string J ''receiver_nickname'' receiver_nickname
               (put_int J ''sender_id'' sender (put_string J ''type'' ''send_aes_key'' (null_json J)))))))"

definition send_aes_key :: "('j, 'w) client_env \<Rightarrow> string \<Rightarrow> string \<Rightarrow> ('w, unit) client_action" where
  "send_aes_key E receiver_nickname receiver_public_key =
     act_bind (act_gets cl_hybrid) (\<lambda>h.
       act_bind (with_draws (\<lambda>k. encrypt_message (ce_hex E) (ce_entropy E) k h receiver_public_key)) (\<lambda>em.
         act_bind (act_lift (cpp_int_to_hex (ce_hex E) (c1 em))) (\<lambda>c1_text.
           act_bind (act_lift (cpp_int_to_hex (ce_hex E) (c2 em))) (\<lambda>c2_text.
             act_bind (act_lift (hex_to_cpp_int (ce_hex E) (sha256_text (c1_text @ c2_text)))) (\<lambda>hash.
               act_bind (with_draws (\<lambda>k. hybrid_sign (ce_entropy E) k h hash)) (\<lambda>sig.
                 act_bind (act_lift (cpp_int_to_hex (ce_hex E) (sig_r sig))) (\<lambda>r_text.
                   act_bind (act_lift (cpp_int_to_hex (ce_hex E) (sig_s sig))) (\<lambda>s_text.
                     act_bind (act_gets (\<lambda>s. user_get_id (cl_user s))) (\<lambda>sender.
                       act_catch
                         (send_json E (aes_key_request (ce_json E) sender receiver_nickname c1_text c2_text r_text s_text))
                         (act_return ()))))))))))"

definition user_keys_request :: "'j json_ops \<Rightarrow> string \<Rightarrow> 'j" where
  "user_keys_request J nick = put_string J ''nickname'' nick (put_string J ''type'' ''get_user_keys'' (null_json J))"

definition get_receiver_public_keys :: "('j, 'w) client_env \<Rightarrow> string \<Rightarrow> ('w, unit) client_action" where
  "get_receiver_public_keys E receiver_nickname =
     act_catch (send_json E (user_keys_request (ce_json E) receiver_nickname)) (act_return ())"

section \<open>Sending files\<close>

definition chunk_request :: "'j json_ops \<Rightarrow> string \<Rightarrow> string \<Rightarrow> u64 \<Rightarrow> bool \<Rightarrow> 'j" where
  "chunk_request J filename chunk chunk_number is_last =
     put_bool J ''is_last'' is_last
       (put_size J ''chunk_number'' chunk_number
         (put_string J ''chunk_data'' chunk
           (put_string J ''filename'' filename (put_string J ''type'' ''file_chunk'' (null_json J)))))"

text \<open>
  \<open>_chunk_cv.wait_for\<close> with the predicate: the wait ends in the state that the other threads have
  made, with an acknowledgement, which is taken, or with the time out.
\<close>

definition await_acknowledgment :: "('j, 'w) client_env \<Rightarrow> ('w, bool) client_action" where
  "await_acknowledgment E s =
     (let s' = (if cl_chunk_acknowledged s then s else ce_meanwhile E s)
      in if cl_chunk_acknowledged s' then Some (Inr True, s'\<lparr>cl_chunk_acknowledged := False\<rparr>)
         else Some (Inr False, s'))"

text \<open>
  The loop over what is left of the file. A read of 512 bytes meets the end of the file only when
  fewer than 512 are left.
\<close>

function send_chunk_loop ::
    "('j, 'w) client_env \<Rightarrow> string \<Rightarrow> u64 \<Rightarrow> string \<Rightarrow> ('w, unit) client_action" where
  "send_chunk_loop E filename chunk_number left =
     (if left = [] then act_return ()
      else act_bind (act_lift (dump_json (ce_json E)
          (chunk_request (ce_json E) filename (take 512 left) chunk_number (length left < 512)))) (\<lambda>text.
        act_then (async_write E text)
          (act_bind (await_acknowledgment E) (\<lambda>acknowledged.
            if acknowledged then send_chunk_loop E filename (chunk_number + 1) (drop 512 left)
            else act_return ()))))"
  by pat_completeness auto
termination
  by (relation "measure (\<lambda>(E, filename, n, left). length left)") auto

declare send_chunk_loop.simps [simp del]

definition send_file_chunks :: "('j, 'w) client_env \<Rightarrow> string \<Rightarrow> ('w, unit) client_action" where
  "send_file_chunks E filepath =
     act_bind (act_gets (\<lambda>s. open_read (ce_io E) (cl_disk s) filepath)) (\<lambda>content.
       case content of
         None \<Rightarrow> act_return ()
       | Some left \<Rightarrow> send_chunk_loop E (path_filename filepath) 1 left)"

text \<open>
  The variant that waits with a timer. \<open>send_next_chunk\<close> gives the state with which it waits, or
  none when the transfer is over; \<open>wait_for_chunk_ack\<close> is one expiry of the timer.
\<close>

record file_transfer_state =
  fts_left :: string
  fts_good :: bool
  fts_chunk_number :: u64
  fts_filename :: string

definition send_next_chunk ::
    "('j, 'w) client_env \<Rightarrow> file_transfer_state \<Rightarrow> ('w, file_transfer_state option) client_action" where
  "send_next_chunk E t =
     (let chunk = take 512 (fts_left t); at_end = (length (fts_left t) < 512) in
      if \<not> fts_good t \<or> chunk = [] then act_return None
      else act_bind (act_lift (dump_json (ce_json E)
          (chunk_request (ce_json E) (fts_filename t) chunk (fts_chunk_number t + 1) at_end))) (\<lambda>text.
        act_then (async_write E text)
          (act_return (Some (t\<lparr>fts_left := drop 512 (fts_left t), fts_good := \<not> at_end\<rparr>)))))"

definition wait_for_chunk_ack ::
    "('j, 'w) client_env \<Rightarrow> file_transfer_state \<Rightarrow> ('w, file_transfer_state option) client_action" where
  "wait_for_chunk_ack E t =
     act_bind (act_gets cl_chunk_acknowledged) (\<lambda>acknowledged.
       if acknowledged
       then act_then (act_modify (\<lambda>s. s\<lparr>cl_chunk_acknowledged := False\<rparr>))
         (send_next_chunk E (t\<lparr>fts_chunk_number := fts_chunk_number t + 1\<rparr>))
       else act_return (Some t))"

section \<open>Messages of the server\<close>

definition handle_chunk_acknowledgment :: "('j, 'w) client_env \<Rightarrow> 'j \<Rightarrow> ('w, unit) client_action" where
  "handle_chunk_acknowledgment E response =
     act_bind (act_lift (const_at (ce_json E) response ''status'')) (\<lambda>status.
       if equals_string (ce_json E) status ''success''
       then act_modify (\<lambda>s. s\<lparr>cl_chunk_acknowledged := True\<rparr>)
       else act_bind (act_lift (read_string (ce_json E) response ''error'')) (\<lambda>_. act_return ()))"

text \<open>The assignment closes an earlier stream for the name; opening truncates the file.\<close>

definition handle_incoming_file :: "('j, 'w) client_env \<Rightarrow> 'j \<Rightarrow> ('w, unit) client_action" where
  "handle_incoming_file E notification =
     act_bind (act_lift (read_string (ce_json E) notification ''filename'')) (\<lambda>filename.
       act_bind (act_lift (read_int (ce_json E) notification ''sender_id'')) (\<lambda>_.
         act_modify (\<lambda>s.
           let p = cl_user_files_dir s @ [slash] @ filename; ok = ci_can_create (ce_io E) p in
           s\<lparr>cl_incoming := (cl_incoming s)(filename \<mapsto> (p, ok)),
             cl_disk := (if ok then (cl_disk s)(p \<mapsto> []) else cl_disk s)\<rparr>)))"

definition append_file :: "string \<Rightarrow> string \<Rightarrow> (string \<Rightarrow> string option) \<Rightarrow> string \<Rightarrow> string option" where
  "append_file p data disk = disk(p \<mapsto> (case disk p of Some c \<Rightarrow> c | None \<Rightarrow> []) @ data)"

definition received_request :: "'j json_ops \<Rightarrow> string \<Rightarrow> u64 \<Rightarrow> 'j" where
  "received_request J filename chunk_number =
     put_size J ''chunk_number'' chunk_number
       (put_string J ''filename'' filename (put_string J ''type'' ''chunk_received'' (null_json J)))"

definition handle_incoming_file_chunk :: "('j, 'w) client_env \<Rightarrow> 'j \<Rightarrow> ('w, unit) client_action" where
  "handle_incoming_file_chunk E chunk_message =
     act_bind (act_lift (read_string (ce_json E) chunk_message ''filename'')) (\<lambda>filename.
       act_bind (act_lift (read_string (ce_json E) chunk_message ''chunk_data'')) (\<lambda>chunk_data.
         act_bind (act_lift (read_size (ce_json E) chunk_message ''chunk_number'')) (\<lambda>chunk_number.
           act_bind (act_lift (read_bool (ce_json E) chunk_message ''is_last'')) (\<lambda>is_last.
             act_bind (act_gets (\<lambda>s. cl_incoming s filename)) (\<lambda>stream.
               case stream of
                 None \<Rightarrow> act_return ()
               | Some (p, ok) \<Rightarrow>
                   act_then
                     (act_modify (\<lambda>s. if ok then s\<lparr>cl_disk := append_file p chunk_data (cl_disk s)\<rparr> else s))
                     (act_bind (act_lift (dump_json (ce_json E) (received_request (ce_json E) filename chunk_number)))
                       (\<lambda>text. act_then (async_write E text)
                         (act_modify (\<lambda>s. if is_last then s\<lparr>cl_incoming := (cl_incoming s)(filename := None)\<rparr>
                           else s)))))))))"

text \<open>\<open>crypto::hex_to_cpp_int(request[key])\<close>.\<close>

definition hex_at :: "('j, 'w) client_env \<Rightarrow> 'j \<Rightarrow> string \<Rightarrow> exn + int" where
  "hex_at E request key = rbind (read_string (ce_json E) request key) (hex_to_cpp_int (ce_hex E))"

definition type_is_success :: "('j, 'w) client_env \<Rightarrow> 'j \<Rightarrow> exn + bool" where
  "type_is_success E request =
     rbind (const_at (ce_json E) request ''type'') (\<lambda>v. Inr (equals_string (ce_json E) v ''success''))"

definition handle_receive_user_public_keys :: "('j, 'w) client_env \<Rightarrow> 'j \<Rightarrow> ('w, unit) client_action" where
  "handle_receive_user_public_keys E request =
     act_bind (act_lift (type_is_success E request)) (\<lambda>success.
       if success
       then act_bind (act_lift (read_int (ce_json E) request ''sender_id'')) (\<lambda>user.
         act_bind (act_lift (hex_at E request ''dsa_public_key'')) (\<lambda>dsa_key.
           act_bind (act_lift (hex_at E request ''el_gamal_public_key'')) (\<lambda>el_gamal_key.
             act_modify (\<lambda>s. s\<lparr>cl_keys := add_user_keys user (user_keys_new dsa_key el_gamal_key (-1)) (cl_keys s)\<rparr>))))
       else act_return ())"

text \<open>
  The key is stored before the signature is looked at, and the hash is taken over the second part
  of the ciphertext twice.
\<close>

definition handle_receive_aes_key :: "('j, 'w) client_env \<Rightarrow> 'j \<Rightarrow> ('w, unit) client_action" where
  "handle_receive_aes_key E request =
     act_bind (act_lift (type_is_success E request)) (\<lambda>success.
       if success
       then act_bind (act_lift (read_int (ce_json E) request ''sender_id'')) (\<lambda>sender.
         act_bind (act_lift (hex_at E request ''encrypted_aes_key_c1'')) (\<lambda>c1_key.
           act_bind (act_lift (hex_at E request ''encrypted_aes_key_c2'')) (\<lambda>c2_key.
             act_bind (act_gets cl_hybrid) (\<lambda>h.
               act_bind (act_lift (decrypt_message h \<lparr>c1 = c1_key, c2 = c2_key\<rparr>)) (\<lambda>aes_key.
                 act_then (act_modify (\<lambda>s. s\<lparr>cl_keys := key_set_set_aes_key sender aes_key (cl_keys s)\<rparr>))
                   (act_bind (act_lift (hex_at E request ''dsa_r'')) (\<lambda>r_key.
                     act_bind (act_lift (hex_at E request ''dsa_signature'')) (\<lambda>s_key.
                       act_bind (act_lift (read_string (ce_json E) request ''encrypted_aes_key_c1'')) (\<lambda>_.
                         act_bind (act_lift (read_string (ce_json E) request ''encrypted_aes_key_c2'')) (\<lambda>c2_text.
                           act_bind (act_lift (hex_to_cpp_int (ce_hex E) (sha256_text (c2_text @ c2_text)))) (\<lambda>hash.
                             act_bind (act_gets (\<lambda>s. get_user_keys sender (cl_keys s))) (\<lambda>keys.
                               case keys of
                                 None \<Rightarrow> act_lift (Inl (Undefined_behaviour ''empty optional dereferenced''))
                               | Some user_keys \<Rightarrow>
                                   act_bind (act_lift (hybrid_verify h hash \<lparr>sig_r = r_key, sig_s = s_key\<rparr>
                                       (get_dsa_public_key user_keys))) (\<lambda>is_verified.
                                     if is_verified
                                     then act_modify (\<lambda>s. s\<lparr>cl_keys := key_set_set_aes_key sender aes_key (cl_keys s)\<rparr>)
                                     else act_return ())))))))))))))
       else act_return ())"

definition dispatch_message :: "('j, 'w) client_env \<Rightarrow> 'j \<Rightarrow> ('w, unit) client_action" where
  "dispatch_message E message =
     act_bind (act_lift (value_at (ce_json E) message ''type'')) (\<lambda>v.
       let is = equals_string (ce_json E) v in
       if is ''chunk_acknowledgment'' then handle_chunk_acknowledgment E message
       else if is ''incoming_file'' then handle_incoming_file E message
       else if is ''file_chunk'' then handle_incoming_file_chunk E message
       else if is ''receive_user_public_keys'' then handle_receive_user_public_keys E message
       else if is ''receive_aes_key'' then handle_receive_aes_key E message
       else act_return ())"

text \<open>Only \<open>parse_error\<close> is caught.\<close>

definition process_server_message :: "('j, 'w) client_env \<Rightarrow> string \<Rightarrow> ('w, unit) client_action" where
  "process_server_message E text s =
     (case act_bind (act_lift (parse_json (ce_json E) text)) (dispatch_message E) s of
        Some (Inl Json_parse_error, s') \<Rightarrow> Some (Inr (), s')
      | r \<Rightarrow> r)"

text \<open>A read has ended, with a message or with an error; only after a message is there another read.\<close>

definition handle_async_read ::
    "('j, 'w) client_env \<Rightarrow> read_error option \<Rightarrow> string \<Rightarrow> ('w, unit) client_action" where
  "handle_async_read E error message =
     act_then (act_modify (\<lambda>s. s\<lparr>cl_reading := False\<rparr>))
       (if error = None then act_then (process_server_message E message) async_read else act_return ())"

section \<open>Interaction with the user\<close>

text \<open>\<open>std::stoi\<close> in base ten.\<close>

definition stoi :: "string \<Rightarrow> exn + int" where
  "stoi text =
     (let t = dropWhile space_char text;
          negative = (t \<noteq> [] \<and> hd t = CHR ''-'');
          u = (if t \<noteq> [] \<and> (hd t = CHR ''-'' \<or> hd t = CHR ''+'') then tl t else t);
          ds = takeWhile digit u;
          v = (if negative then - int (digits_value 0 ds) else int (digits_value 0 ds))
      in if ds = [] then Inl (Invalid_argument ''stoi'')
         else if v < - 2147483648 \<or> 2147483647 < v then Inl (Out_of_range ''stoi'')
         else Inr v)"

text \<open>Only \<open>std::invalid_argument\<close> is caught.\<close>

definition action_number :: "string \<Rightarrow> exn + int" where
  "action_number text = (case stoi text of Inl (Invalid_argument m) \<Rightarrow> Inr (-1) | r \<Rightarrow> r)"

partial_function (option) read_action :: "'w client \<Rightarrow> ((exn + int) \<times> 'w client) option" where
  "read_action s =
     (case get_line s of
        None \<Rightarrow> None
      | Some (line, s') \<Rightarrow>
          (case rbind line action_number of
             Inl e \<Rightarrow> Some (Inl e, s')
           | Inr a \<Rightarrow> (if 0 \<le> a \<and> a < 6 then Some (Inr a, s') else read_action s')))"

definition message_request ::
    "'j json_ops \<Rightarrow> i32 \<Rightarrow> string \<Rightarrow> string \<Rightarrow> string \<Rightarrow> 'j" where
  "message_request J sender recipient message_text file_name =
     put_string J ''file_name'' file_name
       (put_string J ''message_text'' message_text
         (put_string J ''receiver_nickname'' recipient
           (put_int J ''sender_id'' sender (put_string J ''type'' ''send_message'' (null_json J)))))"

text \<open>The chunks are sent whether or not the file exists; \<open>send_file_chunks\<close> opens it again.\<close>

definition message_action :: "('j, 'w) client_env \<Rightarrow> ('w, unit) client_action" where
  "message_action E =
     act_bind get_line (\<lambda>recipient.
       act_bind get_line (\<lambda>message_text.
         act_bind get_line (\<lambda>file_name.
           act_bind (act_gets (\<lambda>s. path_append (cl_user_files_dir s) file_name)) (\<lambda>filepath.
             act_bind (act_gets (\<lambda>s. message_request (ce_json E) (user_get_id (cl_user s)) recipient message_text
                 (if path_exists (ce_io E) (cl_disk s) filepath then file_name else ''none''))) (\<lambda>message.
               act_bind (act_lift (dump_json (ce_json E) message)) (\<lambda>text.
                 act_then (async_write E text) (send_file_chunks E filepath)))))))"

definition client_alphabet :: string where
  "client_alphabet =
     ''0123456789'' @ ''ABCDEFGHIJKLMNOPQRSTUVWXYZ'' @ ''abcdefghijklmnopqrstuvwxyz''"

definition client_filename_len :: nat where
  "client_filename_len = 16"

definition generate_random_string :: "('j, 'w) client_env \<Rightarrow> nat \<Rightarrow> ('w, string) client_action" where
  "generate_random_string E len s =
     Some (Inr (map (\<lambda>i. client_alphabet ! ce_pick E (device (ce_entropy E) (cl_draws s)) i) [0..<len]),
       s\<lparr>cl_draws := cl_draws s + 1\<rparr>)"

definition path_extension :: "string \<Rightarrow> string" where
  "path_extension p = drop (length (path_stem p)) (path_filename p)"

text \<open>\<open>copy_file\<close> throws when the target exists; what it throws is caught.\<close>

definition share_file_action :: "('j, 'w) client_env \<Rightarrow> ('w, unit) client_action" where
  "share_file_action E =
     act_bind get_line (\<lambda>filepath.
       act_bind (act_gets (\<lambda>s. path_exists (ce_io E) (cl_disk s) filepath)) (\<lambda>found.
         if \<not> found then act_return ()
         else act_bind (generate_random_string E client_filename_len) (\<lambda>name.
           act_modify (\<lambda>s.
             let destination = path_append (cl_user_files_dir s) (name @ path_extension filepath) in
             case cl_disk s filepath of
               Some content \<Rightarrow>
                 (if ci_can_read (ce_io E) filepath \<and> \<not> path_exists (ce_io E) (cl_disk s) destination \<and>
                     ci_can_create (ce_io E) destination
                  then s\<lparr>cl_disk := (cl_disk s)(destination \<mapsto> content)\<rparr> else s)
             | None \<Rightarrow> s))))"

definition perform_action :: "('j, 'w) client_env \<Rightarrow> int \<Rightarrow> ('w, unit) client_action" where
  "perform_action E a =
     (if a = 0 then message_action E
      else if a = 1 then act_bind get_line (get_receiver_public_keys E)
      else if a = 2 then share_file_action E
      else act_return ())"

partial_function (option) handle_user_interaction ::
    "('j, 'w) client_env \<Rightarrow> 'w client \<Rightarrow> ((exn + unit) \<times> 'w client) option" where
  "handle_user_interaction E s =
     (case read_action s of
        None \<Rightarrow> None
      | Some (r, s1) \<Rightarrow>
          (case r of
             Inl e \<Rightarrow> Some (Inl e, s1)
           | Inr a \<Rightarrow>
               (if a = 5 then Some (Inr (), s1)
                else case perform_action E a s1 of
                    None \<Rightarrow> None
                  | Some (q, s2) \<Rightarrow>
                      (case q of Inl e \<Rightarrow> Some (Inl e, s2) | Inr _ \<Rightarrow> handle_user_interaction E s2))))"

text \<open>
  The loops that register and authorize: \<open>ask_once\<close> is repeated until \<open>good\<close> holds or the user does not
  answer yes.
\<close>

partial_function (option) ask_until ::
    "('w, unit) client_action \<Rightarrow> ('w client \<Rightarrow> bool) \<Rightarrow> 'w client \<Rightarrow> ((exn + bool) \<times> 'w client) option" where
  "ask_until ask_once good s =
     (if good s then Some (Inr True, s)
      else case ask_once s of
          None \<Rightarrow> None
        | Some (r, s1) \<Rightarrow>
            (case r of
               Inl e \<Rightarrow> Some (Inl e, s1)
             | Inr _ \<Rightarrow>
                 (if good s1 then Some (Inr True, s1)
                  else case get_line s1 of
                      None \<Rightarrow> None
                    | Some (reply, s2) \<Rightarrow>
                        (if reply = Inr ''y'' \<or> reply = Inr ''Y'' then ask_until ask_once good s2
                         else Some (Inr False, s2)))))"

text \<open>
  Every exception ends the run, and is only logged. What follows the interaction with the user, waiting
  for the threads of the client and closing the socket, is in \<open>Client_Exit\<close>.
\<close>

definition run :: "('j, 'w) client_env \<Rightarrow> ('w, unit) client_action" where
  "run E =
     act_catch
       (act_then
         (\<lambda>s. act_on cl_net (\<lambda>w s. s\<lparr>cl_net := w\<rparr>)
           (cs_connect (ce_socket E) (cl_server_address s) (cl_server_port s)) s)
         (act_bind (ask_until (register_user E) is_registered) (\<lambda>ok.
           if \<not> ok then act_return ()
           else act_bind (ask_until (client_authorize_user E) cl_authorized) (\<lambda>ok.
             if \<not> ok then act_return ()
             else act_then async_read (handle_user_interaction E)))))
       (act_return ())"

end
