(* ===== verification/Client_Async.thy ===== *)
theory Client_Async
  imports Client_App
begin

text \<open>
  The threads of the client: the main thread, which calls \<open>async_write\<close>, and the threads of the
  \<open>io_service\<close>, which run the posted handlers and the completions of the asynchronous operations.
  One step is one callback or one call. Posted handlers run in any order, since several threads
  take them; the object has no strand, and two callbacks that run at the same moment are not
  modelled.
\<close>

section \<open>Steps\<close>

text \<open>What happens: a posted handler runs, a write ends, a read ends, or something else.\<close>

datatype io_event = Ran string | Written string | Failed string | Received string | Lost read_error | Other

inductive client_step ::
    "('j, 'w) client_env \<Rightarrow> 'w client \<Rightarrow> io_event \<Rightarrow> 'w client \<Rightarrow> bool" for E where
  step_call: "async_write E m s = Some (r, s') \<Longrightarrow> client_step E s Other s'"
| step_posted: "cl_posted s = before @ m # after \<Longrightarrow>
    client_step E s (Ran m) (posted_write m (s\<lparr>cl_posted := before @ after\<rparr>))"
| step_written: "cl_writing s = Some t \<Longrightarrow> cs_write (ce_socket E) t (cl_net s) = (Inr (), w) \<Longrightarrow>
    client_step E s (Written t) (handle_async_write False (s\<lparr>cl_net := w\<rparr>))"
| step_failed: "cl_writing s = Some t \<Longrightarrow> cs_write (ce_socket E) t (cl_net s) = (Inl e, w) \<Longrightarrow>
    client_step E s (Failed t) (handle_async_write True (s\<lparr>cl_net := w\<rparr>))"
| step_read: "cl_reading s \<Longrightarrow> cs_read_until (ce_socket E) (cl_net s) = ((t, err), w) \<Longrightarrow>
    handle_async_read E err t (s\<lparr>cl_net := w\<rparr>) = Some (Inr (), s') \<Longrightarrow>
    client_step E s (case err of None \<Rightarrow> Received t | Some e \<Rightarrow> Lost e) s'"
| step_main: "client_step E s Other
    (s\<lparr>cl_input := ls, cl_disk := disk, cl_draws := k, cl_chunk_acknowledged := b, cl_net := w\<rparr>)"

inductive client_run ::
    "('j, 'w) client_env \<Rightarrow> 'w client \<Rightarrow> io_event list \<Rightarrow> 'w client \<Rightarrow> bool" for E s0 where
  run_start: "client_run E s0 [] s0"
| run_step: "client_run E s0 tr s \<Longrightarrow> client_step E s ev s' \<Longrightarrow> client_run E s0 (tr @ [ev]) s'"

inductive_cases client_stepE: "client_step E s ev s'"

text \<open>The texts that the handlers queued, and the texts that were written, in order.\<close>

fun queued :: "io_event list \<Rightarrow> string list" where
  "queued [] = []"
| "queued (Ran m # tr) = (m @ delimiter) # queued tr"
| "queued (ev # tr) = queued tr"

fun written :: "io_event list \<Rightarrow> string list" where
  "written [] = []"
| "written (Written t # tr) = t # written tr"
| "written (ev # tr) = written tr"

definition failure :: "io_event \<Rightarrow> bool" where
  "failure ev \<longleftrightarrow> (\<exists>t. ev = Failed t)"

lemma queued_append [simp]: "queued (a @ b) = queued a @ queued b"
  by (induction a rule: queued.induct) auto

lemma written_append [simp]: "written (a @ b) = written a @ written b"
  by (induction a rule: written.induct) auto

section \<open>The queue\<close>

text \<open>The callbacks of a read leave the queue alone: they only post.\<close>

definition queue_is :: "string list \<Rightarrow> string option \<Rightarrow> 'w client \<Rightarrow> bool" where
  "queue_is q w s \<longleftrightarrow> cl_write_queue s = q \<and> cl_writing s = w"

lemma keeps_async_write: "keeps (queue_is q w) (async_write E m)"
  unfolding async_write_def by (rule keeps_modify) (simp add: queue_is_def)

lemma keeps_process:
  assumes "\<And>message. keeps I (dispatch_message E message)"
  shows "keeps I (process_server_message E text)"
  unfolding keeps_def
proof (intro allI impI)
  fix s r s' assume I: "I s" and p: "process_server_message E text s = Some (r, s')"
  let ?m = "act_bind (act_lift (parse_json (ce_json E) text)) (dispatch_message E)"
  obtain r1 where "?m s = Some (r1, s')"
    using p unfolding process_server_message_def
    by (auto split: option.splits sum.splits exn.splits prod.splits)
  moreover have "keeps I ?m" by (intro keeps_bind keeps_basic assms)
  ultimately show "I s'" using keepsD [of I ?m s r1 s'] I by simp
qed

lemma keeps_dispatch: "keeps (queue_is q w) (dispatch_message E message)"
  unfolding dispatch_message_def handle_chunk_acknowledgment_def handle_incoming_file_def
    handle_incoming_file_chunk_def handle_receive_user_public_keys_def handle_receive_aes_key_def Let_def
  by (intro keeps_intros keeps_async_write keeps_modify) (auto simp: queue_is_def)

lemma keeps_read: "keeps (queue_is q w) (handle_async_read E err text)"
  unfolding handle_async_read_def async_read_def
  by (intro keeps_intros keeps_process keeps_dispatch keeps_modify) (auto simp: queue_is_def)

text \<open>What a step does to the queue and to the write under way.\<close>

lemma step_queue:
  assumes "client_step E s ev s'"
  shows "case ev of
      Ran m \<Rightarrow> cl_write_queue s' = cl_write_queue s @ [m @ delimiter] \<and>
        cl_writing s' = (if cl_write_queue s = [] then Some (m @ delimiter) else cl_writing s)
    | Written t \<Rightarrow> cl_writing s = Some t \<and> cl_write_queue s' = tl (cl_write_queue s) \<and>
        cl_writing s' = (case tl (cl_write_queue s) of [] \<Rightarrow> None | t' # _ \<Rightarrow> Some t')
    | Failed t \<Rightarrow> cl_writing s = Some t \<and> cl_write_queue s' = cl_write_queue s \<and> cl_writing s' = None
    | _ \<Rightarrow> cl_write_queue s' = cl_write_queue s \<and> cl_writing s' = cl_writing s"
  using assms
proof cases
  case (step_call m r)
  then show ?thesis
    using keepsD [OF keeps_async_write [of "cl_write_queue s" "cl_writing s"], of E m s r s']
    by (simp add: queue_is_def)
next
  case (step_read t err w)
  then show ?thesis
    using keepsD [OF keeps_read [of "cl_write_queue s" "cl_writing s"], of E err t "s\<lparr>cl_net := w\<rparr>" "Inr ()" s']
    by (simp add: queue_is_def split: option.splits)
qed (auto simp: posted_write_def do_write_def handle_async_write_def Let_def split: list.splits)

text \<open>The queue in a run: without a failure the write under way is the head of the queue.\<close>

definition queue_ok :: "io_event list \<Rightarrow> 'w client \<Rightarrow> bool" where
  "queue_ok tr s \<longleftrightarrow>
     written tr @ cl_write_queue s = queued tr \<and>
     (if list_ex failure tr then cl_writing s = None \<and> cl_write_queue s \<noteq> []
      else cl_writing s = (case cl_write_queue s of [] \<Rightarrow> None | t # _ \<Rightarrow> Some t))"

lemma run_queue_ok:
  assumes "client_run E s0 tr s" "cl_write_queue s0 = []" "cl_writing s0 = None"
  shows "queue_ok tr s"
  using assms(1)
proof induction
  case run_start
  then show ?case using assms(2,3) by (simp add: queue_ok_def)
next
  case (run_step tr s ev s')
  have "queue_ok (tr @ [ev]) s'"
    using run_step.IH step_queue [OF run_step.hyps(2)]
    by (cases ev; cases "cl_write_queue s") (auto simp: queue_ok_def failure_def split: list.splits if_splits)
  then show ?case .
qed



section \<open>An example\<close>

text \<open>
  A socket over the texts that were sent and the texts to come; writing the empty message fails. The
  client uses it with the example libraries.
\<close>

definition mailbox_socket :: "(string list \<times> string list) client_socket" where
  "mailbox_socket = \<lparr>cs_connect = (\<lambda>_ _ w. (Inr (), w)),
     cs_write = (\<lambda>t (out, inp). if t = delimiter then (Inl (Library_error ''broken pipe''), (out, inp))
       else (Inr (), (out @ [t], inp))),
     cs_read_until = (\<lambda>(out, inp). case inp of [] \<Rightarrow> (([], Some Eof), (out, [])) | t # ts \<Rightarrow> ((t, None), (out, ts))),
     cs_is_open = (\<lambda>_. True)\<rparr>"

definition free_socket :: "string list client_socket" where
  "free_socket = \<lparr>cs_connect = (\<lambda>_ _ w. (Inr (), w)), cs_write = (\<lambda>t w. (Inr (), w @ [t])),
     cs_read_until = (\<lambda>w. (([], Some Eof), w)), cs_is_open = (\<lambda>_. True)\<rparr>"

definition example_env :: "'w client_socket \<Rightarrow> (jval, 'w) client_env" where
  "example_env S = \<lparr>ce_json = example_json, ce_hex = small_hex, ce_entropy = constant_entropy,
     ce_pick = (\<lambda>seed i. i mod 62), ce_socket = S,
     ce_io = \<lparr>ci_is_directory = (\<lambda>_. False), ci_make_directories = (\<lambda>_. Inr True),
       ci_can_read = (\<lambda>_. True), ci_can_create = (\<lambda>_. True)\<rparr>,
     ce_source_dir = ''home'', ce_dump_indented = dump_json example_json, ce_read_json = parse_json example_json,
     ce_meanwhile = (\<lambda>s. s\<lparr>cl_chunk_acknowledged := True\<rparr>)\<rparr>"

definition example_client :: "'w \<Rightarrow> string list \<Rightarrow> 'w client" where
  "example_client w posted = \<lparr>cl_net = w, cl_input = [], cl_disk = Map.empty, cl_draws = 0,
     cl_server_address = ''localhost'', cl_server_port = 55555,
     cl_user = \<lparr>user_id = 5, nickname = ''ann'', password = ''pw'', registered_timestamp = 0,
       last_online_timestamp = 0, online = False\<rparr>,
     cl_authorized = True, cl_user_files_dir = ''files'', cl_incoming = Map.empty,
     cl_hybrid = example_hybrid, cl_keys = [], cl_chunk_acknowledged = False,
     cl_posted = posted, cl_write_queue = [], cl_writing = None, cl_reading = False\<rparr>"

lemmas queue_defs = posted_write_def do_write_def handle_async_write_def Let_def

text \<open>Two messages were posted; the second handler runs first.\<close>

lemma example_run:
  "\<exists>s. client_run (example_env free_socket) (example_client [] [''a'', ''b''])
      [Ran ''b'', Ran ''a'', Written (''b'' @ delimiter)] s \<and>
    cl_write_queue s = [''a'' @ delimiter] \<and> cl_writing s = Some (''a'' @ delimiter) \<and> cl_posted s = []"
proof -
  define s0 where "s0 = example_client ([] :: string list) [''a'', ''b'']"
  define s1 where "s1 = posted_write ''b'' (s0\<lparr>cl_posted := [''a''] @ []\<rparr>)"
  define s2 where "s2 = posted_write ''a'' (s1\<lparr>cl_posted := [] @ []\<rparr>)"
  define s3 where "s3 = handle_async_write False (s2\<lparr>cl_net := [''b'' @ delimiter]\<rparr>)"
  have f0: "cl_posted s0 = [''a'', ''b'']" "cl_write_queue s0 = []" "cl_net s0 = []"
    by (simp_all add: s0_def example_client_def)
  have f1: "cl_posted s1 = [''a'']" "cl_write_queue s1 = [''b'' @ delimiter]" "cl_writing s1 = Some (''b'' @ delimiter)"
      "cl_net s1 = []"
    by (simp_all add: s1_def queue_defs f0)
  have f2: "cl_posted s2 = []" "cl_write_queue s2 = [''b'' @ delimiter, ''a'' @ delimiter]"
      "cl_writing s2 = Some (''b'' @ delimiter)" "cl_net s2 = []"
    by (simp_all add: s2_def queue_defs f1)
  have f3: "cl_write_queue s3 = [''a'' @ delimiter]" "cl_writing s3 = Some (''a'' @ delimiter)" "cl_posted s3 = []"
    by (simp_all add: s3_def queue_defs f2)
  let ?E = "example_env free_socket"
  have st1: "client_step ?E s0 (Ran ''b'') s1"
    unfolding s1_def by (rule client_step.step_posted) (simp add: f0)
  have st2: "client_step ?E s1 (Ran ''a'') s2"
    unfolding s2_def by (rule client_step.step_posted) (simp add: f1)
  have st3: "client_step ?E s2 (Written (''b'' @ delimiter)) s3"
    unfolding s3_def
    by (rule client_step.step_written [OF f2(3)]) (simp add: f2 example_env_def free_socket_def)
  have "client_run ?E s0 ((([] @ [Ran ''b'']) @ [Ran ''a'']) @ [Written (''b'' @ delimiter)]) s3"
    by (rule run_step [OF run_step [OF run_step [OF run_start st1] st2] st3])
  then show ?thesis using f3 unfolding s0_def by (intro exI [of _ s3]) simp
qed

section \<open>Properties\<close>

text \<open>
  C16: Messages go out in the order in which the posted handlers ran, each one once and with its
  delimiter: what was written, followed by what is still queued, is what the handlers queued. As
  long as no write failed, the head of the queue is being written, so nothing waits without a write
  under way.
\<close>

theorem write_queue_fifo:
  assumes "client_run E s0 tr s" "cl_write_queue s0 = []" "cl_writing s0 = None"
  shows "written tr @ cl_write_queue s = queued tr \<and>
    (\<not> list_ex failure tr \<longrightarrow> cl_writing s = (case cl_write_queue s of [] \<Rightarrow> None | t # _ \<Rightarrow> Some t))"
  using run_queue_ok [OF assms] by (simp add: queue_ok_def)

theorem write_queue_fifo_witness:
  "\<exists>s. client_run (example_env free_socket) (example_client [] [''a'', ''b''])
      [Ran ''b'', Ran ''a'', Written (''b'' @ delimiter)] s \<and>
    [''b'' @ delimiter] @ cl_write_queue s = [''b'' @ delimiter, ''a'' @ delimiter] \<and>
    cl_writing s = Some (''a'' @ delimiter)"
proof -
  obtain s where run: "client_run (example_env free_socket) (example_client [] [''a'', ''b''])
      [Ran ''b'', Ran ''a'', Written (''b'' @ delimiter)] s" "cl_write_queue s = [''a'' @ delimiter]"
    using example_run by blast
  from write_queue_fifo [OF run(1)] show ?thesis
    by (intro exI [of _ s]) (use run in \<open>simp add: example_client_def failure_def\<close>)
qed

lemma failed_step: "client_step E s ev s' \<Longrightarrow> cl_writing s = None \<Longrightarrow> written [ev] = [] \<and> \<not> failure ev"
  using step_queue [of E s ev s'] by (cases ev) (auto simp: failure_def)

text \<open>
  C17: After a failed asynchronous write no queued message is ever written again: the text that failed
  stays at the head of the queue, no write is under way, and every message posted later is queued
  behind it. Only what is posted goes through the queue: the request for the keys of a user (menu
  action 1, \<open>client.cpp:370\<close>) is written synchronously past it, and is not counted here.
\<close>

theorem failed_write_blocks:
  assumes "client_run E s0 (a @ Failed t # b) s" "cl_write_queue s0 = []" "cl_writing s0 = None"
  shows "written b = [] \<and> \<not> list_ex failure b \<and> cl_writing s = None \<and>
    (\<exists>rest. cl_write_queue s = t # rest @ queued b)"
proof -
  have "\<forall>b. tr = a @ Failed t # b \<longrightarrow>
      written b = [] \<and> \<not> list_ex failure b \<and> (\<exists>rest. cl_write_queue s = t # rest @ queued b)"
    if "client_run E s0 tr s" for tr s
    using that
  proof induction
    case (run_step tr s ev s')
    have ok: "queue_ok tr s" by (rule run_queue_ok [OF run_step.hyps(1) assms(2,3)])
    show ?case
    proof (intro allI impI)
      fix b assume eq: "tr @ [ev] = a @ Failed t # b"
      show "written b = [] \<and> \<not> list_ex failure b \<and> (\<exists>rest. cl_write_queue s' = t # rest @ queued b)"
      proof (cases b rule: rev_cases)
        case Nil
        then have ev: "ev = Failed t" using eq by simp
        then have "cl_writing s = Some t" "cl_write_queue s' = cl_write_queue s"
          using step_queue [OF run_step.hyps(2)] by simp_all
        then show ?thesis using ok Nil by (auto simp: queue_ok_def split: if_splits list.splits)
      next
        case (snoc b' x)
        then have tr: "tr = a @ Failed t # b'" "x = ev" using eq by simp_all
        then have old: "written b' = []" "\<not> list_ex failure b'" "\<exists>rest. cl_write_queue s = t # rest @ queued b'"
          using run_step.IH by blast+
        have "cl_writing s = None" using ok tr(1) by (simp add: queue_ok_def failure_def)
        then have "written [ev] = []" "\<not> failure ev" using failed_step [OF run_step.hyps(2)] by auto
        then show ?thesis using old step_queue [OF run_step.hyps(2)] tr(2) snoc
          by (cases ev) (auto simp: failure_def)
      qed
    qed
  qed simp
  moreover have "queue_ok (a @ Failed t # b) s" by (rule run_queue_ok [OF assms])
  ultimately show ?thesis using assms(1) by (simp add: queue_ok_def failure_def)
qed

theorem failed_write_blocks_witness:
  "\<exists>s. client_run (example_env mailbox_socket) (example_client ([], []) [[], ''b''])
      ([Ran []] @ Failed delimiter # [Ran ''b'']) s \<and>
    cl_writing s = None \<and> (\<exists>rest. cl_write_queue s = delimiter # rest @ [''b'' @ delimiter])"
proof -
  define s0 where "s0 = example_client ([] :: string list, [] :: string list) [[], ''b'']"
  define s1 where "s1 = posted_write [] (s0\<lparr>cl_posted := [] @ [''b'']\<rparr>)"
  define s2 where "s2 = handle_async_write True (s1\<lparr>cl_net := ([], [])\<rparr>)"
  define s3 where "s3 = posted_write ''b'' (s2\<lparr>cl_posted := [] @ []\<rparr>)"
  let ?E = "example_env mailbox_socket"
  have f0: "cl_posted s0 = [[], ''b'']" "cl_write_queue s0 = []" "cl_net s0 = ([], [])" "cl_writing s0 = None"
    by (simp_all add: s0_def example_client_def)
  have f1: "cl_posted s1 = [''b'']" "cl_write_queue s1 = [delimiter]" "cl_writing s1 = Some delimiter" "cl_net s1 = ([], [])"
    by (simp_all add: s1_def queue_defs f0)
  have f2: "cl_posted s2 = [''b'']" by (simp add: s2_def queue_defs f1)
  have st1: "client_step ?E s0 (Ran []) s1"
    unfolding s1_def by (rule client_step.step_posted) (simp add: f0)
  have st2: "client_step ?E s1 (Failed delimiter) s2"
    unfolding s2_def
    by (rule client_step.step_failed [OF f1(3)]) (simp add: f1 example_env_def mailbox_socket_def)
  have st3: "client_step ?E s2 (Ran ''b'') s3"
    unfolding s3_def by (rule client_step.step_posted) (simp add: f2)
  have "client_run ?E s0 ((([] @ [Ran []]) @ [Failed delimiter]) @ [Ran ''b'']) s3"
    by (rule run_step [OF run_step [OF run_step [OF run_start st1] st2] st3])
  then have run: "client_run ?E s0 ([Ran []] @ Failed delimiter # [Ran ''b'']) s3" by simp
  from failed_write_blocks [OF run f0(2,4)] run show ?thesis
    unfolding s0_def by (intro exI [of _ s3]) simp
qed

text \<open>
  When no write has failed and writes keep succeeding, everything that was ever posted can still
  be written: some continuation empties both the posted handlers and the queue.
\<close>

theorem queue_drains:
  assumes "client_run E s0 tr s" "cl_write_queue s0 = []" "cl_writing s0 = None" "\<not> list_ex failure tr"
    and "\<And>t w. \<exists>w'. cs_write (ce_socket E) t w = (Inr (), w')"
  shows "\<exists>tr' s'. client_run E s0 (tr @ tr') s' \<and> cl_posted s' = [] \<and> cl_write_queue s' = [] \<and>
    \<not> list_ex failure tr' \<and> written (tr @ tr') = queued tr @ map (\<lambda>m. m @ delimiter) (cl_posted s)"
  using assms(1,4)
proof (induction "2 * length (cl_posted s) + length (cl_write_queue s)" arbitrary: tr s rule: less_induct)
  case less
  have ok: "queue_ok tr s" by (rule run_queue_ok [OF less.prems(1) assms(2,3)])
  show ?case
  proof (cases "cl_posted s")
    case (Cons m ms)
    let ?s = "posted_write m (s\<lparr>cl_posted := ms\<rparr>)"
    have step: "client_step E s (Ran m) ?s" using client_step.step_posted [of s "[]" m ms] Cons by simp
    then have run: "client_run E s0 (tr @ [Ran m]) ?s" by (rule run_step [OF less.prems(1)])
    have s: "cl_posted ?s = ms" "cl_write_queue ?s = cl_write_queue s @ [m @ delimiter]"
      by (simp_all add: posted_write_def do_write_def Let_def split: list.splits)
    have small: "2 * length (cl_posted ?s) + length (cl_write_queue ?s) <
        2 * length (cl_posted s) + length (cl_write_queue s)"
      by (simp add: s Cons)
    have "\<not> list_ex failure (tr @ [Ran m])" using less.prems(2) by (simp add: failure_def)
    from less.hyps [OF small run this] obtain tr' s' where
      "client_run E s0 ((tr @ [Ran m]) @ tr') s'" "cl_posted s' = []" "cl_write_queue s' = []"
      "\<not> list_ex failure tr'"
      "written ((tr @ [Ran m]) @ tr') = queued (tr @ [Ran m]) @ map (\<lambda>m. m @ delimiter) (cl_posted ?s)"
      by blast
    then show ?thesis
      by (intro exI [of _ "Ran m # tr'"] exI [of _ s']) (simp add: s(1) Cons failure_def)
  next
    case Nil
    show ?thesis
    proof (cases "cl_write_queue s")
      case Nil': Nil
      then show ?thesis using less.prems Nil ok
        by (intro exI [of _ "[]"] exI [of _ s]) (simp add: queue_ok_def)
    next
      case (Cons t ts)
      then have w: "cl_writing s = Some t" using ok less.prems(2) by (simp add: queue_ok_def)
      obtain w' where "cs_write (ce_socket E) t (cl_net s) = (Inr (), w')" using assms(5) by blast
      then have step: "client_step E s (Written t) (handle_async_write False (s\<lparr>cl_net := w'\<rparr>))"
        by (rule client_step.step_written [OF w])
      let ?s = "handle_async_write False (s\<lparr>cl_net := w'\<rparr>)"
      have run: "client_run E s0 (tr @ [Written t]) ?s" by (rule run_step [OF less.prems(1) step])
      have s: "cl_posted ?s = []" "cl_write_queue ?s = ts"
        using Nil Cons by (simp_all add: handle_async_write_def do_write_def split: list.splits)
      have small: "2 * length (cl_posted ?s) + length (cl_write_queue ?s) <
          2 * length (cl_posted s) + length (cl_write_queue s)"
        by (simp add: s Cons)
      have "\<not> list_ex failure (tr @ [Written t])" using less.prems(2) by (simp add: failure_def)
      from less.hyps [OF small run this] obtain tr' s' where
        "client_run E s0 ((tr @ [Written t]) @ tr') s'" "cl_posted s' = []" "cl_write_queue s' = []"
        "\<not> list_ex failure tr'"
        "written ((tr @ [Written t]) @ tr') = queued (tr @ [Written t]) @ map (\<lambda>m. m @ delimiter) (cl_posted ?s)"
        by blast
      then show ?thesis
        by (intro exI [of _ "Written t # tr'"] exI [of _ s']) (simp add: s(1) Nil failure_def)
    qed
  qed
qed

theorem queue_drains_witness:
  "\<exists>s tr' s'. client_run (example_env free_socket) (example_client [] [''a'', ''b'']) 
      ([Ran ''b'', Ran ''a'', Written (''b'' @ delimiter)] @ tr') s' \<and>
    cl_posted s' = [] \<and> cl_write_queue s' = [] \<and>
    written ([Ran ''b'', Ran ''a'', Written (''b'' @ delimiter)] @ tr') = [''b'' @ delimiter, ''a'' @ delimiter]"
proof -
  obtain s where run: "client_run (example_env free_socket) (example_client [] [''a'', ''b''])
      [Ran ''b'', Ran ''a'', Written (''b'' @ delimiter)] s" "cl_posted s = []"
    using example_run by blast
  have "\<exists>w'. cs_write (ce_socket (example_env free_socket)) t w = (Inr (), w')" for t w
    by (simp add: example_env_def free_socket_def)
  from queue_drains [OF run(1) _ _ _ this] run(2) show ?thesis
    by (auto simp: example_client_def failure_def)
qed

end
