(* ===== verification/Client_Session.thy ===== *)
theory Client_Session
  imports Client_Async
begin

text \<open>
  A session of \<open>client/src/client.cpp\<close> with its user: the loops that register and authorize, the loop of
  actions, the user data that outlives the process, and the names under which files are shared.
\<close>

section \<open>Input is only consumed\<close>

definition input_within :: "nat \<Rightarrow> 'w client \<Rightarrow> bool" where
  "input_within n s \<longleftrightarrow> length (cl_input s) \<le> n"

lemma get_line_input: "keeps (input_within n) get_line"
  by (auto simp: keeps_def get_line_def input_within_def split: list.splits)

lemma save_input: "keeps (input_within n) (save_user E)"
  by (auto simp: keeps_def save_user_def save_user_data_to_json_def input_within_def Let_def split: if_splits sum.splits)

lemma send_json_input: "keeps (input_within n) (send_json E j)"
  unfolding send_json_def send_message_def blocking_write_def
  by (intro keeps_intros keeps_on) (simp add: input_within_def)

lemma receive_input: "keeps (input_within n) (receive_response E)"
  unfolding receive_response_def by (intro keeps_on) (simp add: input_within_def)

lemma register_user_input: "keeps (input_within n) (register_user E)"
  unfolding register_user_def registered_def
  by (intro keeps_intros get_line_input send_json_input receive_input save_input keeps_modify)
    (simp_all add: input_within_def)

lemma authorize_user_input: "keeps (input_within n) (client_authorize_user E)"
  unfolding client_authorize_user_def
  by (intro keeps_intros get_line_input send_json_input receive_input save_input keeps_modify)
    (simp_all add: input_within_def)

lemma get_line_returns: "returns get_line"
  by (auto simp: returns_def get_line_def split: list.splits)

lemma save_returns: "returns (save_user E)"
  by (auto simp: returns_def save_user_def save_user_data_to_json_def Let_def split: sum.splits)

lemma exchange_returns: "returns (send_json E j)" "returns (receive_response E)"
  unfolding send_json_def send_message_def blocking_write_def receive_response_def by (intro returns_intros)+

lemma register_user_returns: "returns (register_user E)"
  unfolding register_user_def registered_def
  by (intro returns_intros get_line_returns exchange_returns save_returns)

lemma authorize_user_returns: "returns (client_authorize_user E)"
  unfolding client_authorize_user_def
  by (intro returns_intros get_line_returns exchange_returns save_returns)

text \<open>Each further attempt costs an answer, and the end of the input is not a yes.\<close>

lemma ask_until_returns:
  assumes "returns ask_once" "\<And>n. keeps (input_within n) ask_once"
  shows "\<exists>r s'. ask_until ask_once good s = Some (r, s') \<and> (r = Inr True \<longrightarrow> good s')"
proof (induction "length (cl_input s)" arbitrary: s rule: less_induct)
  case less
  show ?case
  proof (cases "good s")
    case True
    then show ?thesis by (subst ask_until.simps) simp
  next
    case False
    obtain r s1 where one: "ask_once s = Some (r, s1)" using assms(1) by (fastforce simp: returns_def)
    have shorter: "length (cl_input s1) \<le> length (cl_input s)"
      using keepsD [OF assms(2) [of "length (cl_input s)"] one] by (simp add: input_within_def)
    show ?thesis
    proof (cases r)
      case (Inl e)
      then show ?thesis using False one by (subst ask_until.simps) simp
    next
      case (Inr u)
      show ?thesis
      proof (cases "good s1 \<or> cl_input s1 = []")
        case True
        then show ?thesis using False one Inr by (subst ask_until.simps) (auto simp: get_line_def)
      next
        case more: False
        then obtain l ls where in_s1: "cl_input s1 = l # ls" by (cases "cl_input s1") auto
        let ?s2 = "s1\<lparr>cl_input := ls\<rparr>"
        have "length (cl_input ?s2) < length (cl_input s)" using shorter in_s1 by simp
        from less.hyps [OF this] show ?thesis
          using False one Inr more in_s1 by (subst ask_until.simps) (auto simp: get_line_def)
      qed
    qed
  qed
qed

section \<open>Actions\<close>

lemma read_action_stuck: "cl_input s = [] \<Longrightarrow> read_action s = None"
proof (rule ccontr)
  assume stuck: "cl_input s = []" and "read_action s \<noteq> None"
  then obtain r where ret: "read_action s = Some r" by blast
  have "cl_input s \<noteq> []"
  proof (rule read_action.raw_induct [where P = "\<lambda>s r. cl_input s \<noteq> []", OF _ ret])
    fix loop :: "'a client \<Rightarrow> ((exn + int) \<times> 'a client) option" and s :: "'a client" and r
    assume IH: "\<And>s r. loop s = Some r \<Longrightarrow> cl_input s \<noteq> []"
      and run: "(case get_line s of None \<Rightarrow> None
        | Some (line, s') \<Rightarrow> (case rbind line action_number of Inl e \<Rightarrow> Some (Inl e, s')
          | Inr a \<Rightarrow> if 0 \<le> a \<and> a < 6 then Some (Inr a, s') else loop s')) = Some r"
    show "cl_input s \<noteq> []"
    proof
      assume "cl_input s = []"
      then have "loop s = Some r" using run by (simp add: get_line_def action_number_def stoi_def)
      then show False using IH \<open>cl_input s = []\<close> by blast
    qed
  qed
  then show False using stuck by contradiction
qed

text \<open>A number out of the range of \<open>int\<close> is not caught where it is read: it leaves the menu.\<close>

lemma large_number_leaves:
  assumes "cl_input s = ''99999999999'' # ls"
  shows "handle_user_interaction E s = Some (Inl (Out_of_range ''stoi''), s\<lparr>cl_input := ls\<rparr>)"
proof -
  have "action_number ''99999999999'' = Inl (Out_of_range ''stoi'')"
    by (simp add: action_number_def stoi_def space_char_def digit_def Let_def)
  then have "read_action s = Some (Inl (Out_of_range ''stoi''), s\<lparr>cl_input := ls\<rparr>)"
    using assms by (subst read_action.simps) (simp add: get_line_def rbind_def)
  then show ?thesis by (subst handle_user_interaction.simps) simp
qed

section \<open>Properties\<close>

text \<open>
  C22: The loops that register and authorize always return, whatever the server answers, and report
  success only for a client that is registered, or authorized. The loop of actions does not return
  once the input has ended: it goes on asking for a number.
\<close>

theorem login_loops_return:
  "(\<exists>r s'. ask_until (register_user E) is_registered s = Some (r, s') \<and> (r = Inr True \<longrightarrow> is_registered s')) \<and>
   (\<exists>r s'. ask_until (client_authorize_user E) cl_authorized s = Some (r, s') \<and> (r = Inr True \<longrightarrow> cl_authorized s')) \<and>
   handle_user_interaction E (s\<lparr>cl_input := []\<rparr>) = None"
proof (intro conjI)
  show "handle_user_interaction E (s\<lparr>cl_input := []\<rparr>) = None"
    by (subst handle_user_interaction.simps) (simp add: read_action_stuck)
qed (rule ask_until_returns [OF register_user_returns register_user_input],
     rule ask_until_returns [OF authorize_user_returns authorize_user_input])

theorem login_loops_return_witness:
  "ask_until (register_user (example_env free_socket)) is_registered (example_client [] []) \<noteq> None \<and>
   ask_until (client_authorize_user (example_env free_socket)) cl_authorized (example_client [] []) \<noteq> None \<and>
   handle_user_interaction (example_env free_socket) ((example_client [] [])\<lparr>cl_input := []\<rparr>) = None"
  using login_loops_return [of "example_env free_socket" "example_client [] []"] by blast


text \<open>
  C23: What a client saved about its user is loaded by the next client with the same name and server:
  the user comes back with id, name, password and flag, and without its time stamps, and counts as
  registered.
\<close>

theorem user_data_survives:
  assumes "json_laws (ce_json E)" "ce_dump_indented E (user_to_json (ce_json E) (cl_user s)) = Inr saved"
    and "ce_read_json E saved = Inr (user_to_json (ce_json E) (cl_user s))"
    and "user_id (cl_user s) \<noteq> 0"
    and "ci_make_directories (ce_io E) (path_parent (get_user_data_filename E s)) = Inr True"
    and "ci_can_create (ce_io E) (get_user_data_filename E s)" "ci_can_read (ce_io E) (get_user_data_filename E s)"
    and "ci_make_directories (ce_io E) (ce_source_dir E @ ''/client/user_files/'' @ nickname (cl_user s)) = Inr made"
    and "hybrid_new (ce_hex E) (ce_entropy E) k = ret (h, k')"
  shows "\<exists>s1 s2. save_user E s = Some (Inr (), s1) \<and>
    client_new E b (cl_server_address s) (cl_server_port s) (nickname (cl_user s)) w ls (cl_disk s1) k = ret s2 \<and>
    get_user s2 = (cl_user s)\<lparr>registered_timestamp := 0, last_online_timestamp := 0\<rparr> \<and> is_registered s2 \<and> \<not> cl_authorized s2"
proof -
  let ?u = "cl_user s" and ?f = "get_user_data_filename E s"
  let ?s1 = "s\<lparr>cl_disk := (cl_disk s)(?f \<mapsto> saved)\<rparr>"
  have f: "?f = user_data_filename E (nickname ?u) (cl_server_address s) (cl_server_port s)"
    by (simp add: get_user_data_filename_def user_get_nickname_def)
  have save: "save_user E s = Some (Inr (), ?s1)"
    using assms(2,5,6) by (simp add: save_user_def save_user_data_to_json_def Let_def)
  have "user_from_json (ce_json E) (user_to_json (ce_json E) ?u) =
      Inr (?u\<lparr>registered_timestamp := 0, last_online_timestamp := 0\<rparr>)"
    using assms(1)
    by (simp add: user_from_json_def user_to_json_def read_int_def read_string_def read_bool_def json_simps)
  then have load: "load_user_data_from_json E b (cl_disk ?s1) ?f =
      Inr (?u\<lparr>registered_timestamp := 0, last_online_timestamp := 0\<rparr>)"
    using assms(3,7) by (simp add: load_user_data_from_json_def open_read_def)
  then obtain s2 where "client_new E b (cl_server_address s) (cl_server_port s) (nickname ?u) w ls (cl_disk ?s1) k = ret s2"
    "cl_user s2 = ?u\<lparr>registered_timestamp := 0, last_online_timestamp := 0\<rparr>" "\<not> cl_authorized s2"
    using assms(4,8,9) unfolding f by (simp add: client_new_def Let_def user_get_id_def)
  then show ?thesis using save assms(4)
    by (intro exI [of _ ?s1] exI [of _ s2]) (simp add: get_user_def is_registered_def user_get_id_def)
qed

theorem user_data_survives_witness:
  "\<exists>s1 s2. save_user (example_env free_socket) (example_client [] []) = Some (Inr (), s1) \<and>
    client_new (example_env free_socket) True ''localhost'' 55555 ''ann'' [] [] (cl_disk s1) 0 = ret s2 \<and>
    user_id (get_user s2) = 5 \<and> is_registered s2"
proof -
  let ?E = "example_env free_socket"
  define s where "s = example_client ([] :: string list) []"
  have s: "cl_user s = \<lparr>user_id = 5, nickname = ''ann'', password = ''pw'', registered_timestamp = 0,
      last_online_timestamp = 0, online = False\<rparr>" "cl_server_address s = ''localhost''" "cl_server_port s = 55555"
    by (simp_all add: s_def example_client_def)
  have E: "ce_json ?E = example_json" "ce_dump_indented ?E = dump_json example_json" "ce_read_json ?E = parse_json example_json"
    "ci_make_directories (ce_io ?E) p = Inr True" "ci_can_create (ce_io ?E) p" "ci_can_read (ce_io ?E) p"
    "ce_hex ?E = small_hex" "ce_entropy ?E = constant_entropy" for p
    by (simp_all add: example_env_def)
  have "plain example_json (user_to_json example_json (cl_user s))"
    unfolding user_to_json_def s by (intro plain_field plain_start plain_value.intros example_json_laws) simp_all
  then obtain saved where dump: "dump_json example_json (user_to_json example_json (cl_user s)) = Inr saved"
    using dump_plain [OF example_dump_laws] by blast
  then have parse: "parse_json example_json saved = Inr (user_to_json example_json (cl_user s))"
    by (rule json_parse_dump [OF example_json_laws])
  have "user_id (cl_user s) \<noteq> 0" by (simp add: s)
  from user_data_survives [of ?E s saved True 0 example_hybrid 2 True "[]" "[]", unfolded E, OF example_json_laws dump parse this
      refl E(5,6) refl example_hybrid_new] show ?thesis
    unfolding s_def [symmetric] by (auto simp: s)
qed

section \<open>Shared files\<close>

lemma random_string_chars:
  assumes "\<And>seed i. ce_pick E seed i < 62"
  shows "\<exists>name s'. generate_random_string E n s = Some (Inr name, s') \<and> length name = n \<and> set name \<subseteq> set alphabet"
proof -
  have "set client_alphabet = set alphabet" "length client_alphabet = 62"
    by (simp_all add: client_alphabet_def alphabet_def)
  then show ?thesis using assms by (auto simp: generate_random_string_def intro: nth_mem)
qed


lemma path_extension_ok: "extension (path_extension p)"
  using path_stem_split [of p] by (auto simp: path_extension_def)

text \<open>
  A file is shared under a name that the file server accepts, with the extension of the original:
  its content is copied into the directory of the user, unless a file of that name is there already;
  an existing file is never overwritten.
\<close>

theorem shared_file_accepted:
  assumes "\<And>seed i. ce_pick E seed i < 62" "cl_input s = p # ls" "cl_disk s p = Some content"
    and "ci_can_read (ce_io E) p" "\<And>q. ci_can_create (ce_io E) q" "\<And>q. \<not> ci_is_directory (ce_io E) q"
  shows "\<exists>name s'. share_file_action E s = Some (Inr (), s') \<and> is_valid_filename name \<and>
    path_extension name = path_extension p \<and>
    (let target = path_append (cl_user_files_dir s) name in
     cl_disk s' = (if cl_disk s target = None then (cl_disk s)(target \<mapsto> content) else cl_disk s))"
proof -
  let ?s = "s\<lparr>cl_input := ls\<rparr>"
  obtain name s1 where name: "generate_random_string E client_filename_len ?s = Some (Inr name, s1)"
    "length name = 16" "set name \<subseteq> set alphabet"
    using random_string_chars [of E client_filename_len ?s] assms(1) by (auto simp: client_filename_len_def)
  then have s1: "s1 = ?s\<lparr>cl_draws := cl_draws ?s + 1\<rparr>" by (auto simp: generate_random_string_def)
  let ?name = "name @ path_extension p"
  have valid: "is_valid_filename ?name"
    unfolding valid_filename_shape using name(2,3) path_extension_ok [of p] by (intro exI [of _ "[]"] exI [of _ name] exI [of _ "path_extension p"]) simp
  have stem: "path_stem ?name = name" and whole: "path_filename ?name = ?name"
    using valid_name_parts [where dir = "[]" and f = ?name, OF name(2,3) path_extension_ok [of p]] by simp_all
  have "path_extension ?name = path_extension p"
    unfolding path_extension_def [of ?name] stem whole by simp
  then show ?thesis
    using assms(2-6) name(1) s1 valid
    by (intro exI [of _ ?name])
      (auto simp: share_file_action_def act_run get_line_def path_exists_def Let_def)
qed

theorem shared_file_accepted_witness:
  "\<exists>name s'. share_file_action (example_env free_socket)
      ((example_client [] [])\<lparr>cl_input := [''report.pdf''], cl_disk := [''report.pdf'' \<mapsto> ''abc'']\<rparr>) = Some (Inr (), s') \<and>
    is_valid_filename name \<and> cl_disk s' (path_append ''files'' name) = Some ''abc''"
proof -
  let ?s = "(example_client ([] :: string list) [])\<lparr>cl_input := [''report.pdf''], cl_disk := [''report.pdf'' \<mapsto> ''abc'']\<rparr>"
  have s: "cl_input ?s = [''report.pdf'']" "cl_disk ?s ''report.pdf'' = Some ''abc''" "cl_user_files_dir ?s = ''files''"
    by (simp_all add: example_client_def)
  have other: "path_append ''files'' q \<noteq> ''report.pdf''" if "is_valid_filename q" for q
    using that by (auto simp: path_append_def slash_def is_valid_filename_def path_stem_def path_filename_def
        filename_len_def Let_def split: if_splits)
  from shared_file_accepted [of "example_env free_socket" ?s, OF _ s(1,2)] other show ?thesis
    by (simp add: example_env_def s(3) Let_def) (auto simp: example_client_def)
qed

end
