(* ===== verification/Client_Files.thy ===== *)
theory Client_Files
  imports Client_Async File_Transfer
begin

text \<open>
  A file at its two ends: what \<open>send_file_chunks\<close> of \<open>client/src/client.cpp\<close> sends for the content of
  a file, and what \<open>handle_incoming_file\<close> and \<open>handle_incoming_file_chunk\<close> make of the messages of the
  server.
\<close>

section \<open>The chunks of a file\<close>

definition file_bodies :: "string \<Rightarrow> string list" where
  "file_bodies content = takeWhile (\<lambda>b. b \<noteq> []) (read_chunks content)"

lemma file_bodies_rec:
  "file_bodies content = (if content = [] then [] else take 512 content # file_bodies (drop 512 content))"
proof (cases "length content < 512")
  case True
  then show ?thesis by (simp add: file_bodies_def read_chunks_unfold(1))
next
  case False
  then have "take 512 content \<noteq> []" "content \<noteq> []" by auto
  then show ?thesis using False by (simp add: file_bodies_def read_chunks_unfold(2) [of content])
qed

lemma file_bodies_Nil [simp]: "file_bodies [] = []"
  by (subst file_bodies_rec) simp

lemma file_bodies_concat [simp]: "concat (file_bodies content) = content"
  by (simp add: file_bodies_def read_chunks_nonempty)

text \<open>Every chunk but the last is full, and the last one is full when the size is a multiple of 512.\<close>

lemma file_bodies_sizes:
  "content \<noteq> [] \<Longrightarrow> \<exists>full z. file_bodies content = full @ [z] \<and> (\<forall>b \<in> set full. length b = 512) \<and>
     0 < length z \<and> length z \<le> 512 \<and> (length z < 512 \<longleftrightarrow> length content mod 512 \<noteq> 0)"
proof (induction "length content" arbitrary: content rule: less_induct)
  case less
  show ?case
  proof (cases "drop 512 content = []")
    case True
    then have "file_bodies content = [] @ [content]" "length content \<le> 512"
      using less.prems by (simp_all add: file_bodies_rec [of content])
    moreover have "length content < 512 \<longleftrightarrow> length content mod 512 \<noteq> 0"
      using less.prems calculation(2) by (cases "length content = 512") auto
    ultimately show ?thesis using less.prems by (intro exI [of _ "[]"] exI [of _ content]) simp
  next
    case False
    then have long: "512 < length content" by simp
    obtain full z where r: "file_bodies (drop 512 content) = full @ [z]" "\<forall>b \<in> set full. length b = 512"
      "0 < length z" "length z \<le> 512" "length z < 512 \<longleftrightarrow> length (drop 512 content) mod 512 \<noteq> 0"
      using less.hyps [of "drop 512 content"] less.prems False long by auto
    have "length (drop 512 content) mod 512 = length content mod 512"
      using long by (simp add: le_mod_geq)
    then show ?thesis using r long less.prems
      by (intro exI [of _ "take 512 content # full"] exI [of _ z]) (simp add: file_bodies_rec [of content])
  qed
qed

fun file_requests :: "'j json_ops \<Rightarrow> string \<Rightarrow> u64 \<Rightarrow> string list \<Rightarrow> 'j list" where
  "file_requests J filename n [] = []"
| "file_requests J filename n (b # bs) =
     chunk_request J filename b n (length b < 512) # file_requests J filename (n + 1) bs"

lemma file_requests_append:
  "file_requests J filename n (a @ b) = file_requests J filename n a @ file_requests J filename (n + of_nat (length a)) b"
  by (induction a arbitrary: n) (simp_all add: add.assoc)

lemma chunk_request_plain:
  "json_laws J \<Longrightarrow> ascii filename \<Longrightarrow> ascii chunk \<Longrightarrow> plain J (chunk_request J filename chunk n b)"
  unfolding chunk_request_def by (intro plain_field plain_start plain_value.intros) simp_all

section \<open>Sending\<close>

text \<open>The printed form; \<open>wire\<close> adds the delimiter.\<close>

definition printed :: "'j json_ops \<Rightarrow> 'j \<Rightarrow> string" where
  "printed J j = (case dump_json J j of Inr text \<Rightarrow> text | Inl _ \<Rightarrow> [])"

lemma printed_dump: "dump_laws J \<Longrightarrow> plain J j \<Longrightarrow> dump_json J j = Inr (printed J j)"
  using dump_plain by (fastforce simp: printed_def)

lemma wire_printed: "dump_laws J \<Longrightarrow> plain J j \<Longrightarrow> wire J j = printed J j @ delimiter"
  by (simp add: wire_def printed_dump)

text \<open>
  What the other threads do while the sender waits is arbitrary, apart from this: they keep the
  connection, and they keep the record \<open>log\<close> of what was handed to \<open>async_write\<close>.
\<close>

definition waits_ok :: "('j, 'w) client_env \<Rightarrow> ('w client \<Rightarrow> string list) \<Rightarrow> bool" where
  "waits_ok E log \<longleftrightarrow>
     (\<forall>s m. log (s\<lparr>cl_posted := cl_posted s @ [m]\<rparr>) = log s @ [m]) \<and>
     (\<forall>s b. log (s\<lparr>cl_chunk_acknowledged := b\<rparr>) = log s) \<and>
     (\<forall>s. log (ce_meanwhile E s) = log s) \<and>
     (\<forall>s. is_connected E s \<longrightarrow> is_connected E (ce_meanwhile E s))"

lemma await_run:
  assumes "waits_ok E log" "is_connected E s"
  shows "\<exists>b s'. await_acknowledgment E s = Some (Inr b, s') \<and> log s' = log s \<and> is_connected E s' \<and>
    ((\<forall>s. cl_chunk_acknowledged (ce_meanwhile E s)) \<longrightarrow> b)"
proof -
  define s1 where "s1 = (if cl_chunk_acknowledged s then s else ce_meanwhile E s)"
  have s1: "log s1 = log s" "is_connected E s1"
    using assms by (simp_all add: s1_def waits_ok_def)
  have "log (s1\<lparr>cl_chunk_acknowledged := False\<rparr>) = log s" "is_connected E (s1\<lparr>cl_chunk_acknowledged := False\<rparr>)"
    using assms(1) s1 by (simp_all add: waits_ok_def is_connected_def)
  moreover have "await_acknowledgment E s = (if cl_chunk_acknowledged s1
      then Some (Inr True, s1\<lparr>cl_chunk_acknowledged := False\<rparr>) else Some (Inr False, s1))"
    by (simp add: await_acknowledgment_def Let_def s1_def)
  moreover have "(\<forall>s. cl_chunk_acknowledged (ce_meanwhile E s)) \<Longrightarrow> cl_chunk_acknowledged s1"
    by (simp add: s1_def)
  ultimately show ?thesis using s1 by (cases "cl_chunk_acknowledged s1") auto
qed

text \<open>
  Stop and wait: \<open>waits\<close> are the states in which the sender waits, from \<open>s\<close> to \<open>s'\<close>. The first request
  is posted in \<open>s\<close>; the next one is posted in the state that the wait before leaves with an
  acknowledgement; the last wait ends in \<open>s'\<close>, without one when requests are left.
\<close>

definition post :: "'j json_ops \<Rightarrow> 'j \<Rightarrow> 'w client \<Rightarrow> 'w client" where
  "post J request s = s\<lparr>cl_posted := cl_posted s @ [printed J request]\<rparr>"

definition stop_and_wait ::
    "('j, 'w) client_env \<Rightarrow> 'j list \<Rightarrow> 'w client list \<Rightarrow> 'w client \<Rightarrow> 'w client \<Rightarrow> bool" where
  "stop_and_wait E requests waits s s' \<longleftrightarrow> length waits \<le> length requests \<and>
     (if waits = [] then requests = [] \<and> s' = s
      else waits ! 0 = post (ce_json E) (requests ! 0) s \<and>
        (\<forall>i. Suc i < length waits \<longrightarrow> (\<exists>c. await_acknowledgment E (waits ! i) = Some (Inr True, c) \<and>
          waits ! Suc i = post (ce_json E) (requests ! Suc i) c)) \<and>
        (\<exists>b. await_acknowledgment E (List.last waits) = Some (Inr b, s') \<and>
          (length waits < length requests \<longrightarrow> \<not> b)))"

lemma stop_and_wait_last:
  "await_acknowledgment E (post (ce_json E) r s) = Some (Inr b, s') \<Longrightarrow> (rs \<noteq> [] \<longrightarrow> \<not> b) \<Longrightarrow>
   stop_and_wait E (r # rs) [post (ce_json E) r s] s s'"
  by (auto simp: stop_and_wait_def)

lemma stop_and_wait_more:
  assumes "await_acknowledgment E (post (ce_json E) r s) = Some (Inr True, c)" "stop_and_wait E rs waits c s'"
  shows "stop_and_wait E (r # rs) (post (ce_json E) r s # waits) s s'"
proof (cases waits)
  case Nil
  then show ?thesis using assms by (auto simp: stop_and_wait_def)
next
  case (Cons w ws)
  have "(\<exists>c. await_acknowledgment E ((post (ce_json E) r s # waits) ! i) = Some (Inr True, c) \<and>
      (post (ce_json E) r s # waits) ! Suc i = post (ce_json E) ((r # rs) ! Suc i) c)"
    if "Suc i < length (post (ce_json E) r s # waits)" for i
    using assms Cons that by (cases i) (auto simp: stop_and_wait_def)
  moreover have "\<exists>b. await_acknowledgment E (List.last waits) = Some (Inr b, s') \<and> (length waits < length rs \<longrightarrow> \<not> b)"
    "length waits \<le> length rs"
    using assms(2) Cons by (auto simp: stop_and_wait_def)
  ultimately show ?thesis using Cons unfolding stop_and_wait_def by simp
qed

lemma send_loop_waits:
  assumes "json_laws (ce_json E)" "dump_laws (ce_json E)" "waits_ok E log" "ascii filename"
    and "ascii left" "is_connected E s"
  shows "\<exists>waits s'. send_chunk_loop E filename n left s = Some (Inr (), s') \<and>
    stop_and_wait E (file_requests (ce_json E) filename n (file_bodies left)) waits s s' \<and>
    log s' = log s @ map (printed (ce_json E)) (take (length waits) (file_requests (ce_json E) filename n (file_bodies left))) \<and>
    ((\<forall>s. cl_chunk_acknowledged (ce_meanwhile E s)) \<longrightarrow> length waits = length (file_bodies left))"
  using assms(5,6)
proof (induction "length left" arbitrary: left n s rule: less_induct)
  case less
  show ?case
  proof (cases "left = []")
    case True
    then show ?thesis
      by (intro exI [of _ "[]"] exI [of _ s]) (simp add: send_chunk_loop.simps act_run stop_and_wait_def)
  next
    case False
    let ?J = "ce_json E"
    let ?j = "chunk_request ?J filename (take 512 left) n (length left < 512)"
    have asc: "ascii (take 512 left)" "ascii (drop 512 left)"
      using less.prems(1) by (metis append_take_drop_id ascii_simps(3))+
    have dump: "dump_json ?J ?j = Inr (printed ?J ?j)"
      by (intro printed_dump chunk_request_plain assms asc)
    let ?s1 = "post ?J ?j s"
    have s1: "log ?s1 = log s @ [printed ?J ?j]" "is_connected E ?s1"
      using assms(3) less.prems(2) by (simp_all add: post_def waits_ok_def is_connected_def)
    have sends: "async_write E (printed ?J ?j) s = Some (Inr (), ?s1)"
      using less.prems(2) by (simp add: async_write_def act_run post_def)
    obtain b s2 where wait: "await_acknowledgment E ?s1 = Some (Inr b, s2)" "log s2 = log ?s1" "is_connected E s2"
      "(\<forall>s. cl_chunk_acknowledged (ce_meanwhile E s)) \<longrightarrow> b"
      using await_run [OF assms(3) s1(2)] by blast
    have step: "send_chunk_loop E filename n left s =
        (if b then send_chunk_loop E filename (n + 1) (drop 512 left) s2 else Some (Inr (), s2))"
      using False dump sends wait(1) by (subst send_chunk_loop.simps) (simp add: act_run)
    have "length (take 512 left) < 512 \<longleftrightarrow> length left < 512" by (simp add: min_def)
    then have requests: "file_requests ?J filename n (file_bodies left) =
        ?j # file_requests ?J filename (n + 1) (file_bodies (drop 512 left))"
      and bodies: "length (file_bodies left) = Suc (length (file_bodies (drop 512 left)))"
      using False by (subst file_bodies_rec, simp)+
    show ?thesis
    proof (cases b)
      case True
      have "length (drop 512 left) < length left" using False by simp
      from less.hyps [OF this asc(2) wait(3), of "n + 1"] obtain waits s' where rec:
        "send_chunk_loop E filename (n + 1) (drop 512 left) s2 = Some (Inr (), s')"
        "stop_and_wait E (file_requests ?J filename (n + 1) (file_bodies (drop 512 left))) waits s2 s'"
        "log s' = log s2 @ map (printed ?J)
          (take (length waits) (file_requests ?J filename (n + 1) (file_bodies (drop 512 left))))"
        "(\<forall>s. cl_chunk_acknowledged (ce_meanwhile E s)) \<longrightarrow> length waits = length (file_bodies (drop 512 left))"
        by blast
      have "stop_and_wait E (file_requests ?J filename n (file_bodies left)) (?s1 # waits) s s'"
        unfolding requests using wait(1) True rec(2) by (intro stop_and_wait_more) simp_all
      then show ?thesis using True step wait(2) s1(1) rec(1,3,4) bodies unfolding requests
        by (intro exI [of _ "?s1 # waits"] exI [of _ s']) simp
    next
      case False
      then have "stop_and_wait E (file_requests ?J filename n (file_bodies left)) [?s1] s s2"
        unfolding requests by (intro stop_and_wait_last [OF wait(1)]) simp
      then show ?thesis using step wait(2,4) s1(1) False unfolding requests
        by (intro exI [of _ "[?s1]"] exI [of _ s2]) auto
    qed
  qed
qed

lemma send_loop:
  assumes "json_laws (ce_json E)" "dump_laws (ce_json E)" "waits_ok E log" "ascii filename"
    and "ascii left" "is_connected E s" "\<forall>s. cl_chunk_acknowledged (ce_meanwhile E s)"
  shows "\<exists>s'. send_chunk_loop E filename n left s = Some (Inr (), s') \<and>
    log s' = log s @ map (printed (ce_json E)) (file_requests (ce_json E) filename n (file_bodies left))"
proof -
  have "length (file_requests (ce_json E) filename n bs) = length bs" for bs by (induction bs arbitrary: n) simp_all
  then show ?thesis using send_loop_waits [OF assms(1-6), of n] assms(7) by auto
qed

section \<open>Receiving\<close>

lemma wire_answer:
  assumes "wire_laws J" "dump_laws J" "plain J j"
  shows "parse_json J (wire J j) = Inr j"
proof -
  have "set delimiter \<subseteq> {CHR 0x0D, CHR 0x0A}" by (simp add: delimiter_def)
  then show ?thesis
    unfolding wire_printed [OF assms(2,3)] using wire_parse [OF assms(1) printed_dump [OF assms(2,3)]] by simp
qed

lemma process_wire:
  assumes "wire_laws (ce_json E)" "dump_laws (ce_json E)" "plain (ce_json E) j"
    and "dispatch_message E j s = Some (Inr (), s')"
  shows "process_server_message E (wire (ce_json E) j) s = Some (Inr (), s')"
  by (simp add: process_server_message_def act_run wire_answer [OF assms(1-3)] assms(4))

lemma receive_notification:
  assumes "json_laws (ce_json E)" "ci_can_create (ce_io E) (cl_user_files_dir s @ slash # filename)"
  shows "dispatch_message E (notification_json (ce_json E) filename sender) s =
    Some (Inr (), s\<lparr>cl_incoming := (cl_incoming s)(filename \<mapsto> (cl_user_files_dir s @ slash # filename, True)),
      cl_disk := (cl_disk s)(cl_user_files_dir s @ slash # filename \<mapsto> [])\<rparr>)"
  using assms
  by (simp add: dispatch_message_def notification_json_def value_at_def handle_incoming_file_def Let_def
      act_run json_simps read_string_def read_int_def)

definition after_chunk ::
    "('j, 'w) client_env \<Rightarrow> string \<Rightarrow> string \<Rightarrow> nat \<Rightarrow> string \<Rightarrow> bool \<Rightarrow> 'w client \<Rightarrow> 'w client" where
  "after_chunk E filename p i chunk is_last s =
     s\<lparr>cl_disk := append_file p chunk (cl_disk s),
       cl_posted := (if is_connected E s
         then cl_posted s @ [printed (ce_json E) (received_request (ce_json E) filename (of_nat i))] else cl_posted s),
       cl_incoming := (if is_last then (cl_incoming s)(filename := None) else cl_incoming s)\<rparr>"

lemma receive_chunk_message:
  assumes "json_laws (ce_json E)" "dump_laws (ce_json E)" "ascii filename"
    and "cl_incoming s filename = Some (p, True)"
  shows "dispatch_message E (chunk_json (ce_json E) filename i chunk is_last) s =
    Some (Inr (), after_chunk E filename p i chunk is_last s)"
proof -
  let ?J = "ce_json E"
  have "plain ?J (received_request ?J filename (of_nat i))"
    unfolding received_request_def by (intro plain_field plain_start plain_value.intros assms) (simp_all add: assms(3))
  then have "dump_json ?J (received_request ?J filename (of_nat i)) =
      Inr (printed ?J (received_request ?J filename (of_nat i)))"
    by (rule printed_dump [OF assms(2)])
  then show ?thesis
    using assms
    by (simp add: dispatch_message_def chunk_json_def value_at_def handle_incoming_file_chunk_def Let_def
        act_run json_simps read_string_def read_size_def read_bool_def after_chunk_def async_write_def
        is_connected_def)
qed

text \<open>The confirmations of \<open>k\<close> chunks from number \<open>i\<close> on.\<close>

definition confirmations :: "('j, 'w) client_env \<Rightarrow> string \<Rightarrow> nat \<Rightarrow> nat \<Rightarrow> 'w client \<Rightarrow> string list" where
  "confirmations E filename i k s =
     (if is_connected E s
      then map (\<lambda>i. printed (ce_json E) (received_request (ce_json E) filename (of_nat i))) [i..<i + k] else [])"

lemma confirmations_none [simp]: "confirmations E filename i 0 s = []"
  by (simp add: confirmations_def)

lemma after_chunk_posted:
  "cl_posted (after_chunk E filename p i chunk is_last s) @ confirmations E filename (Suc i) k (after_chunk E filename p i chunk is_last s) =
   cl_posted s @ confirmations E filename i (Suc k) s"
proof -
  have "[i..<i + Suc k] = i # [Suc i..<Suc i + k]" by (simp add: upt_conv_Cons)
  moreover have "is_connected E (after_chunk E filename p i chunk is_last s) = is_connected E s"
    by (simp add: after_chunk_def is_connected_def)
  ultimately show ?thesis by (simp add: confirmations_def after_chunk_def del: upt_Suc)
qed

fun process_messages :: "('j, 'w) client_env \<Rightarrow> string list \<Rightarrow> ('w, unit) client_action" where
  "process_messages E [] = act_return ()"
| "process_messages E (t # ts) = act_then (process_server_message E t) (process_messages E ts)"

lemma receive_chunk_messages:
  assumes "json_laws (ce_json E)" "dump_laws (ce_json E)" "wire_laws (ce_json E)" "ascii filename"
    and "ascii (concat chunks)" "cl_incoming s filename = Some (p, True)"
  shows "\<exists>s'. process_messages E (map (wire (ce_json E)) (chunk_messages (ce_json E) filename i chunks)) s =
      Some (Inr (), s') \<and>
    cl_posted s' = cl_posted s @ confirmations E filename i (length chunks) s \<and>
    (chunks \<noteq> [] \<longrightarrow> cl_disk s' = append_file p (concat chunks) (cl_disk s) \<and>
      cl_incoming s' = (cl_incoming s)(filename := None))"
  using assms(5,6)
proof (induction chunks arbitrary: i s)
  case Nil
  show ?case by (simp add: act_run confirmations_def)
next
  case (Cons c cs)
  let ?s = "after_chunk E filename p i c (cs = []) s"
  have asc: "ascii c" "ascii (concat cs)" using Cons.prems(1) by simp_all
  have "process_server_message E (wire (ce_json E) (chunk_json (ce_json E) filename i c (cs = []))) s = Some (Inr (), ?s)"
    by (intro process_wire receive_chunk_message chunk_json_plain assms asc Cons.prems)
  then have step: "process_messages E (map (wire (ce_json E)) (chunk_messages (ce_json E) filename i (c # cs))) s =
      process_messages E (map (wire (ce_json E)) (chunk_messages (ce_json E) filename (Suc i) cs)) ?s"
    by (simp add: act_run)
  show ?case
  proof (cases "cs = []")
    case True
    have "cl_posted ?s = cl_posted s @ confirmations E filename i (length (c # cs)) s"
      using after_chunk_posted [of E filename p i c "cs = []" s 0] True by simp
    then show ?thesis unfolding step using True
      by (intro exI [of _ ?s]) (simp add: act_run, simp add: after_chunk_def fun_eq_iff)
  next
    case False
    then have "cl_incoming ?s filename = Some (p, True)" using Cons.prems(2) by (simp add: after_chunk_def)
    from Cons.IH [OF asc(2) this] obtain s' where
      "process_messages E (map (wire (ce_json E)) (chunk_messages (ce_json E) filename (Suc i) cs)) ?s = Some (Inr (), s')"
      "cl_posted s' = cl_posted ?s @ confirmations E filename (Suc i) (length cs) ?s"
      "cs \<noteq> [] \<longrightarrow> cl_disk s' = append_file p (concat cs) (cl_disk ?s) \<and> cl_incoming s' = (cl_incoming ?s)(filename := None)"
      by blast
    moreover have "cl_disk ?s = append_file p c (cl_disk s)" "cl_incoming ?s = cl_incoming s"
      using False by (simp_all add: after_chunk_def)
    ultimately show ?thesis unfolding step using False after_chunk_posted [of E filename p i c "cs = []" s "length cs"]
      by (intro exI [of _ s']) (simp add: append_file_def)
  qed
qed

lemma receive_file:
  assumes "json_laws (ce_json E)" "dump_laws (ce_json E)" "wire_laws (ce_json E)" "ascii filename"
    and "ascii (concat chunks)" "chunks \<noteq> []"
    and "ci_can_create (ce_io E) (cl_user_files_dir s @ slash # filename)"
  shows "\<exists>s'. process_messages E (map (wire (ce_json E))
      (notification_json (ce_json E) filename sender # chunk_messages (ce_json E) filename 0 chunks)) s = Some (Inr (), s') \<and>
    cl_disk s' = (cl_disk s)(cl_user_files_dir s @ slash # filename \<mapsto> concat chunks) \<and>
    cl_incoming s' = (cl_incoming s)(filename := None) \<and>
    cl_posted s' = cl_posted s @ confirmations E filename 0 (length chunks) s"
proof -
  let ?p = "cl_user_files_dir s @ slash # filename"
  let ?s = "s\<lparr>cl_incoming := (cl_incoming s)(filename \<mapsto> (?p, True)), cl_disk := (cl_disk s)(?p \<mapsto> [])\<rparr>"
  have "process_server_message E (wire (ce_json E) (notification_json (ce_json E) filename sender)) s = Some (Inr (), ?s)"
    by (intro process_wire receive_notification notification_json_plain assms)
  moreover obtain s' where
    "process_messages E (map (wire (ce_json E)) (chunk_messages (ce_json E) filename 0 chunks)) ?s = Some (Inr (), s')"
    "cl_disk s' = append_file ?p (concat chunks) (cl_disk ?s)" "cl_incoming s' = (cl_incoming ?s)(filename := None)"
    "cl_posted s' = cl_posted ?s @ confirmations E filename 0 (length chunks) ?s"
    using receive_chunk_messages [OF assms(1-5), of ?s ?p 0] assms(6) by auto
  moreover have "confirmations E filename 0 (length chunks) ?s = confirmations E filename 0 (length chunks) s"
    by (simp add: confirmations_def is_connected_def)
  ultimately show ?thesis
    by (intro exI [of _ s']) (simp add: act_run append_file_def)
qed

section \<open>Properties\<close>




text \<open>
  C37: A client that is sent the notification of a file and then its chunks, numbered and with the last
  one marked, ends up with the file: under its name in the directory of the user there are exactly
  the bytes of the chunks, in order, whatever was there before; no other file is touched, and the
  stream is closed. When it is connected, it confirms every chunk by its number.
\<close>

theorem receiver_stores_file:
  assumes "json_laws (ce_json E)" "dump_laws (ce_json E)" "wire_laws (ce_json E)" "ascii filename"
    and "ascii (concat chunks)" "chunks \<noteq> []"
    and "ci_can_create (ce_io E) (cl_user_files_dir s @ slash # filename)"
  shows "\<exists>s'. process_messages E (map (wire (ce_json E))
      (notification_json (ce_json E) filename sender # chunk_messages (ce_json E) filename 0 chunks)) s = Some (Inr (), s') \<and>
    cl_disk s' = (cl_disk s)(cl_user_files_dir s @ slash # filename \<mapsto> concat chunks) \<and>
    cl_incoming s' = (cl_incoming s)(filename := None) \<and>
    cl_posted s' = cl_posted s @ confirmations E filename 0 (length chunks) s"
  by (rule receive_file [OF assms])

theorem receiver_stores_file_witness:
  "\<exists>s'. process_messages (example_env free_socket) (map (wire example_json)
      (notification_json example_json ''a'' 5 # chunk_messages example_json ''a'' 0 [''hel'', ''lo''])) (example_client ([] :: string list) []) =
      Some (Inr (), s') \<and>
    cl_disk s' ''files/a'' = Some ''hello''"
proof -
  let ?E = "example_env free_socket" and ?s = "example_client ([] :: string list) []"
  have E: "ce_json ?E = example_json" "ci_can_create (ce_io ?E) p" for p by (simp_all add: example_env_def)
  have "ascii ''a''" "ascii (concat [''hel'', ''lo''])" "[''hel'', ''lo''] \<noteq> []" by simp_all
  from receiver_stores_file [of ?E, unfolded E(1), OF example_json_laws example_dump_laws example_wire_laws this E(2), of 5 ?s]
  obtain s' where "process_messages ?E (map (wire example_json)
      (notification_json example_json ''a'' 5 # chunk_messages example_json ''a'' 0 [''hel'', ''lo''])) ?s = Some (Inr (), s')"
    "cl_disk s' = (cl_disk ?s)(cl_user_files_dir ?s @ slash # ''a'' \<mapsto> concat [''hel'', ''lo''])" by blast
  then show ?thesis by (intro exI [of _ s']) (simp add: example_client_def slash_def)
qed

end
