(* ===== verification/End_To_End.thy ===== *)
theory End_To_End
  imports Client_Files Server_Sessions
begin

text \<open>
  The client, the server and the file server together: the texts that one client sends are what the
  server handles, and the chunks in them are what the file server stores. What the receiver is sent
  depends on the download, of which nothing is assumed.
\<close>

section \<open>Requests on the server\<close>

lemma first_line_wire:
  assumes "wire_laws J" "dump_laws J" "plain J j"
  shows "parse_json J (first_line (wire J j)) = Inr j"
proof -
  have dump: "dump_json J j = Inr (printed J j)" by (rule printed_dump [OF assms(2,3)])
  have "\<forall>c \<in> set (printed J j). c \<noteq> CHR 0x0A" using wire_one_line [OF assms(1) dump] by auto
  then have "first_line (wire J j) = printed J j @ [CHR 0x0D]"
    unfolding wire_printed [OF assms(2,3)] first_line_def by (subst takeWhile_append2) (auto simp: delimiter_def)
  then show ?thesis using wire_parse [OF assms(1) dump] by simp
qed

lemma handle_wire:
  assumes "wire_laws (json E)" "dump_laws (json E)" "plain (json E) j"
    and "dispatch E sock j s = Some (Inr x, s')"
  shows "handle_text E sock (wire (json E) j) s = Some (Inr x, s')"
  using first_line_wire [OF assms(1-3)] assms(4) by (simp add: handle_text_def act_run)

fun handle_texts ::
    "('d, 'j, 'n, 'w) services \<Rightarrow> socket \<Rightarrow> string list \<Rightarrow> ('d, 'n, 'w, unit) handling" where
  "handle_texts E sock [] = act_return ()"
| "handle_texts E sock (t # ts) = act_then (handle_text E sock t) (handle_texts E sock ts)"

lemma handle_texts_append:
  "handle_texts E sock (a @ b) s = act_then (handle_texts E sock a) (handle_texts E sock b) s"
  by (induction a arbitrary: s) (simp_all add: act_run act_bind_def split: option.splits sum.splits)

lemma dispatch_chunk:
  assumes "json_laws (json E)"
  shows "dispatch E sock (chunk_request (json E) name b n is_last) s =
    act_bind (receive_chunk E name b n is_last) (\<lambda>response. act_catch (write_json E sock response) (act_return ())) s"
  using assms
  by (simp add: dispatch_def chunk_request_def contains_def is_request_def handle_file_chunk_def
      json_simps read_string_def read_size_def read_bool_def act_run)

text \<open>The state after a stored chunk, before the receiver is notified.\<close>

lemma dispatch_chunk_stores:
  assumes net: "http_uploads (beast E) io srv" "willing io" "is_valid_filename name"
    and "json_laws (json E)" "transfer_ready srv io name p n (b # bs) s"
  shows "\<exists>s1. dispatch E sock (chunk_request (json E) name b n is_last) s =
      act_bind (if is_last then notify_receiver E name else act_return ())
        (\<lambda>_. act_catch (write_json E sock (put_string (json E) ''status'' ''success'' (ack_json (json E) name n)))
          (act_return ())) s1 \<and>
    transfer_ready srv io name p (n + 1) bs s1 \<and>
    contents p (srv (rm_net s1)) = contents p (srv (rm_net s)) @ b \<and> fs_files (srv (rm_net s1)) p \<noteq> None \<and>
    sv_socks s1 = sv_socks s \<and> sv_pending s1 = sv_pending s \<and> notified name s1 = notified name s \<and>
    completed (upload_of name (sv_uploads s1)) = (completed (upload_of name (sv_uploads s)) \<or> is_last)"
proof -
  let ?u = "upload_of name (sv_uploads s)"
  note ready = assms(5) [unfolded transfer_ready_def]
  define u where "u = ?u\<lparr>last_chunk_received := n, completed := completed ?u \<or> is_last\<rparr>"
  obtain n' where n': "srv n' = append_to p b (get_or_create_mutex p (srv (rm_net s)))"
    and chunk: "receive_chunk E name b n is_last s =
      act_bind (if is_last then notify_receiver E name else act_return ())
        (\<lambda>_. act_return (put_string (json E) ''status'' ''success'' (ack_json (json E) name n)))
        (set_upload name u (s\<lparr>rm_net := n'\<rparr>))"
    using receive_chunk_stores [OF net, of s p b n is_last] ready by (auto simp: u_def)
  define s1 where "s1 = set_upload name u (s\<lparr>rm_net := n'\<rparr>)"
  have s1: "srv (rm_net s1) = append_to p b (get_or_create_mutex p (srv (rm_net s)))"
    "sv_socks s1 = sv_socks s" "sv_pending s1 = sv_pending s" "notified name s1 = notified name s"
    "upload_of name (sv_uploads s1) = u" by (simp_all add: s1_def n')
  have content: "contents p (srv (rm_net s1)) = contents p (srv (rm_net s)) @ b" by (simp add: s1)
  have "transfer_ready srv io name p (n + 1) bs s1"
    using ready s1 content by (simp add: transfer_ready_def u_def)
  moreover have "completed (upload_of name (sv_uploads s1)) = (completed ?u \<or> is_last)" by (simp add: s1 u_def)
  moreover have "dispatch E sock (chunk_request (json E) name b n is_last) s =
      act_bind (if is_last then notify_receiver E name else act_return ())
        (\<lambda>_. act_catch (write_json E sock (put_string (json E) ''status'' ''success'' (ack_json (json E) name n)))
          (act_return ())) s1"
    unfolding dispatch_chunk [OF assms(4)] s1_def
    by (simp add: act_bind_def chunk act_return_def split: option.splits sum.splits)
  moreover have "fs_files (srv (rm_net s1)) p \<noteq> None" by (simp add: s1 append_to_def)
  ultimately show ?thesis using content s1 by blast
qed

lemma ack_plain:
  "json_laws J \<Longrightarrow> ascii name \<Longrightarrow> plain J (put_string J ''status'' ''success'' (ack_json J name n))"
  unfolding ack_json_def by (intro plain_field plain_start plain_value.intros) simp_all

lemma write_ack:
  assumes "reliable E sent" "ascii name"
  shows "\<exists>w. act_catch (write_json E sock (put_string (json E) ''status'' ''success'' (ack_json (json E) name n)))
      (act_return ()) s = Some (Inr (), s\<lparr>sv_socks := w\<rparr>) \<and>
    sent w = sent (sv_socks s) @ [(sock, wire (json E) (put_string (json E) ''status'' ''success'' (ack_json (json E) name n)))]"
proof -
  obtain w where w: "write_json E sock (put_string (json E) ''status'' ''success'' (ack_json (json E) name n)) s =
      Some (Inr (), s\<lparr>sv_socks := w\<rparr>)"
    "sent w = sent (sv_socks s) @ [(sock, wire (json E) (put_string (json E) ''status'' ''success'' (ack_json (json E) name n)))]"
    using write_json_plain [OF assms(1) ack_plain [OF reliable_laws(1) [OF assms(1)] assms(2)]] by blast
  from w(1) have "act_catch (write_json E sock (put_string (json E) ''status'' ''success'' (ack_json (json E) name n)))
      (act_return ()) s = Some (Inr (), s\<lparr>sv_socks := w\<rparr>)"
    by (rule act_catch_simps(2))
  then show ?thesis using w(2) by blast
qed

text \<open>Full chunks, which are not marked, are stored and acknowledged.\<close>

lemma full_chunks_stored:
  assumes rel: "reliable E sent" and wire: "wire_laws (json E)"
    and net: "http_uploads (beast E) io srv" "willing io" "is_valid_filename name" and name: "ascii name"
    and "\<forall>b \<in> set bs. length b = 512 \<and> ascii b" "transfer_ready srv io name p n (bs @ later) s"
  shows "\<exists>s'. handle_texts E sock (map (wire (json E)) (file_requests (json E) name n bs)) s = Some (Inr (), s') \<and>
    transfer_ready srv io name p (n + of_nat (length bs)) later s' \<and>
    contents p (srv (rm_net s')) = contents p (srv (rm_net s)) @ concat bs \<and>
    (bs \<noteq> [] \<longrightarrow> fs_files (srv (rm_net s')) p \<noteq> None) \<and>
    sent (sv_socks s') = sent (sv_socks s) @ map (\<lambda>j. (sock, wire (json E) j)) (success_acks (json E) name n (length bs)) \<and>
    sv_pending s' = sv_pending s \<and> notified name s' = notified name s \<and>
    completed (upload_of name (sv_uploads s')) = completed (upload_of name (sv_uploads s))"
  using assms(7,8)
proof (induction bs arbitrary: n s)
  case Nil
  then show ?case by (simp add: act_run success_acks_def)
next
  case (Cons b bs)
  let ?ack = "put_string (json E) ''status'' ''success'' (ack_json (json E) name n)"
  have laws: "json_laws (json E)" "dump_laws (json E)" using rel by simp_all
  obtain s1 where s1: "dispatch E sock (chunk_request (json E) name b n False) s =
      act_bind (if False then notify_receiver E name else act_return ())
        (\<lambda>_. act_catch (write_json E sock ?ack) (act_return ())) s1"
    "transfer_ready srv io name p (n + 1) (bs @ later) s1"
    "contents p (srv (rm_net s1)) = contents p (srv (rm_net s)) @ b" "fs_files (srv (rm_net s1)) p \<noteq> None"
    "sv_socks s1 = sv_socks s" "sv_pending s1 = sv_pending s" "notified name s1 = notified name s"
    "completed (upload_of name (sv_uploads s1)) = completed (upload_of name (sv_uploads s))"
    using dispatch_chunk_stores [OF net laws(1), of p n b "bs @ later" s sock False] Cons.prems(2) by auto
  obtain w where w: "act_catch (write_json E sock ?ack) (act_return ()) s1 = Some (Inr (), s1\<lparr>sv_socks := w\<rparr>)"
    "sent w = sent (sv_socks s1) @ [(sock, wire (json E) ?ack)]"
    using write_ack [OF rel name] by blast
  have "plain (json E) (chunk_request (json E) name b n False)"
    using Cons.prems(1) by (intro chunk_request_plain laws name) simp
  then have one: "handle_text E sock (wire (json E) (chunk_request (json E) name b n False)) s = Some (Inr (), s1\<lparr>sv_socks := w\<rparr>)"
    by (rule handle_wire [OF wire laws(2)]) (simp add: s1(1) act_run w(1))
  have ready: "transfer_ready srv io name p (n + 1) (bs @ later) (s1\<lparr>sv_socks := w\<rparr>)"
    using s1(2) by (simp add: transfer_ready_def)
  have full: "\<forall>b \<in> set bs. length b = 512 \<and> ascii b" using Cons.prems(1) by simp
  obtain s' where s': "handle_texts E sock (map (wire (json E)) (file_requests (json E) name (n + 1) bs)) (s1\<lparr>sv_socks := w\<rparr>) =
      Some (Inr (), s')"
    "transfer_ready srv io name p (n + 1 + of_nat (length bs)) later s'"
    "contents p (srv (rm_net s')) = contents p (srv (rm_net s1)) @ concat bs"
    "bs \<noteq> [] \<longrightarrow> fs_files (srv (rm_net s')) p \<noteq> None"
    "sent (sv_socks s') = sent w @ map (\<lambda>j. (sock, wire (json E) j)) (success_acks (json E) name (n + 1) (length bs))"
    "sv_pending s' = sv_pending s1" "notified name s' = notified name s1"
    "completed (upload_of name (sv_uploads s')) = completed (upload_of name (sv_uploads s1))"
    using Cons.IH [OF full ready] by auto
  have "handle_texts E sock (map (wire (json E)) (file_requests (json E) name n (b # bs))) s = Some (Inr (), s')"
    using one s'(1) Cons.prems(1) by (simp add: act_run)
  moreover have "fs_files (srv (rm_net s')) p \<noteq> None"
    using s'(1,4) s1(4) by (cases "bs = []") (auto simp: act_run)
  ultimately show ?case using s' s1 w(2)
    by (intro exI [of _ s']) (simp add: success_acks_Suc add.assoc)
qed

text \<open>The marked chunk, when there is nobody to notify.\<close>

lemma last_chunk_stored:
  assumes rel: "reliable E sent" and wire: "wire_laws (json E)"
    and net: "http_uploads (beast E) io srv" "willing io" "is_valid_filename name" and name: "ascii name"
    and "ascii z" "transfer_ready srv io name p n [z] s" "notified name s = None"
  shows "\<exists>s'. handle_text E sock (wire (json E) (chunk_request (json E) name z n True)) s = Some (Inr (), s') \<and>
    contents p (srv (rm_net s')) = contents p (srv (rm_net s)) @ z \<and> fs_files (srv (rm_net s')) p \<noteq> None \<and>
    sent (sv_socks s') = sent (sv_socks s) @
      [(sock, wire (json E) (put_string (json E) ''status'' ''success'' (ack_json (json E) name n)))] \<and>
    sv_pending s' = sv_pending s \<and> completed (upload_of name (sv_uploads s'))"
proof -
  let ?ack = "put_string (json E) ''status'' ''success'' (ack_json (json E) name n)"
  have laws: "json_laws (json E)" "dump_laws (json E)" using rel by simp_all
  obtain s1 where s1: "dispatch E sock (chunk_request (json E) name z n True) s =
      act_bind (if True then notify_receiver E name else act_return ())
        (\<lambda>_. act_catch (write_json E sock ?ack) (act_return ())) s1"
    "contents p (srv (rm_net s1)) = contents p (srv (rm_net s)) @ z"
    "fs_files (srv (rm_net s1)) p \<noteq> None" "sv_socks s1 = sv_socks s" "sv_pending s1 = sv_pending s"
    "notified name s1 = None" "completed (upload_of name (sv_uploads s1))"
    using dispatch_chunk_stores [OF net laws(1) assms(8), of sock True] assms(9) by auto
  obtain w where w: "act_catch (write_json E sock ?ack) (act_return ()) s1 = Some (Inr (), s1\<lparr>sv_socks := w\<rparr>)"
    "sent w = sent (sv_socks s1) @ [(sock, wire (json E) ?ack)]"
    using write_ack [OF rel name] by blast
  have "plain (json E) (chunk_request (json E) name z n True)"
    by (intro chunk_request_plain laws name assms(7))
  then have "handle_text E sock (wire (json E) (chunk_request (json E) name z n True)) s = Some (Inr (), s1\<lparr>sv_socks := w\<rparr>)"
    by (rule handle_wire [OF wire laws(2)]) (simp add: s1(1) act_run notify_nobody [OF s1(6)] w(1))
  then show ?thesis using s1(2-5,7) w(2) by (intro exI [of _ "s1\<lparr>sv_socks := w\<rparr>"]) simp
qed

text \<open>The marked chunk of a file whose receiver is connected.\<close>

lemma receive_last_chunk:
  assumes rel: "reliable E sent" and name: "ascii name" "\<forall>c \<in> set chunks. ascii c"
    and n: "n = last_chunk_received (upload_of name (sv_uploads s)) + 1"
    and pending: "notified name s = Some (t, rsock)"
    and up: "upload_chunk (beast E) (rm_file_client s) name z (rm_net s) = (Inr True, n1)"
    and down: "download_file_chunks (beast E) (rm_file_client s) name n1 = Some (Inr chunks, n2)"
  shows "\<exists>s'. receive_chunk E name z n True s = Some (Inl erased_transfer, s') \<and>
    sent (sv_socks s') = sent (sv_socks s) @ map (\<lambda>j. (rsock, wire (json E) j))
      (notification_json (json E) name (pft_sender_id t) # chunk_messages (json E) name 0 chunks) \<and>
    sv_pending s' = remove1 t (sv_pending s)"
proof -
  let ?u = "upload_of name (sv_uploads s)"
  let ?s = "set_upload name ?u s"
  define s1 where "s1 = set_upload name (?u\<lparr>last_chunk_received := n, completed := True\<rparr>) (?s\<lparr>rm_net := n1\<rparr>)"
  have s1: "rm_net s1 = n1" "rm_file_client s1 = rm_file_client s" "notified name s1 = Some (t, rsock)"
    "sv_socks s1 = sv_socks s" "sv_pending s1 = sv_pending s"
    using pending by (simp_all add: s1_def) (simp add: set_upload_def)
  have client: "upload_file_chunk E name z ?s = Some (Inr True, ?s\<lparr>rm_net := n1\<rparr>)"
    using up by (simp add: upload_file_chunk_def act_run set_upload_def)
  obtain w' where "notify_receiver E name s1 =
      Some (Inl erased_transfer, s1\<lparr>sv_socks := w', rm_net := n2, sv_pending := remove1 t (sv_pending s1)\<rparr>)"
    "sent w' = sent (sv_socks s1) @ map (\<lambda>j. (rsock, wire (json E) j))
      (notification_json (json E) name (pft_sender_id t) # chunk_messages (json E) name 0 chunks)"
    using notify_undefined [OF rel name s1(3)] down s1(1,2) by metis
  moreover have "receive_chunk E name z n True s = act_bind (notify_receiver E name)
      (\<lambda>_. act_return (put_string (json E) ''status'' ''success'' (ack_json (json E) name n))) s1"
    using n client by (simp add: receive_chunk_def Let_def act_run s1_def set_upload_def)
  ultimately show ?thesis using s1(4,5) by (auto simp: act_run)
qed

section \<open>Properties\<close>

lemma file_requests_printed:
  assumes "json_laws J" "dump_laws J" "ascii name" "\<forall>b \<in> set bodies. ascii b"
  shows "map (\<lambda>t. t @ delimiter) (map (printed J) (file_requests J name n bodies)) =
    map (wire J) (file_requests J name n bodies)"
  using assms(4)
proof (induction bodies arbitrary: n)
  case (Cons b bs)
  then have "plain J (chunk_request J name b n (length b < 512))"
    by (intro chunk_request_plain assms) simp
  then show ?case using Cons by (simp add: wire_printed [OF assms(2)])
qed simp

lemma file_bodies_ascii: "ascii content \<Longrightarrow> \<forall>b \<in> set (file_bodies content). ascii b"
  by (simp flip: ascii_concat)

text \<open>An example: the libraries in memory, and a client with one file.\<close>

definition journey_name :: string where
  "journey_name = ''ABCDEFGHIJKLMNOP.txt''"

definition journey_client :: "string \<Rightarrow> string list client" where
  "journey_client content = (example_client [] [])\<lparr>cl_disk := [''files/ABCDEFGHIJKLMNOP.txt'' \<mapsto> content]\<rparr>"

lemma journey_client_facts:
  "waits_ok (example_env free_socket) cl_posted"
  "ce_json (example_env free_socket) = example_json"
  "cl_chunk_acknowledged (ce_meanwhile (example_env free_socket) c)"
  "is_connected (example_env free_socket) d"
  "open_read (ce_io (example_env free_socket)) (cl_disk (journey_client content)) ''files/ABCDEFGHIJKLMNOP.txt'' = Some content"
  "ci_can_create (ce_io (example_env free_socket)) p"
  "cl_posted (journey_client content) = []"
  by (simp_all add: waits_ok_def example_env_def is_connected_def free_socket_def journey_client_def
      example_client_def open_read_def)

lemma journey_names:
  "path_filename ''files/ABCDEFGHIJKLMNOP.txt'' = journey_name" "is_valid_filename journey_name" "ascii journey_name"
  unfolding journey_name_def by (simp_all add: path_filename_def slash_def valid_example)

lemma journey_server:
  "get_filepath_by_name willing_io (fst (rm_net (example_handler [(7, 3)]))) journey_name =
     Inr (base (fs_storage_dir (fst (rm_net (example_handler [(7, 3)])))) @ ''AB/CD/ABCDEFGHIJKLMNOP.txt'')"
  "fs_files (fst (rm_net (example_handler [(7, 3)]))) q = None"
  "fs_max_file_size (fst (rm_net (example_handler [(7, 3)]))) = 1000"
  "List.find f (sv_pending (example_handler [(7, 3)])) = None" "sv_pending (example_handler [(7, 3)]) = []"
  "get_client_socket 7 (sv_clients (example_handler [(7, 3)])) = Some 3"
  "sv_socks (example_handler [(7, 3)]) = []" "json example_services = example_json"
  unfolding journey_name_def
  by (simp_all add: example_handler_def file_server_new_def get_client_socket_def example_services_def)

text \<open>The last piece of a content, marked as the last chunk when it is short.\<close>

lemma last_body_stored:
  fixes E :: "('d, 'j, 'n, 'w) services"
  assumes server: "reliable E sent" "wire_laws (json E)" "http_uploads (beast E) io srv" "willing io"
    and name: "is_valid_filename name" "ascii name" and body: "ascii z" "length z \<le> 512"
    and ready: "transfer_ready srv io name p n [z] s" "notified name s = None"
      "\<not> completed (upload_of name (sv_uploads s))"
  shows "\<exists>s'. handle_texts E sock [wire (json E) (chunk_request (json E) name z n (length z < 512))] s = Some (Inr (), s') \<and>
    contents p (srv (rm_net s')) = contents p (srv (rm_net s)) @ z \<and> fs_files (srv (rm_net s')) p \<noteq> None \<and>
    sent (sv_socks s') = sent (sv_socks s) @
      map (\<lambda>j. (sock, wire (json E) j)) (success_acks (json E) name n 1) \<and>
    sv_pending s' = sv_pending s \<and> completed (upload_of name (sv_uploads s')) = (length z < 512)"
proof (cases "length z < 512")
  case True
  from last_chunk_stored [OF server name body(1) ready(1,2), of sock] show ?thesis
    using True by (auto simp: act_run success_acks_def)
next
  case False
  then have one: "\<forall>b \<in> set [z]. length b = 512 \<and> ascii b" using body by simp
  from full_chunks_stored [OF server name one, of p n "[]" s sock] show ?thesis
    using False ready(1,3) by auto
qed

text \<open>The server stores a file whose requests it handles one after another.\<close>

lemma server_stores_file:
  fixes E :: "('d, 'j, 'n, 'w) services"
  assumes server: "reliable E sent" "wire_laws (json E)" "http_uploads (beast E) io srv" "willing io"
    and name: "is_valid_filename name" "ascii name" and content: "ascii content" "content \<noteq> []"
    and ready: "transfer_ready srv io name p 1 (file_bodies content) s" "notified name s = None"
      "\<not> completed (upload_of name (sv_uploads s))"
  shows "\<exists>s'. handle_texts E sock (map (wire (json E)) (file_requests (json E) name 1 (file_bodies content))) s = Some (Inr (), s') \<and>
    contents p (srv (rm_net s')) = contents p (srv (rm_net s)) @ content \<and> fs_files (srv (rm_net s')) p \<noteq> None \<and>
    sent (sv_socks s') = sent (sv_socks s) @
      map (\<lambda>j. (sock, wire (json E) j)) (success_acks (json E) name 1 (length (file_bodies content))) \<and>
    sv_pending s' = sv_pending s \<and> completed (upload_of name (sv_uploads s')) = (length content mod 512 \<noteq> 0)"
proof -
  let ?J = "json E"
  obtain full z where bodies: "file_bodies content = full @ [z]" "\<forall>b \<in> set full. length b = 512" "length z \<le> 512"
    "length z < 512 \<longleftrightarrow> length content mod 512 \<noteq> 0"
    using file_bodies_sizes content(2) by blast
  have asc: "\<forall>b \<in> set (full @ [z]). ascii b" using file_bodies_ascii [OF content(1)] bodies(1) by simp
  have full: "\<forall>b \<in> set full. length b = 512 \<and> ascii b" using bodies asc by auto
  obtain s1 where s1: "handle_texts E sock (map (wire ?J) (file_requests ?J name 1 full)) s = Some (Inr (), s1)"
    "transfer_ready srv io name p (1 + of_nat (length full)) [z] s1"
    "contents p (srv (rm_net s1)) = contents p (srv (rm_net s)) @ concat full"
    "sent (sv_socks s1) = sent (sv_socks s) @ map (\<lambda>j. (sock, wire ?J j)) (success_acks ?J name 1 (length full))"
    "sv_pending s1 = sv_pending s" "notified name s1 = notified name s"
    "completed (upload_of name (sv_uploads s1)) = completed (upload_of name (sv_uploads s))"
    using full_chunks_stored [OF server name full ready(1) [unfolded bodies(1)]] by blast
  obtain s' where s': "handle_texts E sock [wire ?J (chunk_request ?J name z (1 + of_nat (length full)) (length z < 512))] s1 = Some (Inr (), s')"
    "contents p (srv (rm_net s')) = contents p (srv (rm_net s1)) @ z" "fs_files (srv (rm_net s')) p \<noteq> None"
    "sent (sv_socks s') = sent (sv_socks s1) @
      map (\<lambda>j. (sock, wire ?J j)) (success_acks ?J name (1 + of_nat (length full)) 1)"
    "sv_pending s' = sv_pending s1" "completed (upload_of name (sv_uploads s')) = (length z < 512)"
    using last_body_stored [OF server name _ bodies(3) s1(2), of sock] asc s1(6,7) ready(2,3) by auto
  have "file_requests ?J name 1 (full @ [z]) =
      file_requests ?J name 1 full @ [chunk_request ?J name z (1 + of_nat (length full)) (length z < 512)]"
    using bodies by (simp add: file_requests_append)
  then have "handle_texts E sock (map (wire ?J) (file_requests ?J name 1 (full @ [z]))) s = Some (Inr (), s')"
    using s1(1) s'(1) by (simp only: map_append list.map handle_texts_append) (simp add: act_run)
  moreover have "concat full @ z = content" using arg_cong [OF bodies(1), of concat] by simp
  moreover have "success_acks ?J name 1 (length full) @ success_acks ?J name (1 + of_nat (length full)) 1 =
      success_acks ?J name 1 (length (full @ [z]))"
    by (simp add: success_acks_def)
  then have "sent (sv_socks s') = sent (sv_socks s) @
      map (\<lambda>j. (sock, wire ?J j)) (success_acks ?J name 1 (length (full @ [z])))"
    using s'(4) s1(4) by (simp flip: map_append)
  ultimately show ?thesis unfolding bodies(1) using s' s1(3,5) bodies(4) by (intro exI [of _ s']) simp
qed

text \<open>
  C1: A file gets from the disk of its sender to the file server, unchanged. The client sends a file
  with a valid name, a printable name and printable content, and it gets its acknowledgements; the
  server, which was told of the transfer, handles exactly the texts that this client posted. Then
  the file server has the file with the same content, the client has been sent one acknowledgement
  of success per chunk, in order, and the upload counts as complete unless the size is a multiple
  of 512. This is for a receiver who is not connected: the transfer stays pending.
\<close>

theorem file_end_to_end:
  fixes E :: "('d, 'j, 'n, 'w) services" and A :: "('j, 'v) client_env"
  assumes server: "reliable E sent" "wire_laws (json E)" "http_uploads (beast E) io srv" "willing io"
    and sender: "ce_json A = json E" "waits_ok A log" "\<And>c. cl_chunk_acknowledged (ce_meanwhile A c)" "is_connected A a"
      "open_read (ce_io A) (cl_disk a) path = Some content" "ascii content" "content \<noteq> []"
    and name: "path_filename path = name" "is_valid_filename name" "ascii name"
    and state: "get_filepath_by_name io (srv (rm_net s)) name = Inr p" "fs_files (srv (rm_net s)) p = None"
      "length content \<le> unat (fs_max_file_size (srv (rm_net s)))"
      "notified name s = None" "get_client_socket receiver (sv_clients s) = None"
  shows "\<exists>posted a' s'.
    send_file_chunks A path a = Some (Inr (), a') \<and> log a' = log a @ posted \<and>
    handle_texts E sock (map (\<lambda>t. t @ delimiter) posted) (announce_transfer name sender receiver s) = Some (Inr (), s') \<and>
    fs_files (srv (rm_net s')) p = Some content \<and>
    sent (sv_socks s') = sent (sv_socks s) @
      map (\<lambda>j. (sock, wire (json E) j)) (success_acks (json E) name 1 (length posted)) \<and>
    completed (upload_of name (sv_uploads s')) = (length content mod 512 \<noteq> 0) \<and>
    sv_pending s' = sv_pending s @ [\<lparr>pft_filename = name, pft_sender_id = sender, pft_receiver_id = receiver\<rparr>]"
proof -
  let ?J = "json E" and ?bodies = "file_bodies content" and ?s = "announce_transfer name sender receiver s"
  let ?posted = "map (printed ?J) (file_requests ?J name 1 ?bodies)"
  have laws: "json_laws ?J" "dump_laws ?J" using server(1) by simp_all
  have len: "length (file_requests ?J name n bs) = length bs" for n bs by (induction bs arbitrary: n) simp_all
  have "send_file_chunks A path a = send_chunk_loop A name 1 content a"
    using sender(5) name(1) by (simp add: send_file_chunks_def act_run)
  then obtain a' where a': "send_file_chunks A path a = Some (Inr (), a')" "log a' = log a @ ?posted"
    using send_loop [OF _ _ sender(2) name(3) sender(6,4), of 1] sender(1,3) laws by auto
  have empty: "contents p (srv (rm_net s)) = []" using state(2) by (simp add: contents_def)
  have sizes: "\<forall>b \<in> set ?bodies. length b \<le> 512"
    "length (contents p (srv (rm_net s))) + length (concat ?bodies) \<le> unat (fs_max_file_size (srv (rm_net s)))"
    using file_bodies_sizes [OF sender(7)] state(3) empty by auto
  note ready = announced_ready [where srv = srv and s = s and sender = sender and receiver = receiver, OF state(1) sizes]
  have "notified name ?s = None" "\<not> completed (upload_of name (sv_uploads ?s))"
    by (rule announced_notified [OF state(4,5)]) (simp add: announce_transfer_def upload_of_def)
  from server_stores_file [OF server name(2,3) sender(6,7) ready(1) this, of sock]
  obtain s' where s': "handle_texts E sock (map (wire ?J) (file_requests ?J name 1 ?bodies)) ?s = Some (Inr (), s')"
    "contents p (srv (rm_net s')) = content" "fs_files (srv (rm_net s')) p \<noteq> None"
    "sent (sv_socks s') = sent (sv_socks s) @
      map (\<lambda>j. (sock, wire ?J j)) (success_acks ?J name 1 (length ?bodies))"
    "sv_pending s' = sv_pending ?s" "completed (upload_of name (sv_uploads s')) = (length content mod 512 \<noteq> 0)"
    using ready(2,3) empty by auto
  have "handle_texts E sock (map (\<lambda>t. t @ delimiter) ?posted) ?s = Some (Inr (), s')"
    unfolding file_requests_printed [OF laws name(3) file_bodies_ascii [OF sender(6)]] by (rule s'(1))
  moreover have "length ?posted = length ?bodies" by (simp add: len)
  moreover have "fs_files (srv (rm_net s')) p = Some content" using s'(2,3) by (auto simp: contents_def)
  ultimately show ?thesis using a' s'(4-6) ready(4)
    by (intro exI [of _ ?posted] exI [of _ a'] exI [of _ s']) (simp del: map_map list.map_comp)
qed

theorem file_end_to_end_witness:
  "\<exists>posted a' s' p.
    send_file_chunks (example_env free_socket) ''files/ABCDEFGHIJKLMNOP.txt'' (journey_client ''hello'') = Some (Inr (), a') \<and>
    cl_posted a' = posted \<and>
    handle_texts example_services 4 (map (\<lambda>t. t @ delimiter) posted)
      (announce_transfer journey_name 5 8 (example_handler [(7, 3)])) = Some (Inr (), s') \<and>
    fs_files (fst (rm_net s')) p = Some ''hello''"
proof -
  let ?E = "example_env free_socket"
  have j: "ce_json ?E = json example_services" "wire_laws (json example_services)"
    by (simp_all add: journey_client_facts(2) journey_server(8) example_wire_laws)
  have hello: "ascii ''hello''" "''hello'' \<noteq> []"
    "length ''hello'' \<le> unat (fs_max_file_size (fst (rm_net (example_handler [(7, 3)]))))"
    by (simp_all add: journey_server(3))
  have nobody: "notified journey_name (example_handler [(7, 3)]) = None"
    "get_client_socket 8 (sv_clients (example_handler [(7, 3)])) = None"
    by (simp_all add: notified_def journey_server(4) example_handler_def get_client_socket_def)
  obtain posted a' s' where
    "send_file_chunks ?E ''files/ABCDEFGHIJKLMNOP.txt'' (journey_client ''hello'') = Some (Inr (), a')"
    "cl_posted a' = cl_posted (journey_client ''hello'') @ posted"
    "handle_texts example_services 4 (map (\<lambda>t. t @ delimiter) posted)
      (announce_transfer journey_name 5 8 (example_handler [(7, 3)])) = Some (Inr (), s')"
    "fs_files (fst (rm_net s')) (base (fs_storage_dir (fst (rm_net (example_handler [(7, 3)])))) @ ''AB/CD/ABCDEFGHIJKLMNOP.txt'') =
      Some ''hello''"
    using file_end_to_end [OF example_reliable j(2) example_uploads willing_example j(1) journey_client_facts(1,3,4,5)
        hello(1,2) journey_names journey_server(1,2) hello(3) nobody, of 4 5]
    by blast
  then show ?thesis
    by (intro exI [of _ posted] exI [of _ a'] exI [of _ s'] exI) (simp add: journey_client_facts(7))
qed

text \<open>
  C2: The last chunk of a file whose receiver is connected ends in undefined behaviour, after the
  delivery. For a valid transfer, whatever the file server gives back: the receiver is sent the
  notification and then what was downloaded, as numbered chunks with the last one marked; the
  transfer is no longer pending; and then the handler reads the erased transfer. The sender is not
  sent its acknowledgement before that.
\<close>

theorem delivery_undefined:
  assumes "reliable E sent" "wire_laws (json E)" "ascii name" "ascii z" "\<forall>c \<in> set chunks. ascii c"
    and "n = last_chunk_received (upload_of name (sv_uploads s)) + 1"
    and "List.find (\<lambda>t. pft_filename t = name) (sv_pending s) = Some t"
    and "get_client_socket (pft_receiver_id t) (sv_clients s) = Some rsock"
    and "upload_chunk (beast E) (rm_file_client s) name z (rm_net s) = (Inr True, n1)"
    and "download_file_chunks (beast E) (rm_file_client s) name n1 = Some (Inr chunks, n2)"
  shows "\<exists>s'. handle_text E sock (wire (json E) (chunk_request (json E) name z n True)) s =
      Some (Inl erased_transfer, s') \<and>
    sent (sv_socks s') = sent (sv_socks s) @ map (\<lambda>j. (rsock, wire (json E) j))
      (notification_json (json E) name (pft_sender_id t) # chunk_messages (json E) name 0 chunks) \<and>
    sv_pending s' = remove1 t (sv_pending s)"
proof -
  have laws: "json_laws (json E)" "dump_laws (json E)" using assms(1) by simp_all
  have "notified name s = Some (t, rsock)" using assms(7,8) by (simp add: notified_Some)
  from receive_last_chunk [OF assms(1,3,5,6) this assms(9,10)]
  obtain s' where s': "receive_chunk E name z n True s = Some (Inl erased_transfer, s')"
    "sent (sv_socks s') = sent (sv_socks s) @ map (\<lambda>j. (rsock, wire (json E) j))
      (notification_json (json E) name (pft_sender_id t) # chunk_messages (json E) name 0 chunks)"
    "sv_pending s' = remove1 t (sv_pending s)" by blast
  have "dispatch E sock (chunk_request (json E) name z n True) s = Some (Inl erased_transfer, s')"
    unfolding dispatch_chunk [OF laws(1)] using s'(1) by (simp add: act_run)
  moreover have "parse_json (json E) (first_line (wire (json E) (chunk_request (json E) name z n True))) =
      Inr (chunk_request (json E) name z n True)"
    by (rule first_line_wire [OF assms(2) laws(2) chunk_request_plain [OF laws(1) assms(3,4)]])
  ultimately show ?thesis using s' by (simp add: handle_text_def act_run erased_transfer_def)
qed

text \<open>The network in memory, with the file that is to be delivered.\<close>

lemma loop_download_short:
  assumes "get_filepath_by_name willing_io (fst n) name = Inr p" "fs_files (fst n) p = Some content"
    and "content \<noteq> []" "length content < 512"
  shows "\<exists>n'. download_file_chunks (loop_network willing_io) c name n = Some (Inr [content], n')"
proof -
  have "read_chunks content = [content]" using assms(4) by (simp add: read_chunks_unfold(1))
  then have "download_file willing_io name (fst n) = (Inr (), [(Ok_code, content)], get_or_create_mutex p (fst n))"
    using assms(1,2) willing_example by (simp add: download_file_def willing_def)
  then have "http_write (loop_network willing_io) \<lparr>rq_method = Get_verb, rq_target = ''/download/'' @ name,
      rq_fields = hs, rq_body = []\<rparr> n = (Inr (), (get_or_create_mutex p (fst n), [content]))" for hs
    by (simp add: loop_network_def loop_write_def)
  moreover have "download_loop (loop_network willing_io) [] [] [] (f, [content]) = Some ([content], Inr (), (f, []))" for f
    using assms(3) by (subst download_loop.simps, simp add: loop_network_def Let_def, subst download_loop.simps) simp
  ultimately show ?thesis
    by (simp add: download_file_chunks_def) (simp add: loop_network_def)
qed

theorem delivery_undefined_witness:
  "\<exists>s s'. handle_text example_services 4
      (wire example_json (chunk_request example_json ''ABCDEFGHIJKLMNOP.txt'' ''hello'' 1 True)) s = Some (Inl erased_transfer, s') \<and>
    length (sv_pending s) = 1 \<and> sv_pending s' = [] \<and>
    map fst (sv_socks s') = [3, 3]"
proof -
  let ?f = "''ABCDEFGHIJKLMNOP.txt''" and ?E = example_services
  define t where "t = \<lparr>pft_filename = ?f, pft_sender_id = 5, pft_receiver_id = 7\<rparr>"
  define s where "s = announce_transfer ?f 5 7 (example_handler [(7, 3)])"
  define fs where "fs = file_server_new ''media'' 1000 (\<lambda>_. None)"
  let ?p = "base (fs_storage_dir fs) @ ''AB/CD/ABCDEFGHIJKLMNOP.txt''"
  have s: "sv_pending s = [t]" "sv_socks s = []" "rm_net s = (fs, [])" "rm_file_client s = file_client_new ''localhost'' ''9080''"
    "get_client_socket (pft_receiver_id t) (sv_clients s) = Some 3" "List.find (\<lambda>t. pft_filename t = ?f) (sv_pending s) = Some t"
    "1 = last_chunk_received (upload_of ?f (sv_uploads s)) + 1"
    by (simp_all add: s_def t_def fs_def announce_transfer_def example_handler_def get_client_socket_def upload_of_def)
  have path: "get_filepath_by_name willing_io fs ?f = Inr ?p" unfolding fs_def by (rule example_path)
  have "contents ?p fs = []" "unat (fs_max_file_size fs) = 1000" by (simp_all add: fs_def file_server_new_def contents_def)
  then have up: "upload_file willing_io ?f ''hello'' (fst (fs, [] :: string list)) =
      (Inr (), [(Ok_code, ''File uploaded successfully'')], append_to ?p ''hello'' (get_or_create_mutex ?p fs))"
    unfolding fst_conv using path by (intro upload_file_accepts willing_example valid_example) simp_all
  obtain n1 where n1: "upload_chunk (beast ?E) (rm_file_client s) ?f ''hello'' (rm_net s) = (Inr True, n1)"
    "fst n1 = append_to ?p ''hello'' (get_or_create_mutex ?p fs)"
    using upload_chunk_through [OF example_uploads valid_example _ up, of "rm_file_client s"] s(3) by auto
  have "get_filepath_by_name willing_io (fst n1) ?f = Inr ?p" "fs_files (fst n1) ?p = Some ''hello''"
    using path \<open>contents ?p fs = []\<close> unfolding n1(2) by (simp_all add: append_to_def contents_def get_or_create_mutex_def)
  then have "\<exists>n2. download_file_chunks (loop_network willing_io) (rm_file_client s) ?f n1 = Some (Inr [''hello''], n2)"
    by (rule loop_download_short) simp_all
  then obtain n2 where n2: "download_file_chunks (beast ?E) (rm_file_client s) ?f n1 = Some (Inr [''hello''], n2)"
    unfolding example_services_def services.simps by blast
  have ascii: "ascii ?f" "ascii ''hello''" "\<forall>c \<in> set [''hello'']. ascii c" by simp_all
  have wire: "wire_laws (json ?E)" "json ?E = example_json" by (simp_all add: example_services_def example_wire_laws)
  from delivery_undefined [OF example_reliable wire(1) ascii s(7,6,5) n1(1) n2, of 4] obtain s' where
    "handle_text ?E 4 (wire example_json (chunk_request example_json ?f ''hello'' 1 True)) s = Some (Inl erased_transfer, s')"
    "sv_socks s' = sv_socks s @ map (\<lambda>j. (3, wire example_json j))
      (notification_json example_json ?f (pft_sender_id t) # chunk_messages example_json ?f 0 [''hello''])"
    "sv_pending s' = remove1 t (sv_pending s)" unfolding wire(2) by blast
  then show ?thesis using s(1,2) by (intro exI [of _ s] exI [of _ s']) simp
qed

text \<open>
  C21: A file whose size is a multiple of 512 never arrives. The sender marks no chunk as the last
  one; the server stores every chunk and acknowledges it with success, but writes nothing to the
  receiver and keeps the transfer pending.
\<close>

theorem full_chunks_stall:
  fixes E :: "('d, 'j, 'n, 'w) services" and A :: "('j, 'v) client_env"
  assumes server: "reliable E sent" "wire_laws (json E)" "http_uploads (beast E) io srv" "willing io"
    and sender: "ce_json A = json E" "waits_ok A log" "\<And>c. cl_chunk_acknowledged (ce_meanwhile A c)" "is_connected A a"
      "open_read (ce_io A) (cl_disk a) path = Some content" "ascii content" "content \<noteq> []" "length content mod 512 = 0"
    and name: "path_filename path = name" "is_valid_filename name" "ascii name"
    and state: "get_filepath_by_name io (srv (rm_net s)) name = Inr p" "fs_files (srv (rm_net s)) p = None"
      "length content \<le> unat (fs_max_file_size (srv (rm_net s)))"
      "List.find (\<lambda>t. pft_filename t = name) (sv_pending s) = None"
      "get_client_socket receiver (sv_clients s) = Some rsock"
  shows "\<exists>posted a' s'. send_file_chunks A path a = Some (Inr (), a') \<and> log a' = log a @ posted \<and> posted \<noteq> [] \<and>
    handle_texts E sock (map (\<lambda>t. t @ delimiter) posted) (announce_transfer name sender receiver s) = Some (Inr (), s') \<and>
    contents p (srv (rm_net s')) = content \<and>
    sent (sv_socks s') = sent (sv_socks s) @
      map (\<lambda>j. (sock, wire (json E) j)) (success_acks (json E) name 1 (length posted)) \<and>
    sv_pending s' = sv_pending s @ [\<lparr>pft_filename = name, pft_sender_id = sender, pft_receiver_id = receiver\<rparr>]"
proof -
  let ?J = "json E" and ?bodies = "file_bodies content"
  let ?posted = "map (printed ?J) (file_requests ?J name 1 ?bodies)"
  have laws: "json_laws ?J" "dump_laws ?J" using server(1) by simp_all
  have asc: "\<forall>b \<in> set ?bodies. ascii b" by (rule file_bodies_ascii [OF sender(6)])
  have len: "length (file_requests ?J name n bs) = length bs" for n bs by (induction bs arbitrary: n) simp_all
  have "send_file_chunks A path a = send_chunk_loop A name 1 content a"
    using sender(5) name(1) by (simp add: send_file_chunks_def act_run)
  then obtain a' where a': "send_file_chunks A path a = Some (Inr (), a')" "log a' = log a @ ?posted"
    using send_loop [OF _ _ sender(2) name(3) sender(6,4), of 1] sender(1,3) laws by auto
  have sizes: "\<forall>b \<in> set ?bodies. length b = 512" "?bodies \<noteq> []"
    using file_bodies_sizes [OF sender(7)] sender(8) by (auto simp: le_less)
  have full: "\<forall>b \<in> set ?bodies. length b = 512 \<and> ascii b" using sizes(1) asc by blast
  have empty: "contents p (srv (rm_net s)) = []" using state(2) by (simp add: contents_def)
  have small: "\<forall>b \<in> set (?bodies @ []). length b \<le> 512"
    "length (contents p (srv (rm_net s))) + length (concat (?bodies @ [])) \<le> unat (fs_max_file_size (srv (rm_net s)))"
    using sizes(1) state(3) empty by simp_all
  note ready = announced_ready [where srv = srv and s = s and sender = sender and receiver = receiver, OF state(1) small]
  let ?s = "announce_transfer name sender receiver s"
  obtain s' where s': "handle_texts E sock (map (wire ?J) (file_requests ?J name 1 ?bodies)) ?s = Some (Inr (), s')"
    "contents p (srv (rm_net s')) = contents p (srv (rm_net ?s)) @ concat ?bodies"
    "sent (sv_socks s') = sent (sv_socks ?s) @ map (\<lambda>j. (sock, wire ?J j)) (success_acks ?J name 1 (length ?bodies))"
    "sv_pending s' = sv_pending ?s"
    using full_chunks_stored [OF server(1-4) name(2,3) full ready(1)] by blast
  have "handle_texts E sock (map (\<lambda>t. t @ delimiter) ?posted) ?s = Some (Inr (), s')"
    unfolding file_requests_printed [OF laws name(3) asc] by (rule s'(1))
  moreover have "?posted \<noteq> []" using sizes(2) len [of 1 ?bodies] by (cases ?bodies) simp_all
  moreover have "length ?posted = length ?bodies" by (simp add: len)
  ultimately show ?thesis
    using a' s'(2-4) empty ready(2-4) by (intro exI [of _ ?posted] exI [of _ a'] exI [of _ s']) (simp del: map_map)
qed

theorem full_chunks_stall_witness:
  "\<exists>posted a' s'.
    send_file_chunks (example_env free_socket) ''files/ABCDEFGHIJKLMNOP.txt'' (journey_client (replicate 512 CHR ''x'')) =
      Some (Inr (), a') \<and>
    cl_posted a' = posted \<and>
    handle_texts example_services 4 (map (\<lambda>t. t @ delimiter) posted)
      (announce_transfer journey_name 5 7 (example_handler [(7, 3)])) = Some (Inr (), s') \<and>
    sv_socks s' = map (\<lambda>j. (4, wire example_json j)) (success_acks example_json journey_name 1 (length posted)) \<and>
    length (sv_pending s') = 1"
proof -
  let ?E = "example_env free_socket" and ?c = "replicate 512 (CHR ''x'')"
  have j: "ce_json ?E = json example_services" "wire_laws (json example_services)"
    by (simp_all add: journey_client_facts(2) journey_server(8) example_wire_laws)
  have c: "ascii ?c" "?c \<noteq> []" "length ?c mod 512 = 0"
    "length ?c \<le> unat (fs_max_file_size (fst (rm_net (example_handler [(7, 3)]))))"
    by (simp_all add: journey_server(3) ascii_def)
  obtain posted a' s' where
    "send_file_chunks ?E ''files/ABCDEFGHIJKLMNOP.txt'' (journey_client ?c) = Some (Inr (), a')"
    "cl_posted a' = cl_posted (journey_client ?c) @ posted"
    "handle_texts example_services 4 (map (\<lambda>t. t @ delimiter) posted)
      (announce_transfer journey_name 5 7 (example_handler [(7, 3)])) = Some (Inr (), s')"
    "sv_socks s' = sv_socks (example_handler [(7, 3)]) @
      map (\<lambda>j. (4, wire (json example_services) j)) (success_acks (json example_services) journey_name 1 (length posted))"
    "sv_pending s' = sv_pending (example_handler [(7, 3)]) @ [\<lparr>pft_filename = journey_name, pft_sender_id = 5, pft_receiver_id = 7\<rparr>]"
    using full_chunks_stall [OF example_reliable j(2) example_uploads willing_example j(1) journey_client_facts(1,3,4,5)
        c(1-3) journey_names journey_server(1,2) c(4) journey_server(4,6), of 4 5]
    by blast
  then show ?thesis
    by (intro exI [of _ posted] exI [of _ a'] exI [of _ s'])
      (simp add: journey_client_facts(7) journey_server(5,7,8))
qed

end
