(* ===== verification/Key_Exchange.thy ===== *)
theory Key_Exchange
  imports Client_Async
begin

text \<open>
  The exchange of AES keys between two clients through the server: \<open>send_aes_key\<close> of
  \<open>client/src/client.cpp\<close>, \<open>handle_send_aes_key\<close> of \<open>server/src/request_handler.cpp\<close>, and the handlers
  of the receiving client.
\<close>

section \<open>The receiving client\<close>

text \<open>A json value equals at most one string.\<close>

definition one_string :: "'j json_ops \<Rightarrow> bool" where
  "one_string J \<longleftrightarrow> (\<forall>v a b. equals_string J v a \<and> equals_string J v b \<longrightarrow> a = b)"

lemma never_success:
  assumes "one_string (ce_json E)" "value_at (ce_json E) message ''type'' = Inr v"
    and "equals_string (ce_json E) v name" "name \<noteq> ''success''"
  shows "type_is_success E message \<noteq> Inr True"
  using assms unfolding one_string_def
  by (auto simp: type_is_success_def value_at_def const_at_def rbind_Inr_iff split: if_splits option.splits)

lemma key_handlers_idle:
  assumes "type_is_success E message \<noteq> Inr True"
  shows "\<exists>r. handle_receive_user_public_keys E message s = Some (r, s)"
    "\<exists>r. handle_receive_aes_key E message s = Some (r, s)"
proof -
  have "\<exists>r. act_bind (act_lift (type_is_success E message)) (\<lambda>b. if b then m else act_return ()) s = Some (r, s)"
    for m :: "('b, unit) client_action" and s
    using assms by (cases "type_is_success E message") (auto simp: act_run)
  then show "\<exists>r. handle_receive_user_public_keys E message s = Some (r, s)"
    "\<exists>r. handle_receive_aes_key E message s = Some (r, s)"
    unfolding handle_receive_user_public_keys_def handle_receive_aes_key_def by blast+
qed

lemma idle_keeps: "(\<And>s. \<exists>r. m s = Some (r, s)) \<Longrightarrow> keeps I m"
  unfolding keeps_def by (metis option.inject prod.inject)

abbreviation keys_are :: "key_set \<Rightarrow> 'w client \<Rightarrow> bool" where
  "keys_are ks s \<equiv> cl_keys s = ks"

lemma async_write_keys: "keeps (keys_are ks) (async_write E m)"
  unfolding async_write_def by (rule keeps_modify) simp

lemma other_handlers_keys:
  "keeps (keys_are ks) (handle_chunk_acknowledgment E message)"
  "keeps (keys_are ks) (handle_incoming_file E message)"
  "keeps (keys_are ks) (handle_incoming_file_chunk E message)"
  unfolding handle_chunk_acknowledgment_def handle_incoming_file_def handle_incoming_file_chunk_def Let_def
  by (intro keeps_intros async_write_keys keeps_modify; simp)+

lemma dispatch_keys:
  assumes "one_string (ce_json E)"
  shows "keeps (keys_are ks) (dispatch_message E message)"
proof (cases "value_at (ce_json E) message ''type''")
  case (Inl e)
  then show ?thesis by (simp add: keeps_def dispatch_message_def act_run)
next
  case (Inr v)
  let ?is = "equals_string (ce_json E) v"
  have idle: "keeps (keys_are ks) (handle_receive_user_public_keys E message)"
    if "?is ''receive_user_public_keys''"
    by (intro idle_keeps key_handlers_idle(1) never_success [OF assms Inr that]) simp
  have idle': "keeps (keys_are ks) (handle_receive_aes_key E message)" if "?is ''receive_aes_key''"
    by (intro idle_keeps key_handlers_idle(2) never_success [OF assms Inr that]) simp
  let ?act = "(if ?is ''chunk_acknowledgment'' then handle_chunk_acknowledgment E message
       else if ?is ''incoming_file'' then handle_incoming_file E message
       else if ?is ''file_chunk'' then handle_incoming_file_chunk E message
       else if ?is ''receive_user_public_keys'' then handle_receive_user_public_keys E message
       else if ?is ''receive_aes_key'' then handle_receive_aes_key E message
       else act_return ())"
  have "dispatch_message E message = ?act"
    by (rule ext) (simp only: dispatch_message_def Inr act_bind_direct Let_def)
  moreover have "keeps (keys_are ks) ?act"
    by (intro keeps_if other_handlers_keys idle idle' keeps_basic)
  ultimately show ?thesis by (simp only:)
qed

lemma process_keys:
  assumes "one_string (ce_json E)" "process_server_message E t s = Some (r, s')"
  shows "cl_keys s' = cl_keys s"
  using keepsD [OF keeps_process [OF dispatch_keys [OF assms(1), of "cl_keys s"]] assms(2)] by simp

section \<open>The sending client and the server\<close>

lemma client_new_aes: "client_new E b address port nick w ls disk k = ret c \<Longrightarrow> hybrid_aes (cl_hybrid c) = None"
  by (auto simp: client_new_def cbind_ret_iff Let_def dest!: hybrid_new_parts(1))

lemma send_aes_key_undefined:
  assumes "hybrid_aes (cl_hybrid c) = None"
  shows "send_aes_key E friend key c = Some (Inl (Undefined_behaviour ''null _aes dereferenced''), c)"
  using assms by (simp add: send_aes_key_def act_run with_draws_def encrypt_message_def throw_def)

lemma server_reads_no_signature:
  assumes "json_laws (json E)"
  shows "\<exists>m. dispatch E sock (aes_key_request (json E) i friend c1_text c2_text r_text s_text) s =
    Some (Inl (Undefined_behaviour m), s)"
  using assms
  by (simp add: dispatch_def contains_def is_request_def aes_key_request_def handle_send_aes_key_def
      json_simps read_int_def read_string_def act_run const_at_def)

section \<open>Properties\<close>

text \<open>
  C24: No AES key is ever exchanged. A constructed client that sends one dereferences a null pointer
  before anything is written; the request that it would send makes the server read a field that
  the request does not have, before anything is looked up or forwarded; and no message that a client
  processes changes the keys it has stored.
\<close>

theorem no_key_exchange:
  assumes "client_new A b address port nick w ls disk k = ret c" "json_laws (json E)"
    and "one_string (ce_json B)" "process_server_message B t d = Some (q, d')"
  shows "(\<exists>m. send_aes_key A friend key c = Some (Inl (Undefined_behaviour m), c)) \<and>
    (\<exists>m. dispatch E sock (aes_key_request (json E) i friend c1_text c2_text r_text s_text) s =
      Some (Inl (Undefined_behaviour m), s)) \<and>
    cl_keys d' = cl_keys d"
  using send_aes_key_undefined [OF client_new_aes [OF assms(1)]] server_reads_no_signature [OF assms(2)]
    process_keys [OF assms(3,4)]
  by blast

theorem no_key_exchange_witness:
  "\<exists>c d'. client_new (example_env free_socket) True ''localhost'' 55555 ''ann'' [] [] Map.empty 0 = ret c \<and>
    (\<exists>m. send_aes_key (example_env free_socket) ''bob'' ''11'' c = Some (Inl (Undefined_behaviour m), c)) \<and>
    process_server_message (example_env free_socket) ''no json'' (example_client [] []) = Some (Inr (), d') \<and>
    cl_keys d' = []"
proof -
  let ?E = "example_env free_socket"
  let ?S = "\<lparr>pg = example_pg, json = example_json, hex = example_hex, beast = \<lparr>http_connect = \<lambda>_ _ n. (Inr (), n),
      http_write = \<lambda>_ n. (Inr (), n), http_read = \<lambda>buffer body n. (Inl End_of_stream, buffer, n), http_shutdown = \<lambda>n. (None, n),
      what = \<lambda>_. [], beast_version = []\<rparr>, socks = \<lparr>sock_write = \<lambda>_ _ w. (Inr (), w),
      sock_read_until = \<lambda>_ w. (([], None), w)\<rparr>, clock = 0\<rparr> :: (tables, jval, unit, unit) services"
  have new: "\<exists>c. client_new ?E True ''localhost'' 55555 ''ann'' [] [] Map.empty 0 = ret c"
    using example_hybrid_new
    by (simp add: client_new_def example_env_def load_user_data_from_json_def open_read_def Let_def)
  then obtain c where c: "client_new ?E True ''localhost'' 55555 ''ann'' [] [] Map.empty 0 = ret c" by blast
  have one: "one_string (ce_json ?E)" by (auto simp: one_string_def example_env_def example_json_def)
  have parse: "process_server_message ?E ''no json'' (example_client [] []) = Some (Inr (), example_client [] [])"
    by (simp add: process_server_message_def example_env_def example_json_def jparse_def act_run)
  have laws: "json_laws (json ?S)" by (simp add: example_json_laws)
  from no_key_exchange [OF c laws one parse, of "''bob''" "''11''"] c parse show ?thesis
    by (intro exI [of _ c] exI [of _ "example_client [] []"]) (simp add: example_client_def)
qed

end
