(* ===== verification/Login.thy ===== *)
theory Login
  imports End_To_End
begin

text \<open>
  The blocking phase of a client together with the server: \<open>register_user\<close> and \<open>authorize_user\<close> of
  \<open>client/src/client.cpp\<close>, each a request and its answer, against \<open>handle_request\<close> of
  \<open>server/src/request_handler.cpp\<close> and the user database behind it.
\<close>

section \<open>Request and answer\<close>

text \<open>
  What the client relies on: a request that is written is answered, and the answer is what the next
  read gives.
\<close>

locale answering_server =
  fixes S :: "'w client_socket" and answers :: "string \<Rightarrow> 'w \<Rightarrow> string \<Rightarrow> 'w \<Rightarrow> bool"
  assumes answered:
    "answers t w a w' \<Longrightarrow> \<exists>w1. cs_write S t w = (Inr (), w1) \<and> cs_read_until S w1 = ((a, None), w')"
begin

lemma ask:
  assumes "ce_socket C = S" "dump_json (ce_json C) request = Inr t" "answers (t @ delimiter) (cl_net c) a w'"
  shows "act_bind (send_json C request) (\<lambda>_. act_bind (receive_response C) f) c = f a (c\<lparr>cl_net := w'\<rparr>)"
proof -
  obtain w1 where "cs_write S (t @ delimiter) (cl_net c) = (Inr (), w1)" "cs_read_until S w1 = ((a, None), w')"
    using answered [OF assms(3)] by blast
  then show ?thesis using assms(1,2)
    by (simp add: send_json_def send_message_def blocking_write_def receive_response_def act_run)
qed

lemma register_answered:
  fixes C :: "('j, 'w) client_env"
  defines "J \<equiv> ce_json C"
  assumes C: "ce_socket C = S" and c: "cl_input c = pass # ls"
    and keys: "cpp_int_to_hex (ce_hex C) (get_el_gamal_key (cl_hybrid c)) = Inr ke"
      "cpp_int_to_hex (ce_hex C) (get_dsa_key (cl_hybrid c)) = Inr kd"
    and t: "dump_json J (register_request J (user_get_nickname (cl_user c)) pass ke kd) = Inr t"
    and a: "answers (t @ delimiter) (cl_net c) a w'" "parse_json J a = Inr response"
      "value_at J response ''status'' = Inr status"
  shows "register_user C c =
    (if equals_string J status ''success''
     then registered C (user_get_nickname (cl_user c)) pass response (c\<lparr>cl_input := ls, cl_net := w'\<rparr>)
     else Some (Inr (), c\<lparr>cl_input := ls, cl_net := w'\<rparr>))"
proof -
  have line: "get_line c = Some (Inr pass, c\<lparr>cl_input := ls\<rparr>)" using c by (simp add: get_line_def)
  have a': "answers (t @ delimiter) (cl_net (c\<lparr>cl_input := ls\<rparr>)) a w'" using a(1) by simp
  show ?thesis
    using keys a(2,3) unfolding register_user_def J_def
    by (simp add: act_run line ask [OF C t [unfolded J_def] a'])
qed

lemma authorize_answered:
  fixes C :: "('j, 'w) client_env"
  defines "J \<equiv> ce_json C"
  assumes C: "ce_socket C = S" and c: "cl_input c = pass # ls"
    and t: "dump_json J (authorize_request J (user_get_id (cl_user c)) (user_get_nickname (cl_user c)) pass) = Inr t"
    and a: "answers (t @ delimiter) (cl_net c) a w'" "parse_json J a = Inr response"
      "value_at J response ''status'' = Inr status"
  shows "client_authorize_user C c =
    (if equals_string J status ''success''
     then act_catch (save_user C) (act_return ()) (c\<lparr>cl_input := ls, cl_net := w', cl_authorized := True\<rparr>)
     else Some (Inr (), c\<lparr>cl_input := ls, cl_net := w'\<rparr>))"
proof -
  have line: "get_line c = Some (Inr pass, c\<lparr>cl_input := ls\<rparr>)" using c by (simp add: get_line_def)
  have a': "answers (t @ delimiter) (cl_net (c\<lparr>cl_input := ls\<rparr>)) a w'" using a(1) by simp
  show ?thesis
    using a(2,3) unfolding client_authorize_user_def J_def
    by (simp add: act_run line act_catch_def ask [OF C t [unfolded J_def] a'])
qed

end

text \<open>
  The connection of one client with the server, over the server's own state: writing a request runs
  its handler, and the texts that the handlers wrote to the socket of the client wait in the
  record of what was written until the client reads them.
\<close>

fun take_mail :: "socket \<Rightarrow> (socket \<times> string) list \<Rightarrow> (string \<times> (socket \<times> string) list) option" where
  "take_mail sock [] = None"
| "take_mail sock ((k, t) # mail) =
     (if k = sock then Some (t, mail)
      else case take_mail sock mail of None \<Rightarrow> None | Some (t', mail') \<Rightarrow> Some (t', (k, t) # mail'))"

definition server_link ::
    "('d, 'j, 'n, (socket \<times> string) list) services \<Rightarrow> socket \<Rightarrow>
      ('d, 'n, (socket \<times> string) list) handler client_socket" where
  "server_link E sock =
     \<lparr>cs_connect = (\<lambda>_ _ w. (Inr (), w)),
      cs_write = (\<lambda>t w. case handle_text E sock t w of Some (_, w') \<Rightarrow> (Inr (), w') | None \<Rightarrow> (Inr (), w)),
      cs_read_until = (\<lambda>w. case take_mail sock (sv_socks w) of
          None \<Rightarrow> (([], Some Eof), w)
        | Some (t, mail) \<Rightarrow> ((t, None), w\<lparr>sv_socks := mail\<rparr>)),
      cs_is_open = (\<lambda>_. True)\<rparr>"

definition server_answers ::
    "('d, 'j, 'n, (socket \<times> string) list) services \<Rightarrow> socket \<Rightarrow> string \<Rightarrow>
      ('d, 'n, (socket \<times> string) list) handler \<Rightarrow> string \<Rightarrow> ('d, 'n, (socket \<times> string) list) handler \<Rightarrow> bool" where
  "server_answers E sock t w a w' \<longleftrightarrow>
     (\<exists>r w1 mail. handle_text E sock t w = Some (r, w1) \<and> take_mail sock (sv_socks w1) = Some (a, mail) \<and>
       w' = w1\<lparr>sv_socks := mail\<rparr>)"

interpretation link: answering_server "server_link E sock" "server_answers E sock" for E sock
  by unfold_locales (auto simp: server_answers_def server_link_def)

lemma take_mail_fresh: "sock \<notin> fst ` set mail \<Longrightarrow> take_mail sock (mail @ (sock, t) # more_mail) = Some (t, mail @ more_mail)"
  by (induction mail) auto

text \<open>One request with one answer, through the printed texts.\<close>

lemma link_answers:
  assumes "socks E = recording_socks" "wire_laws (json E)" "dump_laws (json E)" "plain (json E) request"
    and "dispatch E sock request w = Some (Inr (), w1)"
    and "sv_socks w1 = sv_socks w @ [(sock, a)]" "sock \<notin> fst ` set (sv_socks w)"
  shows "server_answers E sock (wire (json E) request) w a (w1\<lparr>sv_socks := sv_socks w\<rparr>)"
  using handle_wire [OF assms(2-5)] take_mail_fresh [OF assms(7), of a "[]"] assms(6)
  by (auto simp: server_answers_def)

section \<open>The server's side\<close>

definition register_answer :: "'j json_ops \<Rightarrow> i32 \<Rightarrow> 'j" where
  "register_answer J i =
     (if i \<noteq> 0
      then put_int J ''user_id'' i (status_json J ''success'' ''User registered successfully'' (null_json J))
      else error_json J ''Failed to register user'')"

definition authorize_answer :: "'j json_ops \<Rightarrow> bool \<Rightarrow> 'j" where
  "authorize_answer J ok =
     (if ok then status_json J ''success'' ''Authorization successful'' (null_json J)
      else error_json J ''Authorization failed: Invalid credentials'')"

lemma status_json_plain: "json_laws J \<Longrightarrow> ascii a \<Longrightarrow> ascii b \<Longrightarrow> plain J (status_json J a b (null_json J))"
  unfolding status_json_def by (intro plain_field plain_start plain_value.intros) simp_all

lemma answers_plain:
  "json_laws J \<Longrightarrow> plain J (register_answer J i)" "json_laws J \<Longrightarrow> plain J (authorize_answer J ok)"
proof -
  assume J: "json_laws J"
  have status: "plain J (status_json J a b (null_json J))" if "ascii a" "ascii b" for a b
    by (rule status_json_plain [OF J that])
  show "plain J (register_answer J i)"
    unfolding register_answer_def error_json_def
    by (simp only: if_split) (intro conjI impI plain_field [OF J] status plain_value.intros; simp)
  show "plain J (authorize_answer J ok)"
    unfolding authorize_answer_def error_json_def by (simp only: if_split) (intro conjI impI status; simp)
qed

lemma recording_sends: "sends_all recording_socks (\<lambda>w. w)"
  by (simp add: sends_all_def recording_socks_def)

lemma recording_reliable:
  "socks E = recording_socks \<Longrightarrow> json_laws (json E) \<Longrightarrow> dump_laws (json E) \<Longrightarrow> reliable E (\<lambda>w. w)"
  using recording_sends unfolding reliable_def by metis

lemma server_registers:
  assumes rel: "reliable E sent" and laws: "pg_user_laws (pg E) users keys"
    and conn: "rm_connections w ''user_metadata_db'' = Some d"
  shows "\<exists>i w' d'. dispatch E sock (register_request (json E) nick pass ke kd) w = Some (Inr (), w') \<and>
    sent (sv_socks w') = sent (sv_socks w) @ [(sock, wire (json E) (register_answer (json E) i))] \<and>
    rm_connections w' ''user_metadata_db'' = Some d' \<and> sv_clients w' = sv_clients w \<and>
    fst (user_create (pg E) (fst (user_new (clock E) (sv_user_counter w) nick pass)) d) = Inr i \<and>
    (if i = 0 then keys d' = keys d \<and> (users d' = users d \<or> commit_fails (pg E) d \<and>
       (\<exists>row. users d' = users d @ [row] \<and> row_nickname row = nick \<and> row_password row = pass))
     else \<exists>row. users d' = users d @ [row] \<and> row_id row = i \<and> row_nickname row = nick \<and> row_password row = pass)"
proof -
  let ?J = "json E"
  note J = reliable_laws(1) [OF rel]
  obtain u where u: "user_new (clock E) (sv_user_counter w) nick pass = (u, sv_user_counter w + 1)"
    "nickname u = nick" "password u = pass"
    by (simp add: user_new_def)
  obtain i d1 where create: "user_create (pg E) u d = (Inr i, d1)" "keys d1 = keys d"
    "if i = 0 then users d1 = users d \<or>
       commit_fails (pg E) d \<and> (\<exists>i0 row. i0 \<noteq> 0 \<and> row_of i0 u row \<and> users d1 = users d @ [row])
     else \<exists>row. row_of i u row \<and> users d1 = users d @ [row]"
    using user_create_spec [OF laws, of u d] by blast
  obtain b d2 where stored: "user_set_public_keys (pg E) (clock E) i ke kd d1 = (Inr b, d2)" "users d2 = users d1"
    "keys d2 = keys d1 \<or>
      (\<exists>n t. keys d2 = keys d1 @ [\<lparr>keys_id = n, keys_user = i, keys_dsa = kd, keys_el_gamal = ke, keys_created = t\<rparr>])"
    using user_set_public_keys_spec [OF laws, of "clock E" i ke kd d1] by blast
  have unstored: "keys d2 = keys d1" if "i = 0"
    using tables_always [OF laws, of d2] stored(3) that by (auto simp: tables_ok_def)
  let ?w1 = "w\<lparr>sv_user_counter := sv_user_counter w + 1,
    rm_connections := (rm_connections w)(''user_metadata_db'' \<mapsto> d2)\<rparr>"
  obtain m where m: "write_json E sock (register_answer ?J i) ?w1 = Some (Inr (), ?w1\<lparr>sv_socks := m\<rparr>)"
    "sent m = sent (sv_socks w) @ [(sock, wire ?J (register_answer ?J i))]"
    using write_json_plain [OF rel answers_plain(1) [OF J], of sock i ?w1] by auto
  have fields: "read_string ?J (register_request ?J nick pass ke kd) ''nickname'' = Inr nick"
    "read_string ?J (register_request ?J nick pass ke kd) ''password'' = Inr pass"
    "read_string ?J (register_request ?J nick pass ke kd) ''el_gamal_public_key'' = Inr ke"
    "read_string ?J (register_request ?J nick pass ke kd) ''dsa_public_key'' = Inr kd"
    using J by (simp_all add: register_request_def read_string_def json_simps)
  have kind: "contains ?J (register_request ?J nick pass ke kd) ''type''"
    "is_request ?J (register_request ?J nick pass ke kd) ''register''"
    using J by (simp_all add: register_request_def contains_def is_request_def json_simps)
  have "dispatch E sock (register_request ?J nick pass ke kd) w = Some (Inr (), ?w1\<lparr>sv_socks := m\<rparr>)"
    using kind fields conn create(1) stored(1) m(1) u(1)
    by (simp add: dispatch_def handle_register_def act_run create_user_def set_public_keys_def register_answer_def)
  moreover have "row_nickname row = nick \<and> row_password row = pass" if "row_of j u row" for j row
    using that u by (simp add: row_of_def)
  ultimately show ?thesis
    using m(2) create stored(2) unstored u(1)
    by (intro exI [of _ i] exI [of _ "?w1\<lparr>sv_socks := m\<rparr>"] exI [of _ d2]) (auto simp: row_of_def)
qed

lemma server_authorizes:
  assumes rel: "reliable E sent" and laws: "pg_user_laws (pg E) users keys"
    and conn: "rm_connections w ''user_metadata_db'' = Some d"
  shows "\<exists>b w' d'. dispatch E sock (authorize_request (json E) i nick pass) w = Some (Inr (), w') \<and>
    sent (sv_socks w') = sent (sv_socks w) @ [(sock, wire (json E) (authorize_answer (json E) b))] \<and>
    rm_connections w' ''user_metadata_db'' = Some d' \<and> users d' = users d \<and> keys d' = keys d \<and>
    sv_clients w' = (if b then add_client i sock (sv_clients w) else sv_clients w) \<and>
    (b \<longrightarrow> (\<exists>u \<in> set (users d). row_id u = i \<and> row_nickname u = nick \<and> row_password u = pass)) \<and>
    ((\<exists>r d1. exec_params (pg E) d authorize_sql [PInt i, PText nick] = (Inr r, d1)) \<longrightarrow>
      b = (\<exists>u \<in> set (users d). row_id u = i \<and> row_nickname u = nick \<and> row_password u = pass))"
proof -
  let ?J = "json E"
  note J = reliable_laws(1) [OF rel]
  obtain b d' where auth: "user_authorize (pg E) ?J i nick pass d = (Inr b, d')" "users d' = users d" "keys d' = keys d"
    "b \<longrightarrow> (\<exists>u \<in> set (users d). row_id u = i \<and> row_nickname u = nick \<and> row_password u = pass)"
    "(\<exists>r d1. exec_params (pg E) d authorize_sql [PInt i, PText nick] = (Inr r, d1)) \<longrightarrow>
      b = (\<exists>u \<in> set (users d). row_id u = i \<and> row_nickname u = nick \<and> row_password u = pass)"
    using user_authorize_spec [OF laws, of ?J i nick pass d] by blast
  let ?w1 = "w\<lparr>rm_connections := (rm_connections w)(''user_metadata_db'' \<mapsto> d')\<rparr>"
  let ?w2 = "if b then ?w1\<lparr>sv_clients := add_client i sock (sv_clients w)\<rparr> else ?w1"
  obtain m where m: "write_json E sock (authorize_answer ?J b) ?w2 = Some (Inr (), ?w2\<lparr>sv_socks := m\<rparr>)"
    "sent m = sent (sv_socks w) @ [(sock, wire ?J (authorize_answer ?J b))]"
    using write_json_plain [OF rel answers_plain(2) [OF J], of sock b ?w2] by auto
  have fields: "read_string ?J (authorize_request ?J i nick pass) ''nickname'' = Inr nick"
    "read_string ?J (authorize_request ?J i nick pass) ''password'' = Inr pass"
    "read_int ?J (authorize_request ?J i nick pass) ''user_id'' = Inr i"
    using J by (simp_all add: authorize_request_def read_string_def read_int_def json_simps)
  have kind: "contains ?J (authorize_request ?J i nick pass) ''type''"
    "is_request ?J (authorize_request ?J i nick pass) ''authorize''"
    "\<not> is_request ?J (authorize_request ?J i nick pass) ''register''"
    using J by (simp_all add: authorize_request_def contains_def is_request_def json_simps)
  have "dispatch E sock (authorize_request ?J i nick pass) w = Some (Inr (), ?w2\<lparr>sv_socks := m\<rparr>)"
    using kind fields conn auth(1) m(1)
    by (cases b) (simp_all add: dispatch_def handle_authorize_def act_run authorize_user_def authorize_answer_def)
  then show ?thesis
    using m(2) auth(2-5) by (intro exI [of _ b] exI [of _ "?w2\<lparr>sv_socks := m\<rparr>"] exI [of _ d']) auto
qed


section \<open>Client and server\<close>

text \<open>A client on socket \<open>sock\<close> of the server, with the same json library, which obeys its laws.\<close>

definition linked ::
    "('j, ('d, 'n, (socket \<times> string) list) handler) client_env \<Rightarrow>
      ('d, 'j, 'n, (socket \<times> string) list) services \<Rightarrow> socket \<Rightarrow> bool" where
  "linked C E sock \<longleftrightarrow>
     ce_json C = json E \<and> ce_socket C = server_link E sock \<and> socks E = recording_socks \<and>
     json_laws (json E) \<and> dump_laws (json E) \<and> wire_laws (json E)"

lemma request_plain:
  "json_laws J \<Longrightarrow> ascii nick \<Longrightarrow> ascii pass \<Longrightarrow> ascii ke \<Longrightarrow> ascii kd \<Longrightarrow> plain J (register_request J nick pass ke kd)"
  "json_laws J \<Longrightarrow> ascii nick \<Longrightarrow> ascii pass \<Longrightarrow> plain J (authorize_request J i nick pass)"
  unfolding register_request_def authorize_request_def
  by (intro plain_field plain_start plain_value.intros; simp)+

lemma save_user_effect:
  assumes "\<exists>t. ce_dump_indented C (user_to_json (ce_json C) (cl_user c)) = Inr t"
  shows "\<exists>disk. save_user C c = Some (Inr (), c\<lparr>cl_disk := disk\<rparr>)"
proof -
  obtain t where "ce_dump_indented C (user_to_json (ce_json C) (cl_user c)) = Inr t" using assms by blast
  then show ?thesis
    by (auto simp: save_user_def save_user_data_to_json_def Let_def intro: exI [of _ "cl_disk c"])
qed

text \<open>What the client makes of the two answers.\<close>

lemma registered_effect:
  fixes c and nick pass :: string
  defines "u i \<equiv> user_set_password pass (user_set_nickname nick (user_set_id i (cl_user c)))"
  assumes J: "json_laws (ce_json C)" and "i \<noteq> 0"
    and "\<exists>t. ce_dump_indented C (user_to_json (ce_json C) (u i)) = Inr t"
  shows "\<exists>disk. registered C nick pass (register_answer (ce_json C) i) c =
    Some (Inr (), c\<lparr>cl_user := u i, cl_disk := disk\<rparr>)"
proof -
  have "present_field (ce_json C) (register_answer (ce_json C) i) ''user_id'' = Some (number_json (ce_json C) (sint i))"
    "present_field (ce_json C) (register_answer (ce_json C) i) ''registered_timestamp'' = None"
    using J assms(3) by (simp_all add: present_field_def register_answer_def status_json_def json_simps)
  then show ?thesis
    using save_user_effect [of C "c\<lparr>cl_user := u i\<rparr>"] assms(4) J
    by (simp add: registered_def act_run json_simps u_def)
qed

lemma answer_status:
  assumes "json_laws J"
  shows "\<exists>v. value_at J (register_answer J i) ''status'' = Inr v \<and> equals_string J v ''success'' = (i \<noteq> 0)"
    "\<exists>v. value_at J (authorize_answer J ok) ''status'' = Inr v \<and> equals_string J v ''success'' = ok"
  using assms
  by (auto simp: register_answer_def authorize_answer_def error_json_def status_json_def value_at_def json_simps)

text \<open>A run of each request; the properties below state the parts that matter.\<close>

lemma registration_run:
  assumes "linked C E sock" "pg_user_laws (pg E) users keys"
    and "rm_connections (cl_net c) ''user_metadata_db'' = Some d" "sock \<notin> fst ` set (sv_socks (cl_net c))"
    and "cl_input c = pass # ls" "ascii pass" "ascii (user_get_nickname (cl_user c))"
    and "cpp_int_to_hex (ce_hex C) (get_el_gamal_key (cl_hybrid c)) = Inr ke" "ascii ke"
    and "cpp_int_to_hex (ce_hex C) (get_dsa_key (cl_hybrid c)) = Inr kd" "ascii kd"
    and "\<And>i. \<exists>t. ce_dump_indented C (user_to_json (ce_json C)
      (user_set_password pass (user_set_nickname (user_get_nickname (cl_user c)) (user_set_id i (cl_user c))))) = Inr t"
    and "\<not> is_registered c"
  shows "\<exists>c' d'. register_user C c = Some (Inr (), c') \<and>
    rm_connections (cl_net c') ''user_metadata_db'' = Some d' \<and>
    sv_clients (cl_net c') = sv_clients (cl_net c) \<and> sv_socks (cl_net c') = sv_socks (cl_net c) \<and>
    cl_input c' = ls \<and> cl_authorized c' = cl_authorized c \<and>
    is_registered c' = (fst (user_create (pg E) (fst (user_new (clock E) (sv_user_counter (cl_net c))
      (user_get_nickname (cl_user c)) pass)) d) \<noteq> Inr 0) \<and>
    (is_registered c' \<longrightarrow> (\<exists>i. cl_user c' =
      user_set_password pass (user_set_nickname (user_get_nickname (cl_user c)) (user_set_id i (cl_user c))))) \<and>
    (if is_registered c'
     then user_get_nickname (cl_user c') = user_get_nickname (cl_user c) \<and> user_get_password (cl_user c') = pass \<and>
       (\<exists>row. users d' = users d @ [row] \<and> row_id row = user_get_id (cl_user c') \<and>
         row_nickname row = user_get_nickname (cl_user c) \<and> row_password row = pass)
     else cl_user c' = cl_user c \<and> keys d' = keys d \<and> (users d' = users d \<or> commit_fails (pg E) d \<and>
       (\<exists>row. users d' = users d @ [row] \<and> row_nickname row = user_get_nickname (cl_user c) \<and> row_password row = pass))) \<and>
    (user_get_nickname (cl_user c) \<in> row_nickname ` set (users d) \<longrightarrow> \<not> is_registered c')"
proof -
  let ?J = "json E" and ?nick = "user_get_nickname (cl_user c)"
  have L: "ce_json C = ?J" "ce_socket C = server_link E sock" "socks E = recording_socks"
    "json_laws ?J" "dump_laws ?J" "wire_laws ?J" using assms(1) by (simp_all add: linked_def)
  note plain = request_plain(1) [OF L(4) assms(7,6,9,11)]
  obtain i w1 d' where served: "dispatch E sock (register_request ?J ?nick pass ke kd) (cl_net c) = Some (Inr (), w1)"
    "sv_socks w1 = sv_socks (cl_net c) @ [(sock, wire ?J (register_answer ?J i))]"
    "rm_connections w1 ''user_metadata_db'' = Some d'" "sv_clients w1 = sv_clients (cl_net c)"
    "fst (user_create (pg E) (fst (user_new (clock E) (sv_user_counter (cl_net c)) ?nick pass)) d) = Inr i"
    "if i = 0 then keys d' = keys d \<and> (users d' = users d \<or> commit_fails (pg E) d \<and>
       (\<exists>row. users d' = users d @ [row] \<and> row_nickname row = ?nick \<and> row_password row = pass))
     else \<exists>row. users d' = users d @ [row] \<and> row_id row = i \<and> row_nickname row = ?nick \<and> row_password row = pass"
    using server_registers [OF recording_reliable [OF L(3-5)] assms(2,3), of sock ?nick pass ke kd] by blast
  let ?w = "w1\<lparr>sv_socks := sv_socks (cl_net c)\<rparr>" and ?c = "\<lambda>w. c\<lparr>cl_input := ls, cl_net := w\<rparr>"
  have "server_answers E sock (wire ?J (register_request ?J ?nick pass ke kd)) (cl_net c) (wire ?J (register_answer ?J i)) ?w"
    by (rule link_answers [OF L(3,6,5) plain served(1,2) assms(4)])
  then have ans: "server_answers E sock (printed ?J (register_request ?J ?nick pass ke kd) @ delimiter) (cl_net c)
      (wire ?J (register_answer ?J i)) ?w"
    by (simp add: wire_printed [OF L(5) plain])
  obtain v where v: "value_at ?J (register_answer ?J i) ''status'' = Inr v" "equals_string ?J v ''success'' = (i \<noteq> 0)"
    using answer_status(1) [OF L(4)] by blast
  have run: "register_user C c =
    (if i \<noteq> 0 then registered C ?nick pass (register_answer ?J i) (?c ?w) else Some (Inr (), ?c ?w))"
    using link.register_answered [of C E sock, OF L(2) assms(5,8,10), unfolded L(1), OF printed_dump [OF L(5) plain] ans
        wire_answer [OF L(6,5) answers_plain(1) [OF L(4)]] v(1)] v(2) by simp
  have taken: "i = 0" if "?nick \<in> row_nickname ` set (users d)"
  proof (rule ccontr)
    assume "i \<noteq> 0"
    then obtain row where "users d' = users d @ [row]" "row_nickname row = ?nick" using served(6) by auto
    then show False using tables_always [OF assms(2), of d'] that by (auto simp: tables_ok_def)
  qed
  show ?thesis
  proof (cases "i = 0")
    case True
    then show ?thesis using run served(3-6) assms(13)
      by (intro exI [of _ "?c ?w"] exI [of _ d']) (simp add: is_registered_def)
  next
    case False
    obtain disk where reg: "registered C ?nick pass (register_answer ?J i) (?c ?w) = Some (Inr (), (?c ?w)\<lparr>cl_user :=
        user_set_password pass (user_set_nickname ?nick (user_set_id i (cl_user c))), cl_disk := disk\<rparr>)"
      using registered_effect [of C i pass ?nick "?c ?w", unfolded L(1), OF L(4) False] assms(12) [unfolded L(1)] by auto
    show ?thesis
      by (rule exI, rule exI [of _ d'], rule conjI, rule trans [OF run], simp only: False if_True not_False_eq_True, rule reg)
        (use served(3-6) False taken in \<open>auto simp: is_registered_def user_getters user_set_id_def user_set_nickname_def
          user_set_password_def\<close>)
  qed
qed

lemma authorization_run:
  assumes "linked C E sock" "pg_user_laws (pg E) users keys"
    and "rm_connections (cl_net c) ''user_metadata_db'' = Some d" "sock \<notin> fst ` set (sv_socks (cl_net c))"
    and "cl_input c = pass # ls" "ascii pass" "ascii (user_get_nickname (cl_user c))"
    and "\<exists>t. ce_dump_indented C (user_to_json (ce_json C) (cl_user c)) = Inr t" "\<not> cl_authorized c"
  shows "\<exists>c' d'. client_authorize_user C c = Some (Inr (), c') \<and>
    rm_connections (cl_net c') ''user_metadata_db'' = Some d' \<and> users d' = users d \<and> keys d' = keys d \<and>
    sv_clients (cl_net c') = (if cl_authorized c' then add_client (user_get_id (cl_user c)) sock (sv_clients (cl_net c))
      else sv_clients (cl_net c)) \<and>
    (let matches = \<exists>row \<in> set (users d). row_id row = user_get_id (cl_user c) \<and>
        row_nickname row = user_get_nickname (cl_user c) \<and> row_password row = pass in
     (cl_authorized c' \<longrightarrow> matches) \<and>
     ((\<exists>r d1. exec_params (pg E) d authorize_sql [PInt (user_get_id (cl_user c)), PText (user_get_nickname (cl_user c))]
         = (Inr r, d1)) \<longrightarrow> cl_authorized c' = matches))"
proof -
  let ?J = "json E" and ?nick = "user_get_nickname (cl_user c)" and ?i = "user_get_id (cl_user c)"
  have L: "ce_json C = ?J" "ce_socket C = server_link E sock" "socks E = recording_socks"
    "json_laws ?J" "dump_laws ?J" "wire_laws ?J" using assms(1) by (simp_all add: linked_def)
  note plain = request_plain(2) [OF L(4) assms(7,6), of ?i]
  obtain b w1 d' where served: "dispatch E sock (authorize_request ?J ?i ?nick pass) (cl_net c) = Some (Inr (), w1)"
    "sv_socks w1 = sv_socks (cl_net c) @ [(sock, wire ?J (authorize_answer ?J b))]"
    "rm_connections w1 ''user_metadata_db'' = Some d'" "users d' = users d" "keys d' = keys d"
    "sv_clients w1 = (if b then add_client ?i sock (sv_clients (cl_net c)) else sv_clients (cl_net c))"
    "b \<longrightarrow> (\<exists>u \<in> set (users d). row_id u = ?i \<and> row_nickname u = ?nick \<and> row_password u = pass)"
    "(\<exists>r d1. exec_params (pg E) d authorize_sql [PInt ?i, PText ?nick] = (Inr r, d1)) \<longrightarrow>
      b = (\<exists>u \<in> set (users d). row_id u = ?i \<and> row_nickname u = ?nick \<and> row_password u = pass)"
    using server_authorizes [OF recording_reliable [OF L(3-5)] assms(2,3), of sock ?i ?nick pass] by blast
  let ?w = "w1\<lparr>sv_socks := sv_socks (cl_net c)\<rparr>" and ?c = "\<lambda>w. c\<lparr>cl_input := ls, cl_net := w\<rparr>"
  have "server_answers E sock (wire ?J (authorize_request ?J ?i ?nick pass)) (cl_net c) (wire ?J (authorize_answer ?J b)) ?w"
    by (rule link_answers [OF L(3,6,5) plain served(1,2) assms(4)])
  then have ans: "server_answers E sock (printed ?J (authorize_request ?J ?i ?nick pass) @ delimiter) (cl_net c)
      (wire ?J (authorize_answer ?J b)) ?w"
    by (simp add: wire_printed [OF L(5) plain])
  obtain v where v: "value_at ?J (authorize_answer ?J b) ''status'' = Inr v" "equals_string ?J v ''success'' = b"
    using answer_status(2) [OF L(4)] by blast
  let ?ok = "(?c ?w)\<lparr>cl_authorized := True\<rparr>"
  obtain disk where save: "save_user C ?ok = Some (Inr (), ?ok\<lparr>cl_disk := disk\<rparr>)"
    using save_user_effect [of C ?ok] assms(8) by auto
  have caught: "act_catch (save_user C) (act_return ()) ?ok = Some (Inr (), ?ok\<lparr>cl_disk := disk\<rparr>)"
    using save by (rule act_catch_simps(2))
  have run: "client_authorize_user C c = Some (Inr (), if b then ?ok\<lparr>cl_disk := disk\<rparr> else ?c ?w)"
    using link.authorize_answered [of C E sock, OF L(2) assms(5), unfolded L(1), OF printed_dump [OF L(5) plain] ans
        wire_answer [OF L(6,5) answers_plain(2) [OF L(4)]] v(1)] v(2) caught
    by simp
  show ?thesis
    by (rule exI, rule exI [of _ d'], rule conjI, rule run) (use served(3-8) assms(9) in \<open>auto simp: Let_def\<close>)
qed

text \<open>
  C3: A client that registers with the server: when it is registered afterwards, the user table has
  exactly one row more, with the id that the client holds, its nickname and its password. Otherwise
  the user of the client and the tables are as before, or a commit failed and was carried out all
  the same: then the table may have the row, although the client was told that it is not registered.
  A nickname that is taken is refused. Nobody is connected by registering.
\<close>

theorem registration_end_to_end:
  assumes "linked C E sock" "pg_user_laws (pg E) users keys"
    and "rm_connections (cl_net c) ''user_metadata_db'' = Some d" "sock \<notin> fst ` set (sv_socks (cl_net c))"
    and "cl_input c = pass # ls" "ascii pass" "ascii (user_get_nickname (cl_user c))"
    and "cpp_int_to_hex (ce_hex C) (get_el_gamal_key (cl_hybrid c)) = Inr ke" "ascii ke"
    and "cpp_int_to_hex (ce_hex C) (get_dsa_key (cl_hybrid c)) = Inr kd" "ascii kd"
    and "\<And>i. \<exists>t. ce_dump_indented C (user_to_json (ce_json C)
      (user_set_password pass (user_set_nickname (user_get_nickname (cl_user c)) (user_set_id i (cl_user c))))) = Inr t"
    and "\<not> is_registered c"
  shows "\<exists>c' d'. register_user C c = Some (Inr (), c') \<and>
    rm_connections (cl_net c') ''user_metadata_db'' = Some d' \<and>
    sv_clients (cl_net c') = sv_clients (cl_net c) \<and> sv_socks (cl_net c') = sv_socks (cl_net c) \<and>
    (if is_registered c'
     then user_get_nickname (cl_user c') = user_get_nickname (cl_user c) \<and> user_get_password (cl_user c') = pass \<and>
       (\<exists>row. users d' = users d @ [row] \<and> row_id row = user_get_id (cl_user c') \<and>
         row_nickname row = user_get_nickname (cl_user c) \<and> row_password row = pass)
     else cl_user c' = cl_user c \<and> keys d' = keys d \<and> (users d' = users d \<or> commit_fails (pg E) d \<and>
       (\<exists>row. users d' = users d @ [row] \<and> row_nickname row = user_get_nickname (cl_user c) \<and> row_password row = pass))) \<and>
    (user_get_nickname (cl_user c) \<in> row_nickname ` set (users d) \<longrightarrow> \<not> is_registered c')"
  using registration_run [OF assms] by blast

text \<open>
  C4: A client that authorizes with the server: it counts as authorized afterwards exactly when the
  server has connected its user id with its socket, and then a row of the user table has the id, the
  nickname and the password that was typed. When the statement does not fail, that is also enough.
\<close>

theorem authorization_end_to_end:
  assumes "linked C E sock" "pg_user_laws (pg E) users keys"
    and "rm_connections (cl_net c) ''user_metadata_db'' = Some d" "sock \<notin> fst ` set (sv_socks (cl_net c))"
    and "cl_input c = pass # ls" "ascii pass" "ascii (user_get_nickname (cl_user c))"
    and "\<exists>t. ce_dump_indented C (user_to_json (ce_json C) (cl_user c)) = Inr t" "\<not> cl_authorized c"
  shows "\<exists>c' d'. client_authorize_user C c = Some (Inr (), c') \<and>
    rm_connections (cl_net c') ''user_metadata_db'' = Some d' \<and> users d' = users d \<and> keys d' = keys d \<and>
    sv_clients (cl_net c') = (if cl_authorized c' then add_client (user_get_id (cl_user c)) sock (sv_clients (cl_net c))
      else sv_clients (cl_net c)) \<and>
    (let matches = \<exists>row \<in> set (users d). row_id row = user_get_id (cl_user c) \<and>
        row_nickname row = user_get_nickname (cl_user c) \<and> row_password row = pass in
     (cl_authorized c' \<longrightarrow> matches) \<and>
     ((\<exists>r d1. exec_params (pg E) d authorize_sql [PInt (user_get_id (cl_user c)), PText (user_get_nickname (cl_user c))]
         = (Inr r, d1)) \<longrightarrow> cl_authorized c' = matches))"
  by (rule authorization_run [OF assms])

text \<open>
  C5: Registering and then authorizing on the same connection: a client that was registered is authorized
  only with the password that it registered, and, when the statement does not fail, always with that
  password; the table keeps the one new row, and the server has connected the new id with the socket.
\<close>

theorem register_then_authorize:
  assumes "linked C E sock" "pg_user_laws (pg E) users keys"
    and "rm_connections (cl_net c) ''user_metadata_db'' = Some d" "sock \<notin> fst ` set (sv_socks (cl_net c))"
    and "cl_input c = pass # pass' # ls" "ascii pass" "ascii pass'" "ascii (user_get_nickname (cl_user c))"
    and "cpp_int_to_hex (ce_hex C) (get_el_gamal_key (cl_hybrid c)) = Inr ke" "ascii ke"
    and "cpp_int_to_hex (ce_hex C) (get_dsa_key (cl_hybrid c)) = Inr kd" "ascii kd"
    and "\<And>i. \<exists>t. ce_dump_indented C (user_to_json (ce_json C)
      (user_set_password pass (user_set_nickname (user_get_nickname (cl_user c)) (user_set_id i (cl_user c))))) = Inr t"
    and "\<not> is_registered c" "\<not> cl_authorized c"
    and "register_user C c = Some (r, cr)" "is_registered cr"
  shows "\<exists>ca row. client_authorize_user C cr = Some (Inr (), ca) \<and>
    (\<exists>d2. rm_connections (cl_net ca) ''user_metadata_db'' = Some d2 \<and> users d2 = users d @ [row]) \<and>
    row_id row = user_get_id (cl_user cr) \<and> row_password row = pass \<and>
    (cl_authorized ca \<longrightarrow> pass' = pass \<and> sv_clients (cl_net ca) = add_client (row_id row) sock (sv_clients (cl_net c))) \<and>
    ((\<forall>d1. \<exists>q d2. exec_params (pg E) d1 authorize_sql [PInt (row_id row), PText (row_nickname row)] = (Inr q, d2)) \<longrightarrow>
      cl_authorized ca = (pass' = pass))"
proof -
  let ?nick = "user_get_nickname (cl_user c)"
  obtain d1 i row where reg: "rm_connections (cl_net cr) ''user_metadata_db'' = Some d1" "sv_clients (cl_net cr) = sv_clients (cl_net c)"
    "sv_socks (cl_net cr) = sv_socks (cl_net c)" "cl_input cr = pass' # ls" "\<not> cl_authorized cr"
    "cl_user cr = user_set_password pass (user_set_nickname ?nick (user_set_id i (cl_user c)))"
    "user_get_nickname (cl_user cr) = ?nick"
    "users d1 = users d @ [row]" "row_id row = user_get_id (cl_user cr)" "row_nickname row = ?nick" "row_password row = pass"
    using registration_run [OF assms(1-6,8-14)] assms(15-17) by auto
  have fresh: "sock \<notin> fst ` set (sv_socks (cl_net cr))" and nick: "ascii (user_get_nickname (cl_user cr))"
    and dump: "\<exists>t. ce_dump_indented C (user_to_json (ce_json C) (cl_user cr)) = Inr t"
    using assms(4,8) reg(3,7) assms(13) [of i] unfolding reg(6) [symmetric] by simp_all
  obtain ca d2 where auth: "client_authorize_user C cr = Some (Inr (), ca)"
    "rm_connections (cl_net ca) ''user_metadata_db'' = Some d2" "users d2 = users d1"
    "sv_clients (cl_net ca) = (if cl_authorized ca then add_client (user_get_id (cl_user cr)) sock (sv_clients (cl_net cr))
      else sv_clients (cl_net cr))"
    "cl_authorized ca \<longrightarrow> (\<exists>row' \<in> set (users d1). row_id row' = user_get_id (cl_user cr) \<and>
      row_nickname row' = user_get_nickname (cl_user cr) \<and> row_password row' = pass')"
    "(\<exists>q d'. exec_params (pg E) d1 authorize_sql [PInt (user_get_id (cl_user cr)), PText (user_get_nickname (cl_user cr))] =
      (Inr q, d')) \<longrightarrow> cl_authorized ca = (\<exists>row' \<in> set (users d1). row_id row' = user_get_id (cl_user cr) \<and>
      row_nickname row' = user_get_nickname (cl_user cr) \<and> row_password row' = pass')"
    using authorization_run [OF assms(1,2) reg(1) fresh reg(4) assms(7) nick dump reg(5)] unfolding Let_def by blast
  have "inj_on row_nickname (set (users d1))"
    using tables_always [OF assms(2), of d1] by (simp add: tables_ok_def distinct_map)
  then have "row' = row" if "row' \<in> set (users d1)" "row_nickname row' = ?nick" for row'
    by (rule inj_onD) (use that reg(8,10) in simp_all)
  then have matches: "(\<exists>row' \<in> set (users d1). row_id row' = user_get_id (cl_user cr) \<and>
      row_nickname row' = user_get_nickname (cl_user cr) \<and> row_password row' = pass') = (pass' = pass)"
    using reg(7-11) by auto
  show ?thesis
    by (intro exI [of _ ca] exI [of _ row] conjI) (use auth reg(2,7-11) matches in auto)
qed

text \<open>Witnesses: a client on socket 3 of the example server, whose one user is \<open>ann\<close>.\<close>

definition login_env :: "(jval, (tables, file_server \<times> string list, (socket \<times> string) list) handler) client_env" where
  "login_env = (example_env (server_link example_services 3))\<lparr>ce_hex := example_hex\<rparr>"

definition login_client :: "i32 \<Rightarrow> (tables, file_server \<times> string list, (socket \<times> string) list) handler client" where
  "login_client i = (example_client ann_handler [])\<lparr>cl_input := [''pw''], cl_authorized := False,
     cl_user := \<lparr>user_id = i, nickname = ''ann'', password = [], registered_timestamp = 0,
       last_online_timestamp = 0, online = False\<rparr>\<rparr>"

lemma login_facts:
  "linked login_env example_services 3" "pg_user_laws (pg example_services) good_users good_keys"
  "rm_connections (cl_net (login_client i)) ''user_metadata_db'' = Some ann_tables"
  "3 \<notin> fst ` set (sv_socks (cl_net (login_client i)))" "cl_input (login_client i) = [''pw'']"
  "user_get_nickname (cl_user (login_client i)) = ''ann''" "user_get_id (cl_user (login_client i)) = i"
  "\<not> cl_authorized (login_client i)"
  by (simp_all add: linked_def login_env_def login_client_def example_env_def example_client_def example_pg_laws
      example_json_laws example_dump_laws example_wire_laws ann_handler_def example_handler_def user_getters)

lemma login_saves: "\<exists>t. ce_dump_indented login_env (user_to_json (ce_json login_env) u) = Inr t"
  if "ascii (nickname u)" "ascii (password u)"
proof -
  have "plain example_json (user_to_json example_json u)"
    unfolding user_to_json_def using that by (intro plain_field plain_start plain_value.intros example_json_laws) simp_all
  then show ?thesis
    using dump_plain [OF example_dump_laws] by (simp add: login_env_def example_env_def)
qed

lemma login_keys:
  "cpp_int_to_hex (ce_hex login_env) (get_el_gamal_key (cl_hybrid (login_client i))) = Inr ''17''"
  "cpp_int_to_hex (ce_hex login_env) (get_dsa_key (cl_hybrid (login_client i))) = Inr ''4''"
  by (simp_all add: login_env_def login_client_def example_client_def example_hybrid_def example_hex_def get_el_gamal_key_def
      get_dsa_key_def el_gamal_get_public_key_def dsa_get_public_key_def nat_digits.simps digit_char_def char_of_def bit_Suc_0_iff)

theorem registration_end_to_end_witness:
  "\<exists>c'. register_user login_env (login_client 0) = Some (Inr (), c') \<and> \<not> is_registered c'"
proof -
  let ?c = "login_client 0"
  have saves: "\<exists>t. ce_dump_indented login_env (user_to_json (ce_json login_env)
      (user_set_password ''pw'' (user_set_nickname (user_get_nickname (cl_user ?c)) (user_set_id i (cl_user ?c))))) = Inr t" for i
    by (rule login_saves) (simp_all add: user_set_password_def user_set_nickname_def login_facts(6))
  have fresh: "\<not> is_registered ?c" by (simp add: is_registered_def login_facts(7))
  have ascii: "ascii ''pw''" "ascii (user_get_nickname (cl_user ?c))" "ascii ''17''" "ascii ''4''"
    by (simp_all add: login_facts(6))
  obtain c' where c': "register_user login_env ?c = Some (Inr (), c')"
    "user_get_nickname (cl_user ?c) \<in> row_nickname ` set (good_users ann_tables) \<longrightarrow> \<not> is_registered c'"
    using registration_end_to_end [OF login_facts(1-5) ascii(1,2) login_keys(1) ascii(3) login_keys(2) ascii(4) saves fresh]
    by blast
  then show ?thesis unfolding login_facts(6) ann_good by (simp add: ann_tables_def)
qed

theorem authorization_end_to_end_witness:
  "\<exists>c'. client_authorize_user login_env (login_client 1) = Some (Inr (), c') \<and> cl_authorized c' \<and>
    sv_clients (cl_net c') = add_client 1 3 []"
proof -
  let ?c = "login_client 1"
  have saves: "\<exists>t. ce_dump_indented login_env (user_to_json (ce_json login_env) (cl_user ?c)) = Inr t"
    by (rule login_saves) (simp_all add: login_client_def)
  have ascii: "ascii ''pw''" "ascii (user_get_nickname (cl_user ?c))" by (simp_all add: login_facts(6))
  obtain c' where c': "client_authorize_user login_env ?c = Some (Inr (), c')"
    "sv_clients (cl_net c') = (if cl_authorized c' then add_client 1 3 (sv_clients (cl_net ?c)) else sv_clients (cl_net ?c))"
    "(\<exists>r d1. exec_params (pg example_services) ann_tables authorize_sql [PInt 1, PText ''ann''] = (Inr r, d1)) \<longrightarrow>
      cl_authorized c' = (\<exists>row \<in> set (good_users ann_tables). row_id row = 1 \<and> row_nickname row = ''ann'' \<and> row_password row = ''pw'')"
    using authorization_end_to_end [OF login_facts(1-5) ascii saves login_facts(8)]
    unfolding login_facts(6,7) Let_def by blast
  have "\<exists>r d1. exec_params (pg example_services) ann_tables authorize_sql [PInt 1, PText ''ann''] = (Inr r, d1)"
    by (simp add: example_pg_def answer_def)
  then have "cl_authorized c'" using c'(3) unfolding ann_good by (simp add: ann_tables_def)
  then show ?thesis using c'(1,2) by (simp add: login_client_def example_client_def ann_handler_def example_handler_def)
qed

definition new_client :: "(tables, file_server \<times> string list, (socket \<times> string) list) handler client" where
  "new_client = (login_client 0)\<lparr>cl_net := example_handler [], cl_input := [''pw'', ''pw'']\<rparr>"

lemma new_client_facts:
  "rm_connections (cl_net new_client) ''user_metadata_db'' = Some empty_tables"
  "3 \<notin> fst ` set (sv_socks (cl_net new_client))" "cl_input new_client = [''pw'', ''pw'']"
  "user_get_nickname (cl_user new_client) = ''ann''" "\<not> is_registered new_client" "\<not> cl_authorized new_client"
  "cl_hybrid new_client = cl_hybrid (login_client 0)" "sv_user_counter (cl_net new_client) = 1" "clock example_services = 0"
  by (simp_all add: new_client_def login_client_def example_client_def example_handler_def user_getters is_registered_def
      empty_tables_def example_services_def)

theorem register_then_authorize_witness:
  "\<exists>cr ca. register_user login_env new_client = Some (Inr (), cr) \<and> is_registered cr \<and>
    client_authorize_user login_env cr = Some (Inr (), ca) \<and> cl_authorized ca"
proof -
  let ?c = new_client
  have saves: "\<exists>t. ce_dump_indented login_env (user_to_json (ce_json login_env)
      (user_set_password ''pw'' (user_set_nickname (user_get_nickname (cl_user ?c)) (user_set_id i (cl_user ?c))))) = Inr t" for i
    by (rule login_saves) (simp_all add: user_set_password_def user_set_nickname_def new_client_facts(4))
  have ascii: "ascii ''pw''" "ascii (user_get_nickname (cl_user ?c))" "ascii ''17''" "ascii ''4''"
    by (simp_all add: new_client_facts(4))
  note keys = login_keys [of 0, folded new_client_facts(7)]
  note laws = login_facts(1,2) new_client_facts(1-3)
  obtain cr where reg: "register_user login_env ?c = Some (Inr (), cr)" "is_registered cr"
    using registration_run [OF laws ascii(1,2) keys(1) ascii(3) keys(2) ascii(4) saves new_client_facts(5)] create_ann(1)
    unfolding new_client_facts(4,8,9) example_services_simps(1) ann_def by auto
  have run: "\<forall>d1. \<exists>q d2. exec_params (pg example_services) d1 authorize_sql [PInt i, PText n] = (Inr q, d2)" for i n
    by (simp add: example_pg_def answer_def)
  from register_then_authorize [OF laws ascii(1,1,2) keys(1) ascii(3) keys(2) ascii(4) saves new_client_facts(5,6) reg] run
  show ?thesis using reg by blast
qed

end
