(* ===== verification/Message_Delivery.thy ===== *)
theory Message_Delivery
  imports End_To_End
begin

text \<open>
  A text message between two users: \<open>message_action\<close> of \<open>client/src/client.cpp\<close> prints the request,
  \<open>handle_send_message\<close> of \<open>server/src/request_handler.cpp\<close> stores it and writes to both connections,
  and both clients process what arrives.
\<close>

section \<open>On the server\<close>

lemma message_request_plain:
  "json_laws J \<Longrightarrow> ascii nick \<Longrightarrow> ascii t \<Longrightarrow> ascii name \<Longrightarrow> plain J (message_request J sender nick t name)"
  unfolding message_request_def by (intro plain_field plain_start plain_value.intros) simp_all

lemma message_request_fields:
  assumes "json_laws J"
  shows "is_object J (message_request J sender nick t name)"
    "read_int J (message_request J sender nick t name) ''sender_id'' = Inr sender"
    "read_string J (message_request J sender nick t name) ''receiver_nickname'' = Inr nick"
    "read_string J (message_request J sender nick t name) ''message_text'' = Inr t"
    "find_field J (message_request J sender nick t name) ''file_name'' = map_option (string_json J) (Some name)"
  using assms by (simp_all add: message_request_def read_int_def read_string_def json_simps)

lemma dispatch_message_request:
  assumes "json_laws (json E)"
  shows "dispatch E sock (message_request (json E) sender nick t name) =
    handle_send_message E sock (message_request (json E) sender nick t name)"
  using assms by (simp add: dispatch_def contains_def is_request_def message_request_def json_simps)

section \<open>On the clients\<close>

text \<open>What was written to one socket.\<close>

definition mail_for :: "socket \<Rightarrow> (socket \<times> string) list \<Rightarrow> string list" where
  "mail_for sock mail = map snd (filter (\<lambda>m. fst m = sock) mail)"

text \<open>The client has no case for a text message, nor for an answer without a type.\<close>

definition unhandled :: "'j json_ops \<Rightarrow> 'j \<Rightarrow> bool" where
  "unhandled J j \<longleftrightarrow> is_object J j \<and>
     (\<exists>v. (case find_field J j ''type'' of Some v \<Rightarrow> v | None \<Rightarrow> null_json J) = v \<and>
       (\<forall>kind \<in> {''chunk_acknowledgment'', ''incoming_file'', ''file_chunk'', ''receive_user_public_keys'', ''receive_aes_key''}.
          \<not> equals_string J v kind))"

lemma unhandled_ignored: "unhandled (ce_json C) j \<Longrightarrow> dispatch_message C j c = Some (Inr (), c)"
  by (auto simp: unhandled_def dispatch_message_def value_at_def holds_fields_def act_run Let_def)

lemma process_unhandled:
  assumes "wire_laws (ce_json C)" "dump_laws (ce_json C)"
    and "\<And>j. j \<in> set js \<Longrightarrow> plain (ce_json C) j \<and> unhandled (ce_json C) j"
  shows "process_messages C (map (wire (ce_json C)) js) c = Some (Inr (), c)"
  using assms(3)
proof (induction js)
  case (Cons j js)
  then have "process_server_message C (wire (ce_json C) j) c = Some (Inr (), c)"
    by (intro process_wire [OF assms(1,2)] unhandled_ignored) auto
  then show ?case using Cons by (simp add: act_run)
qed (simp add: act_run)

lemma message_json_fields:
  assumes "json_laws J"
  shows "is_object J (message_to_json J m)" "find_field J (message_to_json J m) ''type'' = None"
    "find_field J (message_to_json J m) ''text'' = Some (string_json J (text_of (msg_text m)))"
  using assms by (simp_all add: message_to_json_def metadata_to_json_def text_to_json_def json_simps split: option.splits)

lemma sent_unhandled:
  assumes "json_laws J" "holds_fields J j" "find_field J j ''type'' = None"
  shows "unhandled J (sent_json J m j)" "find_field J (sent_json J m j) ''type'' = None"
  using assms message_json_fields [OF assms(1), of m]
  by (simp_all add: unhandled_def sent_json_def status_json_def json_simps)

lemma received_unhandled:
  assumes "json_laws J" "holds_fields J j"
  shows "unhandled J (received_json J m j)" "is_object J (received_json J m j)"
    "find_field J (received_json J m j) ''type'' = Some (string_json J ''receive_msg'')"
    "find_field J (received_json J m j) ''text'' = Some (string_json J (text_of (msg_text m)))"
  using assms message_json_fields [OF assms(1), of m]
  by (simp_all add: unhandled_def received_json_def json_simps)


section \<open>From one user to the other\<close>

lemma message_mail:
  fixes m name sock rs
  assumes J: "json_laws J" and name: "ascii name" and m: "ascii (text_of (msg_text m))" and "sock \<noteq> rs"
  defines "mail \<equiv> map (\<lambda>(sock, j). (sock, wire J j)) (message_writes J m (Some name) sock (Some rs))"
  shows "\<exists>js. mail_for sock mail = map (wire J) js \<and> length js = 2 \<and> (\<forall>j \<in> set js. plain J j \<and> unhandled J j)"
    "\<exists>js. mail_for rs mail = map (wire J) js \<and> length js = 2 \<and> (\<forall>j \<in> set js. plain J j \<and> unhandled J j \<and>
      find_field J j ''type'' = Some (string_json J ''receive_msg'') \<and>
      find_field J j ''text'' = Some (string_json J (text_of (msg_text m))))"
proof -
  note mj = message_json_plain [OF J m]
  define s1 r1 where "s1 = sent_json J m (null_json J)" and "r1 = received_json J m (null_json J)"
  define named where "named j = (case announced (Some name) of Some f \<Rightarrow> put_string J ''file_name'' f j | None \<Rightarrow> j)" for j
  have named: "plain J (named j)" if "plain J j" for j
    using that name by (auto simp: named_def announced_def intro!: plain_field J plain_value.intros)
  have field: "find_field J (named j) k = find_field J j k" if "is_object J j" "k \<noteq> ''file_name''" for j k
    using that J by (simp add: named_def announced_def json_simps split: option.splits)
  have obj: "is_object J (named j)" if "is_object J j" for j
    using that J by (simp add: named_def announced_def json_simps split: option.splits)
  have mail: "mail = [(sock, wire J s1), (rs, wire J r1), (sock, wire J (sent_json J m (named s1))),
      (rs, wire J (named (received_json J m r1)))]"
    by (simp add: mail_def message_writes_def Let_def s1_def r1_def named_def)
  have s1: "plain J s1" "unhandled J s1" "find_field J s1 ''type'' = None" "is_object J s1"
    using sent_json_plain [OF J mj] sent_unhandled [OF J, of "null_json J" m] J
    by (simp_all add: s1_def json_simps unhandled_def)
  have s2: "plain J (sent_json J m (named s1))" "unhandled J (sent_json J m (named s1))"
    using sent_json_plain [OF J mj] sent_unhandled [OF J, of "named s1" m] named [OF s1(1)] obj [OF s1(4)]
      field [OF s1(4), of "''type''"] s1(3) by (simp_all add: holds_fields_def)
  have r1: "plain J r1" "is_object J r1"
    using received_json_plain [OF J mj] received_unhandled(2) [OF J, of "null_json J" m] J
    by (simp_all add: r1_def json_simps)
  note rec = received_unhandled [OF J, of "null_json J" m, folded r1_def]
    received_unhandled [OF J, of r1 m]
  have r2: "plain J (named (received_json J m r1))" "unhandled J (named (received_json J m r1))"
    "find_field J (named (received_json J m r1)) ''type'' = Some (string_json J ''receive_msg'')"
    "find_field J (named (received_json J m r1)) ''text'' = Some (string_json J (text_of (msg_text m)))"
    using received_json_plain [OF J mj, of r1] r1 rec(5-8) field [of "received_json J m r1"] named obj
    by (simp_all add: holds_fields_def unhandled_def)
  have senders: "mail_for sock mail = map (wire J) [s1, sent_json J m (named s1)]"
    and receivers: "mail_for rs mail = map (wire J) [r1, named (received_json J m r1)]"
    using assms(4) by (simp_all add: mail_for_def mail)
  show "\<exists>js. mail_for sock mail = map (wire J) js \<and> length js = 2 \<and> (\<forall>j \<in> set js. plain J j \<and> unhandled J j)"
    using s1 s2 by (intro exI [of _ "[s1, sent_json J m (named s1)]"]) (simp add: senders)
  show "\<exists>js. mail_for rs mail = map (wire J) js \<and> length js = 2 \<and> (\<forall>j \<in> set js. plain J j \<and> unhandled J j \<and>
      find_field J j ''type'' = Some (string_json J ''receive_msg'') \<and>
      find_field J j ''text'' = Some (string_json J (text_of (msg_text m))))"
    using r1 r2 rec(1-4) J by (intro exI [of _ "[r1, named (received_json J m r1)]"]) (simp add: receivers json_simps)
qed

text \<open>
  C8: A text message to a connected user, stored by the database: the server writes two copies of it,
  with the text, to the connection of the receiver and two answers to that of the sender; the client
  of the receiver ignores the copies, and the client of the sender ignores the answers: no state of
  either client changes, the message is shown to nobody.
\<close>

theorem message_never_shown:
  assumes "reliable E sent" "wire_laws (json E)" "ce_json A = json E" "ce_json B = json E"
    and "ascii nick" "ascii t" "ascii name" "sock \<noteq> rs"
    and "get_user_id E nick s = Some (Inr receiver, s1)" "receiver \<noteq> 0"
    and "create_message E (message_new (clock E) sender receiver t) s1 = Some (Inr i, s2)" "i \<noteq> 0"
    and "get_client_socket receiver (sv_clients s2) = Some rs"
  shows "\<exists>s' mail js.
    handle_text E sock (wire (json E) (message_request (json E) sender nick t name)) s = Some (Inr (), s') \<and>
    sent (sv_socks s') = sent (sv_socks s2) @ mail \<and>
    mail_for rs mail = map (wire (json E)) js \<and> length js = 2 \<and>
    (\<forall>j \<in> set js. find_field (json E) j ''type'' = Some (string_json (json E) ''receive_msg'') \<and>
       find_field (json E) j ''text'' = Some (string_json (json E) t)) \<and>
    process_messages B (mail_for rs mail) b = Some (Inr (), b) \<and>
    process_messages A (mail_for sock mail) a = Some (Inr (), a)"
proof -
  let ?J = "json E" and ?msg = "message_set_id i (message_new (clock E) sender receiver t)"
  note laws = reliable_laws [OF assms(1)]
  note fields = message_request_fields [OF laws(1), of sender nick t name]
  have body: "text_of (msg_text ?msg) = t" by (simp add: message_set_id_def message_new_def text_set_id_def text_new_def)
  define mail where "mail = map (\<lambda>(sock, j). (sock, wire ?J j)) (message_writes ?J ?msg (Some name) sock (Some rs))"
  have name: "case Some name of Some f \<Rightarrow> ascii f | None \<Rightarrow> True" using assms(7) by simp
  obtain s' where s': "handle_send_message E sock (message_request ?J sender nick t name) s = Some (Inr (), s')"
    "sent (sv_socks s') = sent (sv_socks s2) @ mail"
    using send_message_run [OF assms(1) fields(1-4) assms(6) fields(5) name assms(9,11), of sock] assms(10,12,13)
    by (auto simp: mail_def)
  have handled: "handle_text E sock (wire ?J (message_request ?J sender nick t name)) s = Some (Inr (), s')"
    by (rule handle_wire [OF assms(2) laws(2) message_request_plain [OF laws(1) assms(5-7)]])
      (simp only: dispatch_message_request [OF laws(1)] s'(1))
  have msg: "ascii (text_of (msg_text ?msg))" using assms(6) body by simp
  obtain ja jb where ja: "mail_for sock mail = map (wire ?J) ja" "\<forall>j \<in> set ja. plain ?J j \<and> unhandled ?J j"
    and jb: "mail_for rs mail = map (wire ?J) jb" "length jb = 2" "\<forall>j \<in> set jb. plain ?J j \<and> unhandled ?J j \<and>
      find_field ?J j ''type'' = Some (string_json ?J ''receive_msg'') \<and> find_field ?J j ''text'' = Some (string_json ?J t)"
    using message_mail [OF laws(1) assms(7) msg assms(8)] unfolding mail_def [symmetric] body by blast
  have "process_messages A (mail_for sock mail) a = Some (Inr (), a)"
    unfolding ja(1) using process_unhandled [of A ja a, unfolded assms(3), OF assms(2) laws(2)] ja(2) by blast
  moreover have "process_messages B (mail_for rs mail) b = Some (Inr (), b)"
    unfolding jb(1) using process_unhandled [of B jb b, unfolded assms(4), OF assms(2) laws(2)] jb(3) by blast
  ultimately show ?thesis using handled s'(2) jb by blast
qed

theorem message_never_shown_witness:
  "\<exists>s' mail. handle_text message_services 6
      (wire example_json (message_request example_json 4 ''ann'' ''hi'' ''none'')) (ann_handler\<lparr>sv_clients := [(1, 3)]\<rparr>) =
      Some (Inr (), s') \<and> length (mail_for 3 mail) = 2 \<and> sv_socks s' = mail \<and>
    process_messages (example_env free_socket) (mail_for 3 mail) (example_client [] []) = Some (Inr (), example_client [] [])"
proof -
  let ?s = "ann_handler\<lparr>sv_clients := [(1, 3)]\<rparr>"
  have rel: "reliable message_services (\<lambda>w. w)"
    using example_reliable by (simp add: reliable_def)
  have conn: "rm_connections ?s = (\<lambda>_. Some ann_tables)" "sv_clients ?s = [(1, 3)]" "sv_socks ?s = []"
    by (simp_all add: ann_handler_def example_handler_def)
  obtain s1 where s1: "get_user_id message_services ''ann'' ?s = Some (Inr 1, s1)"
    "rm_connections s1 ''message_metadata_db'' = Some ann_tables" "sv_clients s1 = [(1, 3)]" "sv_socks s1 = []"
    using ann_found_on [of ?s] conn by auto
  obtain s2 where s2: "create_message message_services (message_new 0 4 1 ''hi'') s1 = Some (Inr 9, s2)"
    "sv_clients s2 = [(1, 3)]" "sv_socks s2 = []"
    using message_created [OF s1(2)] s1(3,4) by auto
  have created: "create_message message_services (message_new (clock message_services) 4 1 ''hi'') s1 = Some (Inr 9, s2)"
    using s2(1) by simp
  have wl: "wire_laws (json message_services)" "ce_json (example_env free_socket) = json message_services"
    by (simp_all add: example_wire_laws example_env_def)
  have words: "ascii ''ann''" "ascii ''hi''" "ascii ''none''" "(6 :: nat) \<noteq> 3" by simp_all
  have online: "get_client_socket 1 (sv_clients s2) = Some 3" by (simp add: s2(2) get_client_socket_def)
  obtain s' mail where s': "handle_text message_services 6
      (wire example_json (message_request example_json 4 ''ann'' ''hi'' ''none'')) ?s = Some (Inr (), s')"
    "sv_socks s' = mail" "length (mail_for 3 mail) = 2"
    "process_messages (example_env free_socket) (mail_for 3 mail) (example_client [] []) = Some (Inr (), example_client [] [])"
    using message_never_shown [OF rel wl(1) wl(2) wl(2) words s1(1) _ created _ online, of "example_client [] []"] s2(3)
    by fastforce
  then show ?thesis by blast
qed

end
