(* ===== verification/Protocol.thy ===== *)
theory Protocol
  imports Message_Delivery
begin

text \<open>
  The messages that the server writes, whatever request it handles: their types, the fields of each
  type, and what a client makes of them.
\<close>

section \<open>Schemas\<close>

datatype field_kind = Int_field | Size_field | Bool_field | String_field

definition has_kind :: "'j json_ops \<Rightarrow> 'j \<Rightarrow> string \<times> field_kind \<Rightarrow> bool" where
  "has_kind J j = (\<lambda>(key, kind).
     case kind of
       Int_field \<Rightarrow> \<not> isl (read_int J j key)
     | Size_field \<Rightarrow> \<not> isl (read_size J j key)
     | Bool_field \<Rightarrow> \<not> isl (read_bool J j key)
     | String_field \<Rightarrow> \<not> isl (read_string J j key))"

definition schemas :: "(string \<times> (string \<times> field_kind) list) list" where
  "schemas =
     [(''chunk_acknowledgment'', [(''filename'', String_field), (''chunk_number'', Size_field), (''status'', String_field)]),
      (''incoming_file'', [(''filename'', String_field), (''sender_id'', Int_field)]),
      (''file_chunk'', [(''filename'', String_field), (''chunk_data'', String_field), (''chunk_number'', Size_field),
        (''is_last'', Bool_field)]),
      (''receive_aes_key'', [(''sender_id'', Int_field), (''encrypted_aes_key_c1'', String_field),
        (''encrypted_aes_key_c2'', String_field), (''dsa_r'', String_field), (''dsa_signature'', String_field)]),
      (''receive_msg'', [(''id'', Int_field), (''sender_id'', Int_field), (''receiver_id'', Int_field), (''text'', String_field)])]"

text \<open>
  A message with a type has the fields of the type, one without a type is an answer with a status. A
  refused chunk comes with its reason.
\<close>

definition server_message :: "'j json_ops \<Rightarrow> 'j \<Rightarrow> bool" where
  "server_message J j \<longleftrightarrow> is_object J j \<and>
     (case find_field J j ''type'' of
        None \<Rightarrow> has_kind J j (''status'', String_field)
      | Some v \<Rightarrow> list_ex (\<lambda>(name, fields). v = string_json J name \<and> list_all (has_kind J j) fields \<and>
          (name = ''chunk_acknowledgment'' \<longrightarrow> find_field J j ''status'' = Some (string_json J ''success'') \<or>
            has_kind J j (''error'', String_field))) schemas)"

lemma has_kind_simps [simp]:
  "has_kind J j (k, Int_field) \<longleftrightarrow> (\<exists>i. read_int J j k = Inr i)"
  "has_kind J j (k, Size_field) \<longleftrightarrow> (\<exists>n. read_size J j k = Inr n)"
  "has_kind J j (k, Bool_field) \<longleftrightarrow> (\<exists>b. read_bool J j k = Inr b)"
  "has_kind J j (k, String_field) \<longleftrightarrow> (\<exists>s. read_string J j k = Inr s)"
  by (auto simp: has_kind_def isl_def split: sum.splits) (metis sum.exhaust)+

lemma server_answer:
  "is_object J j \<Longrightarrow> find_field J j ''type'' = None \<Longrightarrow> read_string J j ''status'' = Inr s \<Longrightarrow> server_message J j"
  by (simp add: server_message_def)

section \<open>What the handlers write\<close>

lemma answers_typed:
  assumes "json_laws J"
  shows "server_message J (error_json J t)" "server_message J (status_json J a b (null_json J))"
    "server_message J (put_int J ''user_id'' i (status_json J a b (null_json J)))"
    "server_message J (put_string J ''el_gamal_public_key'' e (put_string J ''dsa_public_key'' d
      (put_int J ''user_id'' i (put_string J ''status'' a (null_json J)))))"
  using assms
  by (simp_all add: server_message_def error_json_def status_json_def read_string_def json_simps)

lemma file_messages_typed:
  assumes "json_laws J"
  shows "server_message J (put_int J ''sender_id'' i (put_string J ''filename'' f
      (put_string J ''type'' ''incoming_file'' (null_json J))))"
    "server_message J (put_bool J ''is_last'' b (put_string J ''chunk_data'' c (put_size J ''chunk_number'' n
      (put_string J ''filename'' f (put_string J ''type'' ''file_chunk'' (null_json J))))))"
    "server_message J (put_string J ''status'' ''success'' (ack_json J f n))"
    "server_message J (refuse_json J reason (ack_json J f n))"
  using assms
  by (simp_all add: server_message_def schemas_def ack_json_def refuse_json_def json_simps read_string_def
      read_int_def read_size_def read_bool_def)

lemma aes_key_typed:
  assumes "json_laws J"
  shows "server_message J (put_string J ''dsa_signature'' s (put_string J ''dsa_r'' r
      (put_string J ''encrypted_aes_key_c2'' b (put_string J ''encrypted_aes_key_c1'' a
        (put_int J ''sender_id'' i (put_string J ''type'' ''receive_aes_key'' (null_json J)))))))"
  using assms by (simp add: server_message_def schemas_def json_simps read_string_def read_int_def)

lemma message_json_kinds:
  assumes "json_laws J"
  shows "\<exists>i. find_field J (message_to_json J m) ''id'' = Some (number_json J (sint (i :: i32)))"
    "\<exists>i. find_field J (message_to_json J m) ''sender_id'' = Some (number_json J (sint (i :: i32)))"
    "\<exists>i. find_field J (message_to_json J m) ''receiver_id'' = Some (number_json J (sint (i :: i32)))"
    "find_field J (message_to_json J m) ''status'' = None"
  using assms by (auto simp: message_to_json_def metadata_to_json_def text_to_json_def json_simps split: option.splits)

text \<open>The answer to a text message may be built on an earlier one that has no type either.\<close>

definition untyped :: "'j json_ops \<Rightarrow> 'j \<Rightarrow> bool" where
  "untyped J j \<longleftrightarrow> holds_fields J j \<and> find_field J j ''type'' = None"

lemma sent_typed:
  assumes "json_laws J" "untyped J j"
  shows "server_message J (sent_json J m j)" "untyped J (sent_json J m j)" "untyped J (put_string J ''file_name'' f j)"
  using assms message_json_fields [OF assms(1), of m] message_json_kinds(4) [OF assms(1), of m]
  by (simp_all add: untyped_def server_message_def sent_json_def status_json_def read_string_def json_simps)

lemma text_message_typed:
  assumes J: "json_laws J" and "is_object J j" "find_field J j ''type'' = Some (string_json J ''receive_msg'')"
    and "\<And>k. k \<noteq> ''type'' \<Longrightarrow> k \<noteq> ''file_name'' \<Longrightarrow> find_field J (message_to_json J m) k \<noteq> None \<Longrightarrow>
      find_field J j k = find_field J (message_to_json J m) k"
  shows "server_message J j"
proof -
  obtain a b c where "find_field J j ''id'' = Some (number_json J (sint (a :: i32)))"
    "find_field J j ''sender_id'' = Some (number_json J (sint (b :: i32)))"
    "find_field J j ''receiver_id'' = Some (number_json J (sint (c :: i32)))"
    using message_json_kinds [OF J, of m] assms(4) by force
  moreover have "find_field J j ''text'' = Some (string_json J (text_of (msg_text m)))"
    using message_json_fields(3) [OF J, of m] assms(4) by simp
  ultimately show ?thesis
    using assms(2,3) J by (simp add: server_message_def schemas_def read_string_def read_int_def json_simps)
qed

lemma received_typed:
  assumes J: "json_laws J" "holds_fields J j"
  shows "server_message J (received_json J m j)" "is_object J (received_json J m j)"
    "server_message J (set_field J (received_json J m j) ''file_name'' v)"
proof -
  note obj = message_json_fields(1) [OF J(1), of m]
  show o: "is_object J (received_json J m j)"
    using J obj by (simp add: received_json_def json_simps)
  have f: "find_field J (received_json J m j) ''type'' = Some (string_json J ''receive_msg'')"
    "\<And>k. k \<noteq> ''type'' \<Longrightarrow> find_field J (message_to_json J m) k \<noteq> None \<Longrightarrow>
      find_field J (received_json J m j) k = find_field J (message_to_json J m) k"
    using J obj by (auto simp: received_json_def json_simps)
  show "server_message J (received_json J m j)"
    by (rule text_message_typed [OF J(1) o f(1)]) (rule f(2))
  show "server_message J (set_field J (received_json J m j) ''file_name'' v)"
    by (rule text_message_typed [OF J(1)]) (use o f J(1) in \<open>simp_all add: json_simps\<close>)
qed

section \<open>Every handler\<close>

text \<open>
  What was written since the mail was \<open>before\<close> are server messages. Only writes to a socket matter.
\<close>

definition typed_text :: "'j json_ops \<Rightarrow> string \<Rightarrow> bool" where
  "typed_text J t \<longleftrightarrow> (\<exists>j x. dump_json J j = Inr x \<and> t = x @ delimiter \<and> server_message J j)"

definition typed_since ::
    "'j json_ops \<Rightarrow> (socket \<times> string) list \<Rightarrow> ('d, 'n, (socket \<times> string) list) handler \<Rightarrow> bool" where
  "typed_since J before s \<longleftrightarrow> (\<exists>mail. sv_socks s = before @ mail \<and> (\<forall>m \<in> set mail. typed_text J (snd m)))"

lemma typed_other:
  "typed_since J before (s\<lparr>rm_net := n\<rparr>) = typed_since J before s"
  "typed_since J before (s\<lparr>rm_connections := c\<rparr>) = typed_since J before s"
  "typed_since J before (s\<lparr>sv_clients := cl\<rparr>) = typed_since J before s"
  "typed_since J before (s\<lparr>sv_uploads := u\<rparr>) = typed_since J before s"
  "typed_since J before (s\<lparr>sv_pending := p\<rparr>) = typed_since J before s"
  "typed_since J before (s\<lparr>sv_user_counter := i\<rparr>) = typed_since J before s"
  by (simp_all add: typed_since_def)

named_theorems typed_intros "what the steps of a handler write"

lemma typed_steps [typed_intros]:
  "keeps (typed_since J before) (create_user E u)" "keeps (typed_since J before) (set_public_keys E i a b)"
  "keeps (typed_since J before) (get_public_keys E i)" "keeps (typed_since J before) (authorize_user E i n p)"
  "keeps (typed_since J before) (get_user_id E n)" "keeps (typed_since J before) (create_message E m)"
  "keeps (typed_since J before) (act_modify (set_upload f up))"
  "keeps (typed_since J before) (act_modify (announce_transfer f i i'))"
  unfolding create_user_def set_public_keys_def get_public_keys_def authorize_user_def get_user_id_def
    create_message_def on_database_def set_upload_def announce_transfer_def
  by (auto intro!: keeps_on keeps_modify simp: typed_other)

lemma typed_file_server [typed_intros]:
  "keeps (typed_since J before) (repo_download_file_chunks E f)"
  "keeps (typed_since J before) (upload_file_chunk E f c)"
  by (auto simp: keeps_def repo_download_file_chunks_def upload_file_chunk_def act_on_def typed_other
      split: option.splits prod.splits)

lemma typed_modify [typed_intros]:
  "keeps (typed_since J before) (act_modify (\<lambda>s. s\<lparr>sv_clients := f s\<rparr>))"
  "keeps (typed_since J before) (act_modify (\<lambda>s. s\<lparr>sv_pending := g s\<rparr>))"
  "keeps (typed_since J before) (act_modify (\<lambda>s. s\<lparr>sv_user_counter := h s\<rparr>))"
  by (auto intro!: keeps_modify simp: typed_other)

lemma typed_write:
  assumes "socks E = recording_socks" "server_message (json E) j"
  shows "keeps (typed_since (json E) before) (write_json E sock j)"
    "keeps (typed_since (json E) before) (write_json_ec E sock j)"
proof -
  have step: "typed_since (json E) before (s\<lparr>sv_socks := sv_socks s @ [(sock, x @ delimiter)]\<rparr>)"
    if "typed_since (json E) before s" "dump_json (json E) j = Inr x" for s :: "('a, 'c, (socket \<times> string) list) handler" and x
  proof -
    note old = that(1)
    obtain mail where "sv_socks s = before @ mail" "\<forall>m \<in> set mail. typed_text (json E) (snd m)"
      using old by (auto simp: typed_since_def)
    moreover have "typed_text (json E) (x @ delimiter)" using that(2) assms(2) by (auto simp: typed_text_def)
    ultimately show ?thesis by (auto simp: typed_since_def intro!: exI [of _ "mail @ [(sock, x @ delimiter)]"])
  qed
  show "keeps (typed_since (json E) before) (write_json E sock j)"
    "keeps (typed_since (json E) before) (write_json_ec E sock j)"
    unfolding keeps_def write_json_def write_json_ec_def write_socket_def act_bind_def act_lift_def act_on_def
    using step by (auto simp: assms(1) recording_socks_def split: sum.splits option.splits)
qed

lemma typed_register:
  assumes "socks E = recording_socks" "json_laws (json E)"
  shows "keeps (typed_since (json E) before) (handle_register E sock request)"
  unfolding handle_register_def
  by (intro keeps_intros typed_intros typed_write [OF assms(1)]) (simp add: answers_typed [OF assms(2)])

lemma typed_authorize:
  assumes "socks E = recording_socks" "json_laws (json E)"
  shows "keeps (typed_since (json E) before) (handle_authorize E sock request)"
  unfolding handle_authorize_def
  by (intro keeps_intros typed_intros typed_write [OF assms(1)] answers_typed [OF assms(2)])

lemma typed_get_user_keys:
  assumes "socks E = recording_socks" "json_laws (json E)"
  shows "keeps (typed_since (json E) before) (handle_get_user_keys E sock request)"
  unfolding handle_get_user_keys_def
  by (intro keeps_intros typed_intros typed_write [OF assms(1)] answers_typed [OF assms(2)])

lemma typed_send_aes_key:
  assumes "socks E = recording_socks" "json_laws (json E)"
  shows "keeps (typed_since (json E) before) (handle_send_aes_key E sock request)"
  unfolding handle_send_aes_key_def
  by (intro keeps_intros typed_intros typed_write [OF assms(1)] answers_typed [OF assms(2)] aes_key_typed [OF assms(2)])

lemma typed_deliver:
  assumes "socks E = recording_socks" "json_laws (json E)"
  shows "keeps (typed_since (json E) before) (deliver_message E sock request sender receiver m)"
proof -
  have start: "untyped (json E) (null_json (json E))" "holds_fields (json E) (null_json (json E))"
    using assms(2) by (simp_all add: untyped_def json_simps)
  note first = sent_typed(1,2) [OF assms(2) start(1), where m = m] received_typed [OF assms(2) start(2), where m = m]
  note again = received_typed [OF assms(2) holds_fields(2) [OF first(4)], where m = m]
  show ?thesis
    unfolding deliver_message_def Let_def
    by (intro keeps_intros keeps_bind_gives [where Q = "untyped (json E)"] gives_intros typed_intros
        typed_write [OF assms(1)] first again sent_typed [OF assms(2)])
      (simp_all add: first again sent_typed [OF assms(2)])
qed

lemma typed_send_message:
  assumes "socks E = recording_socks" "json_laws (json E)"
  shows "keeps (typed_since (json E) before) (handle_send_message E sock request)"
  unfolding handle_send_message_def Let_def
  by (intro keeps_intros typed_intros typed_write [OF assms(1)] answers_typed [OF assms(2)] typed_deliver [OF assms])

lemma typed_file_messages:
  assumes "socks E = recording_socks" "json_laws (json E)"
  shows "keeps (typed_since (json E) before) (send_file_messages E sock f i chunks)"
proof (induction chunks arbitrary: i)
  case (Cons c cs)
  show ?case
    unfolding send_file_messages.simps Let_def
    by (intro keeps_intros typed_write [OF assms(1)] file_messages_typed [OF assms(2)] Cons.IH)
qed (simp add: keeps_intros)

lemma typed_notify:
  assumes "socks E = recording_socks" "json_laws (json E)"
  shows "keeps (typed_since (json E) before) (notify_receiver E f)"
  unfolding notify_receiver_def send_file_to_client_def
  by (intro keeps_intros typed_intros typed_write [OF assms(1)] file_messages_typed [OF assms(2)]
      typed_file_messages [OF assms])

lemma typed_file_chunk:
  assumes "socks E = recording_socks" "json_laws (json E)"
  shows "keeps (typed_since (json E) before) (handle_file_chunk E sock request)"
proof -
  have "gives (typed_since (json E) before) (server_message (json E)) (receive_chunk E f c n l)" for f c n l
    unfolding receive_chunk_def Let_def
    by (intro gives_intros keeps_intros typed_intros typed_notify [OF assms] file_messages_typed [OF assms(2)])
  then show ?thesis
    unfolding handle_file_chunk_def
    by (intro keeps_intros keeps_bind_gives [where Q = "server_message (json E)"] typed_write [OF assms(1)])
qed

lemma typed_dispatch:
  assumes "socks E = recording_socks" "json_laws (json E)"
  shows "keeps (typed_since (json E) before) (dispatch E sock request)"
  unfolding dispatch_def
  by (intro keeps_intros typed_register [OF assms] typed_authorize [OF assms] typed_get_user_keys [OF assms]
      typed_send_aes_key [OF assms] typed_send_message [OF assms] typed_file_chunk [OF assms]
      typed_write [OF assms(1)] answers_typed [OF assms(2)])

section \<open>What a client makes of them\<close>

text \<open>
  Documented: what \<open>dump\<close> printed contains only strings that are UTF-8, and an object of numbers and such
  strings can be printed, here the confirmation of a chunk.
\<close>

definition string_laws :: "'j json_ops \<Rightarrow> (string \<Rightarrow> bool) \<Rightarrow> bool" where
  "string_laws J utf8 \<longleftrightarrow>
     (\<forall>j x k t. dump_json J j = Inr x \<longrightarrow> read_string J j k = Inr t \<longrightarrow> utf8 t) \<and>
     (\<forall>f n. utf8 f \<longrightarrow> (\<exists>x. dump_json J (received_request J f n) = Inr x))"

lemma dispatch_typed:
  assumes J: "json_laws (ce_json C)" "string_laws (ce_json C) utf8"
    and j: "server_message (ce_json C) j" "dump_json (ce_json C) j = Inr x"
  shows "\<exists>c'. dispatch_message C j c = Some (Inr (), c')"
proof (cases "find_field (ce_json C) j ''type''")
  case None
  then show ?thesis
    using j(1) J(1) by (simp add: dispatch_message_def value_at_def server_message_def act_run json_simps)
next
  case (Some v)
  let ?J = "ce_json C"
  have obj: "is_object ?J j" using j(1) by (simp add: server_message_def)
  consider "v = string_json ?J ''chunk_acknowledgment''"
      "find_field ?J j ''status'' = Some (string_json ?J ''success'') \<or> (\<exists>t. read_string ?J j ''error'' = Inr t)"
      "\<exists>t. read_string ?J j ''status'' = Inr t"
    | "v = string_json ?J ''incoming_file''" "\<exists>f. read_string ?J j ''filename'' = Inr f" "\<exists>i. read_int ?J j ''sender_id'' = Inr i"
    | "v = string_json ?J ''file_chunk''" "\<exists>f. read_string ?J j ''filename'' = Inr f" "\<exists>t. read_string ?J j ''chunk_data'' = Inr t"
      "\<exists>n. read_size ?J j ''chunk_number'' = Inr n" "\<exists>b. read_bool ?J j ''is_last'' = Inr b"
    | "v = string_json ?J ''receive_aes_key''"
    | "v = string_json ?J ''receive_msg''"
    using j(1) Some unfolding server_message_def schemas_def by auto
  then show ?thesis
  proof cases
    case 1
    obtain w where w: "const_at ?J j ''status'' = Inr w"
      using 1(3) by (auto simp: read_string_def rbind_def split: sum.splits)
    then show ?thesis using 1 Some J(1) obj
      by (auto simp: dispatch_message_def value_at_def handle_chunk_acknowledgment_def act_run json_simps const_at_def)
  next
    case 2
    then show ?thesis using Some J(1) obj
      by (auto simp: dispatch_message_def value_at_def handle_incoming_file_def act_run json_simps)
  next
    case 3
    then obtain f t n b where r: "read_string ?J j ''filename'' = Inr f" "read_string ?J j ''chunk_data'' = Inr t"
      "read_size ?J j ''chunk_number'' = Inr n" "read_bool ?J j ''is_last'' = Inr b" by blast
    then obtain y where "dump_json ?J (received_request ?J f n) = Inr y"
      using J(2) j(2) unfolding string_laws_def by blast
    then show ?thesis using 3(1) r Some J(1) obj
      by (cases "cl_incoming c f")
        (auto simp: dispatch_message_def value_at_def handle_incoming_file_chunk_def async_write_def act_run json_simps)
  next
    case 4
    then show ?thesis using Some J(1) obj
      by (simp add: dispatch_message_def value_at_def handle_receive_aes_key_def type_is_success_def act_run json_simps)
  next
    case 5
    then show ?thesis using Some J(1) obj
      by (simp add: dispatch_message_def value_at_def act_run json_simps)
  qed
qed

lemma process_typed:
  assumes J: "json_laws (ce_json C)" "wire_laws (ce_json C)" "string_laws (ce_json C) utf8"
    and t: "typed_text (ce_json C) t"
  shows "\<exists>c'. process_server_message C t c = Some (Inr (), c')"
proof -
  obtain j x where j: "dump_json (ce_json C) j = Inr x" "t = x @ delimiter" "server_message (ce_json C) j"
    using t by (auto simp: typed_text_def)
  have "parse_json (ce_json C) t = Inr j"
    unfolding j(2) by (rule wire_parse [OF J(2) j(1)]) (simp add: delimiter_def)
  moreover obtain c' where "dispatch_message C j c = Some (Inr (), c')"
    using dispatch_typed [OF J(1,3) j(3,1)] by blast
  ultimately show ?thesis by (simp add: process_server_message_def act_run)
qed

lemma process_all_typed:
  assumes "json_laws (ce_json C)" "wire_laws (ce_json C)" "string_laws (ce_json C) utf8"
    and "\<And>t. t \<in> set ts \<Longrightarrow> typed_text (ce_json C) t"
  shows "\<exists>c'. process_messages C ts c = Some (Inr (), c')"
  using assms(4)
proof (induction ts arbitrary: c)
  case (Cons t ts)
  obtain c1 where "process_server_message C t c = Some (Inr (), c1)"
    using process_typed [OF assms(1-3)] Cons.prems by (meson list.set_intros(1))
  moreover obtain c' where "process_messages C ts c1 = Some (Inr (), c')"
    using Cons.IH Cons.prems by (meson list.set_intros(2))
  ultimately show ?case by (simp add: act_run)
qed (simp add: act_run)

text \<open>
  C6: Whatever text arrives on a connection of the server, well formed or not, and whatever the
  databases and the file server do: everything that is written in return, to any connection, is a
  message of the schemas above, and the client that reads it processes it without an exception.
\<close>

theorem server_texts_accepted:
  assumes "socks E = recording_socks" "json_laws (json E)" "wire_laws (json E)" "string_laws (json E) utf8"
    and "handle_text E sock t s = Some (r, s')" "ce_json C = json E"
  shows "\<exists>mail. sv_socks s' = sv_socks s @ mail \<and> (\<forall>m \<in> set mail. typed_text (json E) (snd m)) \<and>
    (\<forall>k. \<exists>c'. process_messages C (mail_for k mail) c = Some (Inr (), c'))"
proof -
  have keep: "keeps (typed_since (json E) (sv_socks s)) (handle_text E sock t)"
    by (intro handle_text_keeps typed_dispatch assms(1,2) typed_write answers_typed)
  have "typed_since (json E) (sv_socks s) s'"
    by (rule keepsD [OF keep assms(5)]) (simp add: typed_since_def)
  then obtain mail where mail: "sv_socks s' = sv_socks s @ mail" "\<forall>m \<in> set mail. typed_text (json E) (snd m)"
    by (auto simp: typed_since_def)
  have "\<exists>c'. process_messages C (mail_for k mail) c = Some (Inr (), c')" for k
    by (rule process_all_typed) (use assms(2-4,6) mail(2) in \<open>auto simp: mail_for_def\<close>)
  then show ?thesis using mail by blast
qed

lemma example_string_laws: "string_laws example_json (\<lambda>_. True)"
  by (simp add: string_laws_def received_request_def example_json_def)

theorem server_texts_accepted_witness:
  "\<exists>s' x. handle_text message_services 6 [] ann_handler = Some (Inr (), s') \<and> sv_socks s' = [(6, x)] \<and>
    typed_text example_json x \<and> (\<exists>c'. process_messages (example_env free_socket) [x] (example_client [] []) = Some (Inr (), c'))"
proof -
  let ?J = example_json
  have parts: "json message_services = ?J" "socks message_services = recording_socks"
    "ce_json (example_env free_socket) = json message_services" "sv_socks ann_handler = []"
    by (simp_all add: example_env_def ann_handler_def example_handler_def)
  obtain x where x: "dump_json ?J (error_json ?J ''Invalid JSON format'') = Inr x"
    by (simp add: error_json_def status_json_def example_json_def)
  have "parse_json ?J (first_line []) = Inl Json_parse_error"
    by (simp add: first_line_def example_json_def jparse_def)
  then have run: "handle_text message_services 6 [] ann_handler = Some (Inr (), ann_handler\<lparr>sv_socks := [(6, x @ delimiter)]\<rparr>)"
    using x parts
    by (simp add: handle_text_def act_run write_json_ec_def act_on_def recording_socks_def)
  have laws: "json_laws (json message_services)" "wire_laws (json message_services)"
    "string_laws (json message_services) (\<lambda>_. True)"
    by (simp_all add: parts(1) example_json_laws example_wire_laws example_string_laws)
  obtain mail where "[(6, x @ delimiter)] = mail" "\<forall>m \<in> set mail. typed_text ?J (snd m)"
    "\<And>k. \<exists>c'. process_messages (example_env free_socket) (mail_for k mail) (example_client [] []) = Some (Inr (), c')"
    using server_texts_accepted [OF parts(2) laws run parts(3), of "example_client [] []"] parts(1,4) by auto
  moreover from this(3) [of 6] this(1) have
    "\<exists>c'. process_messages (example_env free_socket) [x @ delimiter] (example_client [] []) = Some (Inr (), c')"
    by (auto simp: mail_for_def)
  ultimately show ?thesis using run by auto
qed

end
