(* ===== verification/Own_Requests.thy ===== *)
theory Own_Requests
  imports Protocol Login
begin

text \<open>
  The requests of the client program against the handlers of the server: none of them makes a handler
  throw an exception, and only the last chunk of a file that is delivered ends in undefined behaviour.
  With \<open>mistyped_request_stops_server\<close>, where a foreign request throws, this tells what the server
  relies on. The two requests about keys are left out, see \<open>Key_Exchange\<close>.
\<close>

section \<open>Requests\<close>

text \<open>What \<open>client.cpp\<close> sends, with texts that can be printed.\<close>

inductive own_request :: "'j json_ops \<Rightarrow> 'j \<Rightarrow> bool" for J where
  own_register: "ascii nick \<Longrightarrow> ascii pass \<Longrightarrow> ascii ke \<Longrightarrow> ascii kd \<Longrightarrow> own_request J (register_request J nick pass ke kd)"
| own_authorize: "ascii nick \<Longrightarrow> ascii pass \<Longrightarrow> own_request J (authorize_request J i nick pass)"
| own_message: "ascii nick \<Longrightarrow> ascii t \<Longrightarrow> ascii name \<Longrightarrow> own_request J (message_request J i nick t name)"
| own_chunk: "ascii name \<Longrightarrow> ascii chunk \<Longrightarrow> own_request J (chunk_request J name chunk n is_last)"
| own_confirmation: "ascii name \<Longrightarrow> own_request J (received_request J name n)"

section \<open>What the libraries promise\<close>

text \<open>No failure of the HTTP library is undefined behaviour.\<close>

definition http_sound :: "'n http_ops \<Rightarrow> bool" where
  "http_sound N \<longleftrightarrow> no_ub N \<and>
     (\<forall>host port n u. fst (http_connect N host port n) \<noteq> Inl (Undefined_behaviour u)) \<and>
     (\<forall>q n u. fst (http_write N q n) \<noteq> Inl (Undefined_behaviour u))"

text \<open>\<open>INSERT ... RETURNING id\<close> gives rows with a column.\<close>

definition insert_message_law :: "'d pg_ops \<Rightarrow> bool" where
  "insert_message_law P \<longleftrightarrow>
     (\<forall>d a b t r d'. exec_params P d insert_message_sql [PInt a, PInt b, PText t] = (Inr r, d') \<longrightarrow> [] \<notin> set (pg_rows r))"

lemma or_else_caught: "(\<And>u. fst m \<noteq> Inl (Undefined_behaviour u)) \<Longrightarrow> \<exists>x r. or_else m y = (Inr x, r)"
  by (cases m; cases "fst m") (auto simp: or_else_def split: exn.splits)

lemma then_do_caught:
  "(\<And>u. fst m \<noteq> Inl (Undefined_behaviour u)) \<Longrightarrow> (\<And>x r u. fst (f x r) \<noteq> Inl (Undefined_behaviour u)) \<Longrightarrow>
   fst (then_do m f) \<noteq> Inl (Undefined_behaviour u)"
  by (cases m; cases "fst m") auto

lemma read_caught: "http_sound N \<Longrightarrow> fst (read_or_throw N n) \<noteq> Inl (Undefined_behaviour u)"
  using no_ub_read [of N "[]" n u] by (auto simp: http_sound_def read_or_throw_def split: prod.splits sum.splits http_error.splits)

lemma upload_caught:
  assumes "http_sound N"
  shows "\<exists>b n'. upload_chunk N c name data n = (Inr b, n')"
  unfolding upload_chunk_def
  by (intro or_else_caught then_do_caught read_caught [OF assms])
    (use assms in \<open>auto simp: http_sound_def split: prod.splits option.splits\<close>)

lemma download_loop_error:
  assumes "download_loop N buffer b cs n = Some (cs', Inl e, n')"
  shows "\<exists>b m. fst (http_read N [] b m) = Inl (Read_error e)"
proof -
  let ?stops = "\<lambda>k. body_at N (after_reads N k (b, n)) = []"
  obtain k where "?stops k" using download_loop_returns_stops [OF assms] by blast
  then have "?stops (Least ?stops)" "\<And>i. i < Least ?stops \<Longrightarrow> \<not> ?stops i"
    using LeastI [of ?stops] not_less_Least [of _ ?stops] by blast+
  from download_loop_collects [OF this(2,1), of buffer cs] show ?thesis using assms by auto
qed

lemma download_caught:
  assumes N: "http_sound N" and run: "download_file_chunks N c name n = Some (r, n')"
  shows "\<exists>chunks. r = Inr chunks"
proof -
  let ?start = "then_do (http_connect N (fc_host c) (fc_port c) n) (\<lambda>_. http_write N
      \<lparr>rq_method = Get_verb, rq_target = ''/download/'' @ name,
       rq_fields = [(''Host'', fc_host c), (''User-Agent'', beast_version N)], rq_body = []\<rparr>)"
  have sent: "fst ?start \<noteq> Inl (Undefined_behaviour u)" for u
    using N by (intro then_do_caught) (auto simp: http_sound_def)
  have caught: "\<exists>x. fst (or_else (Inl e, m) y) = Inr x" if "\<And>u. e \<noteq> Undefined_behaviour u" for e and m :: 'a and y :: "string list"
    using or_else_caught [of "(Inl e, m)" y] that by auto
  obtain q n1 where start: "?start = (q, n1)" by fastforce
  have no_ub: "no_ub N" using N by (simp add: http_sound_def)
  show ?thesis
  proof (cases q)
    case (Inl e)
    then have "\<And>u. e \<noteq> Undefined_behaviour u" using sent start by auto
    from caught [OF this, of n1 "[]"] show ?thesis using run start Inl by (auto simp: download_file_chunks_def)
  next
    case (Inr x)
    then obtain chunks ended n2 where loop: "download_loop N [] [] [] n1 = Some (chunks, ended, n2)"
      using run start by (cases "download_loop N [] [] [] n1") (auto simp: download_file_chunks_def)
    show ?thesis
    proof (cases ended)
      case (Inl e)
      obtain b m where "fst (http_read N [] b m) = Inl (Read_error e)"
        using download_loop_error [OF loop [unfolded Inl]] by blast
      then have "\<And>u. e \<noteq> Undefined_behaviour u" using no_ub_read [OF no_ub] by metis
      from caught [OF this, of n2 chunks] show ?thesis using run start \<open>q = Inr x\<close> loop Inl
        by (auto simp: download_file_chunks_def)
    next
      case Done: (Inr y)
      obtain ec n3 where shut: "http_shutdown N n2 = (ec, n3)" by fastforce
      show ?thesis
      proof (cases ec)
        case None
        then show ?thesis using run start Inr loop Done shut by (auto simp: download_file_chunks_def)
      next
        case (Some e)
        then have "\<And>u. e \<noteq> Undefined_behaviour u" using no_ub_shutdown [OF no_ub shut] by blast
        from caught [OF this, of n3 chunks] show ?thesis using run start Inr loop Done shut Some
          by (auto simp: download_file_chunks_def)
      qed
    qed
  qed
qed

section \<open>The handlers\<close>

lemma connected_stable:
  "connected (s\<lparr>rm_net := n\<rparr>) = connected s" "connected (s\<lparr>sv_socks := w\<rparr>) = connected s"
  "connected (s\<lparr>sv_uploads := u\<rparr>) = connected s" "connected (s\<lparr>sv_pending := p\<rparr>) = connected s"
  "connected (set_upload name up s) = connected s" "connected (s\<lparr>sv_user_counter := c\<rparr>) = connected s"
  "connected (s\<lparr>sv_clients := cl\<rparr>) = connected s"
  by (simp_all add: connected_def set_upload_def)

lemma connected_dispatch: "keeps connected (dispatch E sock request)"
proof (rule dispatch_keeps)
  show frame: "frame_law E connected" by (simp add: frame_law_def io_law_def connected_stable)
  show "database_law E connected"
    unfolding database_law_def get_user_id_def create_message_def get_public_keys_def create_user_def set_public_keys_def
    by (simp add: on_database_connected)
  show "keeps connected (handle_authorize E sock request)"
    unfolding handle_authorize_def authorize_user_def
    by (intro keeps_intros frame_write [OF frame] keeps_modify) (simp_all add: connected_stable)
qed

lemma write_outcome:
  assumes "reliable E sent"
  shows "plain (json E) j \<Longrightarrow> outcome connected never any_value (write_json E sock j)"
    "outcome connected catchable any_value (write_json E sock j)"
proof -
  show "outcome connected never any_value (write_json E sock j)" if "plain (json E) j"
    unfolding outcome_def
  proof (intro allI impI)
    fix s r s' assume "connected s" "write_json E sock j s = Some (r, s')"
    then show "connected s' \<and> (case r of Inl e \<Rightarrow> never e | Inr x \<Rightarrow> any_value x)"
      using write_json_plain [OF assms that, of sock s] by (auto simp: connected_stable)
  qed
  have "\<exists>w'. sock_write (socks E) sock t w = (Inr (), w')" for t w
    using assms unfolding reliable_def sends_all_def by blast
  moreover have "dump_json (json E) j = Inl e \<Longrightarrow> catchable e" for e
    using reliable_laws(2) [OF assms] unfolding dump_laws_def by blast
  ultimately show "outcome connected catchable any_value (write_json E sock j)"
    unfolding outcome_def write_json_def write_socket_def act_bind_def act_lift_def act_on_def
    by (auto simp: connected_stable split: sum.splits option.splits prod.splits) (metis old.sum.distinct(1) prod.inject)
qed

lemma file_server_outcome:
  fixes E :: "('d, 'j, 'b, 'w) services"
  assumes "http_sound (beast E)"
  shows "outcome connected never any_value (upload_file_chunk E name chunk :: (('d, 'b, 'z) repo_manager_scheme, bool) action)"
    "outcome connected never any_value (repo_download_file_chunks E name :: (('d, 'b, 'z) repo_manager_scheme, string list) action)"
proof -
  show "outcome connected never any_value (upload_file_chunk E name chunk :: (('d, 'b, 'z) repo_manager_scheme, bool) action)"
    unfolding outcome_def
  proof (intro allI impI)
    fix s :: "('d, 'b, 'z) repo_manager_scheme" and r s' assume "connected s" "upload_file_chunk E name chunk s = Some (r, s')"
    then show "connected s' \<and> (case r of Inl e \<Rightarrow> never e | Inr x \<Rightarrow> any_value x)"
      using upload_caught [OF assms, of "rm_file_client s" name chunk "rm_net s"]
      by (auto simp: upload_file_chunk_def act_on_def connected_def)
  qed
  show "outcome connected never any_value (repo_download_file_chunks E name :: (('d, 'b, 'z) repo_manager_scheme, string list) action)"
    unfolding outcome_def
  proof (intro allI impI)
    fix s :: "('d, 'b, 'z) repo_manager_scheme" and r s' assume "connected s" "repo_download_file_chunks E name s = Some (r, s')"
    then show "connected s' \<and> (case r of Inl e \<Rightarrow> never e | Inr x \<Rightarrow> any_value x)"
      using download_caught [OF assms, of "rm_file_client s" name "rm_net s" r]
      by (auto simp: repo_download_file_chunks_def connected_def split: option.splits)
  qed
qed

lemma messages_outcome:
  assumes "reliable E sent"
  shows "outcome connected never any_value (send_file_messages E sock name i chunks)"
proof (induction chunks arbitrary: i)
  case (Cons c cs)
  show ?case
    unfolding send_file_messages.simps Let_def
    by (intro outcome_intros outcome_catch write_outcome(2) [OF assms] Cons.IH) simp_all
qed (simp add: outcome_intros)

lemma notify_outcome:
  assumes "reliable E sent" "http_sound (beast E)"
  shows "outcome connected (\<lambda>e. e = erased_transfer) any_value (notify_receiver E name)"
proof -
  have send: "outcome connected never any_value (send_file_to_client E sock name)" for sock
    unfolding send_file_to_client_def
    by (intro outcome_intros file_server_outcome [OF assms(2)] messages_outcome [OF assms(1)]) simp
  show ?thesis
    unfolding notify_receiver_def
    by (intro outcome_intros outcome_catch_but outcome_throw outcome_modify outcome_weaken [OF write_outcome(2) [OF assms(1)]]
        outcome_weaken [OF send])
      (simp_all add: connected_stable)
qed

lemma chunk_outcome:
  assumes "reliable E sent" "http_sound (beast E)" "ascii name"
  shows "outcome connected (\<lambda>e. e = erased_transfer) (plain (json E)) (receive_chunk E name chunk n is_last)"
proof -
  note J = reliable_laws(1) [OF assms(1)]
  have ack: "plain (json E) (ack_json (json E) name n)"
    unfolding ack_json_def by (intro plain_field plain_start plain_value.intros J assms(3)) simp_all
  then have refused: "plain (json E) (refuse_json (json E) t (ack_json (json E) name n))" if "ascii t" for t
    unfolding refuse_json_def by (intro plain_field plain_value.intros J that) simp_all
  show ?thesis
    unfolding receive_chunk_def Let_def
    by (intro outcome_intros outcome_modify outcome_weaken [OF file_server_outcome(1) [OF assms(2)]]
        notify_outcome [OF assms(1,2)] refused ack_plain [OF J assms(3)]) (simp_all add: connected_stable)
qed

text \<open>The exception that is left comes from the delivery of a file.\<close>

lemma chunk_throws:
  assumes "http_sound (beast E)" "receive_chunk E name chunk n is_last s = Some (Inl e, s')"
  shows "is_last \<and> notified name s \<noteq> None"
proof (rule ccontr)
  assume quiet: "\<not> (is_last \<and> notified name s \<noteq> None)"
  let ?u = "upload_of name (sv_uploads s)"
  obtain b n' where "upload_chunk (beast E) (rm_file_client s) name chunk (rm_net s) = (Inr b, n')"
    using upload_caught [OF assms(1)] by blast
  then have client: "upload_file_chunk E name chunk (set_upload name ?u s) = Some (Inr b, (set_upload name ?u s)\<lparr>rm_net := n'\<rparr>)"
    by (simp add: upload_file_chunk_def act_run set_upload_def)
  let ?s = "(set_upload name ?u s)\<lparr>rm_net := n'\<rparr>"
  have "notify_receiver E name (set_upload name v (set_upload name w ?s)) = Some (Inr (), set_upload name v (set_upload name w ?s))"
    if is_last for v w
  proof -
    have "notified name s = None" using quiet that by blast
    then show ?thesis by (intro notify_nobody) simp
  qed
  then show False using assms(2) client
    by (cases b; cases is_last) (auto simp: receive_chunk_def Let_def act_run split: if_splits)
qed

text \<open>Everything that the server is built on keeps its documented behaviour.\<close>

definition sound_services ::
    "('d, 'j, 'n, 'w) services \<Rightarrow> ('w \<Rightarrow> (socket \<times> string) list) \<Rightarrow> ('d \<Rightarrow> user_row list) \<Rightarrow> ('d \<Rightarrow> keys_row list) \<Rightarrow> bool" where
  "sound_services E sent users keys \<longleftrightarrow>
     reliable E sent \<and> wire_laws (json E) \<and> pg_user_laws (pg E) users keys \<and> insert_message_law (pg E) \<and> http_sound (beast E)"

lemma message_created_caught:
  assumes "pg_user_laws P users keys" "insert_message_law P"
  shows "\<exists>i d'. metadata_create P m d = (Inr i, d')"
  unfolding metadata_create_def
proof (intro or_else_caught)
  fix u
  let ?vs = "[PInt (metadata_get_sender_id m), PInt (metadata_get_receiver_id m),
    PText (format_timestamp (metadata_get_created_timestamp m))]"
  have cell: "cell_int P r 0 \<noteq> Inl (Undefined_behaviour u)" if "[] \<notin> set (pg_rows r)" "pg_rows r \<noteq> []" for r
    using that assms(1) unfolding pg_user_laws_def no_ub_law_def
    by (cases "pg_rows r") (auto simp: cell_int_def cell_string_def cell_def as_string_def rbind_def split: sum.splits option.splits)
  obtain q d1 where run: "exec_params P d insert_message_sql ?vs = (q, d1)" by fastforce
  show "fst (run_committed P d insert_message_sql ?vs (\<lambda>r. if pg_rows r = [] then Inr 0 else cell_int P r 0))
    \<noteq> Inl (Undefined_behaviour u)"
  proof (cases q)
    case (Inl e)
    then show ?thesis using run law_no_ub(2) [OF assms(1), of d insert_message_sql ?vs e d1 u] by (simp add: run_committed_def)
  next
    case (Inr r)
    obtain q' d2 where "commit_txn P d d1 = (q', d2)" by fastforce
    moreover have "[] \<notin> set (pg_rows r)" using assms(2) run Inr unfolding insert_message_law_def by blast
    ultimately show ?thesis
      using run Inr cell [of r] law_no_ub(1) [OF assms(1), of d d1 _ d2 u]
      by (cases q') (auto simp: run_committed_def)
  qed
qed

lemma own_request_plain: "json_laws J \<Longrightarrow> own_request J j \<Longrightarrow> plain J j"
  by (erule own_request.cases) (auto intro: request_plain message_request_plain chunk_request_plain
      simp: received_request_def intro!: plain_field plain_start plain_value.intros)

lemma confirmation_answered:
  assumes rel: "reliable E sent"
  shows "\<exists>w. dispatch E sock (received_request (json E) name n) s = Some (Inr (), s\<lparr>sv_socks := w\<rparr>)"
proof -
  note J = reliable_laws(1) [OF rel]
  have "plain (json E) (error_json (json E) ''Unknown request type'')"
    unfolding error_json_def status_json_def by (intro plain_field plain_start plain_value.intros J) simp_all
  then show ?thesis
    using J write_json_ec_plain [OF rel, of "error_json (json E) ''Unknown request type''" sock s]
    by (auto simp: dispatch_def received_request_def contains_def is_request_def json_simps)
qed

text \<open>A last chunk whose file is pending for a receiver who is connected.\<close>

definition delivers :: "'j json_ops \<Rightarrow> 'j \<Rightarrow> ('d, 'n, 'w) handler \<Rightarrow> bool" where
  "delivers J j s \<longleftrightarrow> (\<exists>name chunk n t. j = chunk_request J name chunk n True \<and>
     List.find (\<lambda>t. pft_filename t = name) (sv_pending s) = Some t \<and>
     get_client_socket (pft_receiver_id t) (sv_clients s) \<noteq> None)"

lemma delivers_chunk: "json_laws J \<Longrightarrow> delivers J j s \<Longrightarrow> is_request J j ''file_chunk''"
  by (auto simp: delivers_def chunk_request_def is_request_def json_simps)

lemma not_a_chunk:
  "json_laws J \<Longrightarrow> \<not> is_request J (authorize_request J i nick pass) ''file_chunk''"
  "json_laws J \<Longrightarrow> \<not> is_request J (received_request J name n) ''file_chunk''"
  by (simp_all add: authorize_request_def received_request_def is_request_def json_simps)

lemma own_request_handled:
  assumes sound: "sound_services E sent users keys" and "own_request (json E) j" "connected s"
    and run: "dispatch E sock j s = Some (r, s')"
  shows "connected s' \<and> (r = Inr () \<or> r = Inl erased_transfer \<and> delivers (json E) j s)"
proof -
  have rel: "reliable E sent" and pg: "pg_user_laws (pg E) users keys" and msg: "insert_message_law (pg E)"
    and http: "http_sound (beast E)" using sound by (simp_all add: sound_services_def)
  note J = reliable_laws(1) [OF rel]
  obtain d m where conn: "rm_connections s ''user_metadata_db'' = Some d" "rm_connections s ''message_metadata_db'' = Some m"
    using assms(3) by (auto simp: connected_def)
  have "connected s'" by (rule keepsD [OF connected_dispatch run assms(3)])
  moreover have "r = Inr () \<or> r = Inl erased_transfer \<and> delivers (json E) j s"
    using assms(2)
  proof cases
    case (own_register nick pass ke kd)
    then show ?thesis using server_registers [OF rel pg conn(1), of sock nick pass ke kd] run by auto
  next
    case (own_authorize nick pass i)
    then show ?thesis using server_authorizes [OF rel pg conn(1), of sock i nick pass] run by auto
  next
    case (own_message nick t name i)
    note fields = message_request_fields [OF J, of i nick t name]
    obtain receiver d1 where "user_get_id_of (pg E) (json E) nick d = (Inr receiver, d1)"
      using user_get_id_spec [OF pg] by blast
    then obtain s1 where s1: "get_user_id E nick s = Some (Inr receiver, s1)" "connected s1"
      using conn by (auto simp: get_user_id_def act_run connected_def)
    obtain d2 where "rm_connections s1 ''message_metadata_db'' = Some d2" using s1(2) by (auto simp: connected_def)
    then obtain k s2 where s2: "create_message E (message_new (clock E) i receiver t) s1 = Some (Inr k, s2)"
      using message_created_caught [OF pg msg, of "message_get_metadata (message_new (clock E) i receiver t)" d2]
      by (auto simp: create_message_def act_run)
    have name: "case Some name of Some f \<Rightarrow> ascii f | None \<Rightarrow> True" using own_message(4) by simp
    from send_message_run [OF rel fields(1-4) own_message(3) fields(5) name s1(1) s2, of sock]
    show ?thesis using run unfolding own_message(1) dispatch_message_request [OF J] by (auto split: if_splits)
  next
    case (own_chunk name chunk n is_last)
    have "outcome connected (\<lambda>e. e = erased_transfer) any_value (act_bind (receive_chunk E name chunk n is_last)
        (\<lambda>response. act_catch (write_json E sock response) (act_return ())))"
      by (intro outcome_bind [OF chunk_outcome [OF rel http own_chunk(2)]] outcome_catch
          outcome_weaken [OF write_outcome(1) [OF rel]] outcome_intros) simp_all
    from outcomeD [OF this, of s r s'] have r: "case r of Inl e \<Rightarrow> e = erased_transfer | Inr x \<Rightarrow> True"
      using run assms(3) unfolding own_chunk(1) dispatch_chunk [OF J] by auto
    show ?thesis
    proof (cases r)
      case (Inl e)
      have answer: "act_catch (write_json E sock response) (act_return ()) s1 \<noteq> Some (Inl e, s2)"
        if "plain (json E) response" for response s1 s2
        using write_json_plain [OF rel that, of sock s1] by (auto simp: act_run)
      have "\<exists>s1. receive_chunk E name chunk n is_last s = Some (Inl e, s1)"
      proof (cases "receive_chunk E name chunk n is_last s")
        case None
        then show ?thesis using run unfolding own_chunk(1) dispatch_chunk [OF J] by (simp add: act_run)
      next
        case (Some p)
        then obtain q s1 where p: "receive_chunk E name chunk n is_last s = Some (q, s1)" by (cases p) simp
        have "case q of Inl e \<Rightarrow> True | Inr x \<Rightarrow> plain (json E) x"
          using outcomeD [OF chunk_outcome [OF rel http own_chunk(2)] p assms(3)] by (cases q) simp_all
        then show ?thesis using p run Inl answer unfolding own_chunk(1) dispatch_chunk [OF J]
          by (cases q) (auto simp: act_run)
      qed
      then obtain s1 where "receive_chunk E name chunk n is_last s = Some (Inl e, s1)" by blast
      from chunk_throws [OF http this] obtain t where "is_last"
        "List.find (\<lambda>t. pft_filename t = name) (sv_pending s) = Some t"
        "get_client_socket (pft_receiver_id t) (sv_clients s) \<noteq> None"
        by (auto simp: notified_def split: option.splits)
      then show ?thesis using r Inl own_chunk(1) unfolding delivers_def by auto
    qed simp
  next
    case (own_confirmation name n)
    then show ?thesis using run confirmation_answered [OF rel, of sock name n s] by auto
  qed
  ultimately show ?thesis by simp
qed

section \<open>A session\<close>

text \<open>
  C7: A connection on which only printable requests of this client arrive, with sockets that accept every
  write, never ends by an exception: whatever the databases and the file server answer, every handler
  that returns has returned normally, so the thread of the server goes on. The one other end is
  undefined behaviour, and only by a last chunk of a file that is pending at that point for a
  receiver who is connected. The requests about keys are not among them.
\<close>

theorem own_requests_survive:
  assumes "sound_services E sent users keys" "connected s"
    and "\<And>j. j \<in> set js \<Longrightarrow> own_request (json E) j"
    and "handle_texts E sock (map (wire (json E)) js) s = Some (r, s')"
  shows "r = Inr () \<or> r = Inl erased_transfer \<and>
    (\<exists>before j later s1. js = before @ j # later \<and>
      handle_texts E sock (map (wire (json E)) before) s = Some (Inr (), s1) \<and> delivers (json E) j s1)"
  using assms(2-4)
proof (induction js arbitrary: s)
  case (Cons j js)
  have rel: "reliable E sent" and wire: "wire_laws (json E)" using assms(1) by (simp_all add: sound_services_def)
  have own: "own_request (json E) j" using Cons.prems(2) by simp
  have parse: "parse_json (json E) (first_line (wire (json E) j)) = Inr j"
    by (rule first_line_wire [OF wire reliable_laws(2) [OF rel] own_request_plain [OF reliable_laws(1) [OF rel] own]])
  show ?case
  proof (cases "dispatch E sock j s")
    case None
    then have "handle_text E sock (wire (json E) j) s = None"
      using parse by (simp add: handle_text_def act_run)
    then show ?thesis using Cons.prems(3) by (simp add: act_run)
  next
    case (Some p)
    then obtain q s1 where d: "dispatch E sock j s = Some (q, s1)" by (cases p) simp
    from own_request_handled [OF assms(1) own Cons.prems(1) this]
    consider "q = Inr ()" "connected s1" | "q = Inl erased_transfer" "delivers (json E) j s" by blast
    then show ?thesis
    proof cases
      case 1
      then have one: "handle_text E sock (wire (json E) j) s = Some (Inr (), s1)"
        using d parse by (simp add: handle_text_def act_run)
      then have "handle_texts E sock (map (wire (json E)) js) s1 = Some (r, s')"
        using Cons.prems(3) by (simp add: act_run)
      from Cons.IH [OF 1(2) _ this] Cons.prems(2)
      consider "r = Inr ()" | before j' later s2 where "r = Inl erased_transfer" "js = before @ j' # later"
        "handle_texts E sock (map (wire (json E)) before) s1 = Some (Inr (), s2)" "delivers (json E) j' s2" by auto
      then show ?thesis
      proof cases
        case (2 before j' later s2)
        then have "j # js = (j # before) @ j' # later"
          "handle_texts E sock (map (wire (json E)) (j # before)) s = Some (Inr (), s2)"
          using one by (simp_all add: act_run)
        then show ?thesis using 2(1,4) by blast
      qed simp
    next
      case 2
      then have "handle_text E sock (wire (json E) j) s = Some (Inl erased_transfer, s1)"
        using d parse by (simp add: handle_text_def act_run erased_transfer_def)
      then have "r = Inl erased_transfer" using Cons.prems(3) by (simp add: act_run)
      moreover have "j # js = [] @ j # js" "handle_texts E sock (map (wire (json E)) []) s = Some (Inr (), s)"
        by (simp_all add: act_run)
      ultimately show ?thesis using 2(2) by blast
    qed
  qed
qed (simp add: act_run)

lemma example_sound: "sound_services example_services (\<lambda>w. w) good_users good_keys"
proof -
  have "http_sound (beast example_services)"
    using loop_network_no_ub [of willing_io]
    by (auto simp: http_sound_def example_services_def loop_network_def)
  moreover have "insert_message_law (pg example_services)"
    by (auto simp: insert_message_law_def example_services_def example_pg_fields)
  ultimately show ?thesis
    using example_reliable example_wire_laws example_pg_laws by (simp add: sound_services_def)
qed

theorem own_requests_survive_witness:
  "\<exists>s'. handle_texts example_services 3 (map (wire example_json) [authorize_request example_json 1 ''ann'' ''pw'',
     received_request example_json ''f'' 1]) ann_handler = Some (Inr (), s')"
proof -
  let ?js = "[authorize_request example_json 1 ''ann'' ''pw'', received_request example_json ''f'' 1]"
  have own: "j \<in> set ?js \<Longrightarrow> own_request (json example_services) j" for j
    by (auto intro: own_request.intros)
  have conn: "connected ann_handler"
    by (simp add: connected_def ann_handler_def example_handler_def)
  have laws: "json_laws (json example_services)" "wire_laws (json example_services)" "dump_laws (json example_services)"
    using example_reliable example_wire_laws by (simp_all add: reliable_def)
  have handled: "handle_text example_services 3 (wire (json example_services) j) w = Some (Inr (), w')"
    if "j \<in> set ?js" "dispatch example_services 3 j w = Some (Inr (), w')" for j w w'
    by (rule handle_wire [OF laws(2,3) own_request_plain [OF laws(1) own [OF that(1)]] that(2)])
  have tables: "rm_connections ann_handler ''user_metadata_db'' = Some ann_tables"
    by (simp add: ann_handler_def)
  obtain w where w: "dispatch example_services 3 (hd ?js) ann_handler = Some (Inr (), w)"
    using server_authorizes [of example_services "\<lambda>w. w", OF _ _ tables, of good_users good_keys 3 1 "''ann''" "''pw''"]
      example_sound by (auto simp: sound_services_def)
  obtain w' where "dispatch example_services 3 (?js ! 1) w = Some (Inr (), w')"
    using confirmation_answered [of example_services "\<lambda>w. w" 3 "''f''" 1 w] example_sound by (auto simp: sound_services_def)
  then obtain r s' where run: "handle_texts example_services 3 (map (wire (json example_services)) ?js) ann_handler = Some (r, s')"
    using w handled by (simp add: act_run)
  have "\<not> delivers (json example_services) j s1" if "j \<in> set ?js" for j s1
  proof -
    have "\<not> is_request (json example_services) j ''file_chunk''"
      using that not_a_chunk [OF laws(1)] by (auto simp: example_services_def)
    then show ?thesis using delivers_chunk [OF laws(1)] by blast
  qed
  moreover have "j \<in> set ?js" if "?js = before @ j # later" for before j later
    using arg_cong [OF that, of set] by auto
  ultimately have "r = Inr ()" using own_requests_survive [OF example_sound conn own run] by blast
  then show ?thesis using run by auto
qed

end
