(* ===== verification/Pending_Transfers.thy ===== *)
theory Pending_Transfers
  imports Login
begin

text \<open>
  What becomes of a file whose receiver is not connected when its last chunk arrives:
  \<open>handle_file_chunk\<close> of \<open>server/src/request_handler.cpp\<close> leaves the transfer pending, and what the
  other handlers do with it.
\<close>

section \<open>Requests that touch an upload\<close>

text \<open>Only the next chunk of the file, or a message that announces the name again, does.\<close>

definition touches :: "'j json_ops \<Rightarrow> string \<Rightarrow> u64 \<Rightarrow> 'j \<Rightarrow> bool" where
  "touches J name n request \<longleftrightarrow>
     is_request J request ''file_chunk'' \<and> read_string J request ''filename'' = Inr name \<and>
       read_size J request ''chunk_number'' = Inr n \<or>
     is_request J request ''send_message'' \<and> has_file J request \<and> read_string J request ''file_name'' = Inr name"

text \<open>A run of the server in which no handled text holds a request of a kind \<open>P\<close>.\<close>

inductive run_without ::
    "('d, 'j, 'n, 'w) services \<Rightarrow> ('j \<Rightarrow> bool) \<Rightarrow> ('d, 'n, 'w) handler \<Rightarrow> ('d, 'n, 'w) handler \<Rightarrow> bool" for E P s0 where
  without_start: "run_without E P s0 s0"
| without_text: "run_without E P s0 s \<Longrightarrow> handle_text E sock t s = Some (r, s') \<Longrightarrow>
    \<forall>request. parse_json (json E) (first_line t) = Inr request \<longrightarrow> \<not> P request \<Longrightarrow> run_without E P s0 s'"
| without_close: "run_without E P s0 s \<Longrightarrow>
    run_without E P s0 (s\<lparr>sv_clients := remove_client_by_socket sock (sv_clients s)\<rparr>)"
| without_socks: "run_without E P s0 s \<Longrightarrow> run_without E P s0 (s\<lparr>sv_socks := w\<rparr>)"

section \<open>What stays\<close>

definition transfer_stays :: "string \<Rightarrow> upload_state \<Rightarrow> pending_file_transfer \<Rightarrow> ('d, 'n, 'w) handler \<Rightarrow> bool" where
  "transfer_stays name u t s \<longleftrightarrow> upload_of name (sv_uploads s) = u \<and> t \<in> set (sv_pending s)"

lemma stays_io: "io_law E (transfer_stays name u t)"
  by (simp add: io_law_def transfer_stays_def)

lemma stays_database: "database_law E (transfer_stays name u t)"
  unfolding database_law_def get_user_id_def create_message_def get_public_keys_def create_user_def
    set_public_keys_def on_database_def by (auto intro!: keeps_on simp: transfer_stays_def)

lemma stays_authorize: "keeps (transfer_stays name u t) (handle_authorize E sock request)"
  unfolding handle_authorize_def authorize_user_def on_database_def
  by (intro keeps_intros io_write [OF stays_io] keeps_modify keeps_on) (simp_all add: transfer_stays_def)

text \<open>Other names: their uploads, their announcements and their notifications.\<close>

lemma stays_announce:
  "other \<noteq> name \<Longrightarrow> keeps (transfer_stays name u t) (act_modify (announce_transfer other sender receiver))"
  by (rule keeps_modify) (simp add: transfer_stays_def announce_transfer_def upload_of_def)

lemma stays_set_upload: "other \<noteq> name \<Longrightarrow> keeps (transfer_stays name u t) (act_modify (set_upload other v))"
  by (rule keeps_modify) (simp add: transfer_stays_def set_upload_def upload_of_def)

lemma stays_notify:
  assumes "pft_filename t = name" "other \<noteq> name"
  shows "keeps (transfer_stays name u t) (notify_receiver E other)"
  unfolding keeps_def
proof (intro allI impI)
  fix s r s' assume I: "transfer_stays name u t s" and run: "notify_receiver E other s = Some (r, s')"
  define found where "found = List.find (\<lambda>t. pft_filename t = other) (sv_pending s)"
  have removed: "keeps (transfer_stays name u t) (act_modify (\<lambda>s. s\<lparr>sv_pending := remove1 x (sv_pending s)\<rparr>))"
    if "found = Some x" for x
  proof -
    have "x \<noteq> t" using that assms by (auto simp: found_def find_Some_iff)
    then show ?thesis by (intro keeps_modify) (simp add: transfer_stays_def in_set_remove1)
  qed
  show "transfer_stays name u t s'"
  proof (cases found)
    case None
    then show ?thesis using run I by (simp add: notify_receiver_def act_run found_def)
  next
    case (Some x)
    let ?rest = "\<lambda>sock. act_catch
      (act_then (write_json E sock (put_int (json E) ''sender_id'' (pft_sender_id x)
          (put_string (json E) ''filename'' other
            (put_string (json E) ''type'' ''incoming_file'' (null_json (json E))))))
        (act_then (send_file_to_client E sock other)
          (act_then (act_modify (\<lambda>s. s\<lparr>sv_pending := remove1 x (sv_pending s)\<rparr>))
            (act_lift (Inl erased_transfer)))))
      (act_return ())"
    have keep: "keeps (transfer_stays name u t) (?rest sock)" for sock
      by (intro keeps_intros io_write [OF stays_io] io_send_file [OF stays_io] removed Some)
    show ?thesis
    proof (cases "get_client_socket (pft_receiver_id x) (sv_clients s)")
      case None
      then show ?thesis using run I Some by (simp add: notify_receiver_def act_run found_def)
    next
      case (Some sock)
      then have "?rest sock s = Some (r, s')"
        using run \<open>found = Some x\<close> by (simp add: notify_receiver_def act_run found_def)
      then show ?thesis by (rule keepsD [OF keep _ I])
    qed
  qed
qed

lemma stays_other_chunk:
  assumes "pft_filename t = name" "other \<noteq> name"
  shows "keeps (transfer_stays name u t) (receive_chunk E other chunk n is_last)"
  unfolding receive_chunk_def Let_def
  by (intro keeps_intros io_upload [OF stays_io] stays_notify stays_set_upload assms)

text \<open>A chunk of the file itself with another number than the next is refused.\<close>

lemma receive_refused:
  assumes "n \<noteq> last_chunk_received (upload_of name (sv_uploads s)) + 1"
  shows "receive_chunk E name chunk n is_last s =
    Some (Inr (refuse_json (json E) ''wrong_chunk_order'' (ack_json (json E) name n)),
      set_upload name (upload_of name (sv_uploads s)) s)"
  using assms by (simp add: receive_chunk_def Let_def act_run)

lemma stays_refused_chunk:
  assumes "n \<noteq> last_chunk_received u + 1"
  shows "keeps (transfer_stays name u t) (receive_chunk E name chunk n is_last)"
  unfolding keeps_def
proof (intro allI impI)
  fix s r s' assume I: "transfer_stays name u t s" and "receive_chunk E name chunk n is_last s = Some (r, s')"
  then have "s' = set_upload name (upload_of name (sv_uploads s)) s"
    using receive_refused [of n name s E chunk is_last] assms by (auto simp: transfer_stays_def)
  then show "transfer_stays name u t s'" using I by (simp add: transfer_stays_def set_upload_def upload_of_def)
qed

lemma stays_file_chunk:
  assumes "pft_filename t = name" "\<not> touches (json E) name (last_chunk_received u + 1) request"
    and "is_request (json E) request ''file_chunk''"
  shows "keeps (transfer_stays name u t) (handle_file_chunk E sock request)"
  unfolding handle_file_chunk_def
proof (intro keeps_lift keeps_bind keeps_catch keeps_basic io_write [OF stays_io])
  fix other chunk n is_last assume "read_string (json E) request ''filename'' = Inr other"
    "read_size (json E) request ''chunk_number'' = Inr n"
  then have "other \<noteq> name \<or> n \<noteq> last_chunk_received u + 1" using assms(2,3) by (auto simp: touches_def)
  then show "keeps (transfer_stays name u t) (receive_chunk E other chunk n is_last)"
    using stays_other_chunk [OF assms(1)] stays_refused_chunk by (cases "other = name") auto
qed

lemma stays_dispatch:
  assumes "pft_filename t = name" "\<not> touches (json E) name (last_chunk_received u + 1) request"
  shows "keeps (transfer_stays name u t) (dispatch E sock request)"
proof (intro dispatch_keeps_io stays_io stays_database stays_authorize stays_file_chunk [OF assms])
  fix sender receiver msg assume "is_request (json E) request ''send_message''"
  then show "keeps (transfer_stays name u t) (deliver_message E sock request sender receiver msg)"
    using assms(2) by (intro io_deliver stays_io stays_announce) (auto simp: touches_def)
qed (simp_all add: transfer_stays_def)

lemma stays_run:
  assumes "run_without E (touches (json E) name (last_chunk_received u + 1)) s0 s" "pft_filename t = name"
    and "transfer_stays name u t s0"
  shows "transfer_stays name u t s"
  using assms(1,3)
proof induction
  case (without_text s sock msg r s')
  have "transfer_stays name u t s" by (rule without_text.IH [OF without_text.prems])
  show ?case
  proof (cases "parse_json (json E) (first_line msg)")
    case (Inl e)
    have "keeps (transfer_stays name u t) (handle_text E sock msg)"
      unfolding keeps_def handle_text_def
      using Inl keepsD [OF io_write(2) [OF stays_io]] by (auto simp: act_run split: exn.splits)
    from keepsD [where I = "transfer_stays name u t", OF this without_text.hyps(2)] show ?thesis
      using \<open>transfer_stays name u t s\<close> .
  next
    case (Inr request)
    then have keep: "keeps (transfer_stays name u t) (dispatch E sock request)"
      using without_text.hyps(3) by (intro stays_dispatch assms(2)) simp
    obtain q s1 where run: "dispatch E sock request s = Some (q, s1)"
      using without_text.hyps(2) Inr by (cases "dispatch E sock request s") (auto simp: handle_text_def act_run)
    have "transfer_stays name u t s1" by (rule keepsD [OF keep run \<open>transfer_stays name u t s\<close>])
    then show ?thesis
      using without_text.hyps(2) Inr run keepsD [OF io_write(2) [OF stays_io], where s = s1]
      by (auto simp: handle_text_def act_run split: sum.splits exn.splits)
  qed
qed (simp_all add: transfer_stays_def)

section \<open>Properties\<close>

lemma last_chunk_offline:
  assumes "List.find (\<lambda>t. pft_filename t = name) (sv_pending s) = Some t"
    and "get_client_socket (pft_receiver_id t) (sv_clients s) = None"
    and "n = last_chunk_received (upload_of name (sv_uploads s)) + 1"
    and "fst (upload_chunk (beast E) (rm_file_client s) name chunk (rm_net s)) = Inr True"
    and "receive_chunk E name chunk n True s = Some (r, s')"
  shows "transfer_stays name \<lparr>last_chunk_received = n, completed = True\<rparr> t s' \<and> pft_filename t = name"
proof -
  let ?u = "upload_of name (sv_uploads s)"
  obtain w where up: "upload_chunk (beast E) (rm_file_client s) name chunk (rm_net s) = (Inr True, w)"
    using assms(4) by (metis prod.collapse)
  have quiet: "notify_receiver E name x = Some (Inr (), x)"
    if "sv_pending x = sv_pending s" "sv_clients x = sv_clients s" for x
    using assms(1,2) that by (simp add: notify_receiver_def act_run)
  have "sv_pending s' = sv_pending s \<and> upload_of name (sv_uploads s') = \<lparr>last_chunk_received = n, completed = True\<rparr>"
    using assms(3,5) up by (auto simp: receive_chunk_def Let_def act_run upload_file_chunk_def set_upload_def quiet upload_of_def)
  then show ?thesis using assms(1) by (auto simp: transfer_stays_def find_Some_iff)
qed


lemma authorize_touches_nothing: "json_laws J \<Longrightarrow> \<not> touches J name n (authorize_request J i nick pass)"
  by (simp add: touches_def is_request_def authorize_request_def json_simps)


end
