(* ===== verification/Client_Exit.thy ===== *)
theory Client_Exit
  imports Client_Async
begin

text \<open>
  How the process of the chat client starts its threads and ends: the rest of \<open>Client::run\<close> around the
  interaction with the user, the destructor and \<open>show_actions\<close> of \<open>client/src/client.cpp\<close>. The
  threads run the \<open>io_service\<close> until it is stopped; it stops itself when \<open>_work\<close> is reset and no
  handler is posted and no operation is under way.
\<close>

section \<open>The process\<close>

text \<open>
  The main thread logs in, shows the menu, joins the threads at the end of \<open>run\<close> or in the destructor,
  and ends. An exception in another thread terminates the process.
\<close>

datatype main_phase = Logging_in | In_menu | Joining | Leaving | Ended | Terminated

record 'w client_process =
  cp_client :: "'w client"
  cp_work :: bool
  cp_stopped :: bool
  cp_threads :: nat
  cp_phase :: main_phase

datatype exit_event = Io io_event | Main | Menu_opened | Exit_chosen | Left | Stopped | Thread_ended | Process_ended | Crashed

text \<open>\<open>run\<close> starts as many threads as \<open>hardware_concurrency\<close> says.\<close>

definition start_io_threads :: "nat \<Rightarrow> 'w client \<Rightarrow> 'w client_process" where
  "start_io_threads n s =
     \<lparr>cp_client = s, cp_work = True, cp_stopped = False, cp_threads = n, cp_phase = Logging_in\<rparr>"

definition io_idle :: "'w client \<Rightarrow> bool" where
  "io_idle s \<longleftrightarrow> cl_posted s = [] \<and> cl_writing s = None \<and> \<not> cl_reading s"

definition io_running :: "'w client_process \<Rightarrow> bool" where
  "io_running p \<longleftrightarrow> \<not> cp_stopped p \<and> 0 < cp_threads p"

definition same_io :: "'w client \<Rightarrow> 'w client \<Rightarrow> bool" where
  "same_io s s' \<longleftrightarrow> cl_posted s' = cl_posted s \<and> cl_write_queue s' = cl_write_queue s \<and>
     cl_writing s' = cl_writing s \<and> cl_reading s' = cl_reading s"

text \<open>After the login the first read is started, and the menu opens.\<close>

definition open_menu :: "'w client_process \<Rightarrow> 'w client_process" where
  "open_menu p = p\<lparr>cp_client := (cp_client p)\<lparr>cl_reading := True\<rparr>, cp_phase := In_menu\<rparr>"

text \<open>The interaction with the user returned: \<open>_work\<close> is reset, and the threads are joined.\<close>

definition choose_exit :: "'w client_process \<Rightarrow> 'w client_process" where
  "choose_exit p = p\<lparr>cp_work := False, cp_phase := Joining\<rparr>"

text \<open>\<open>run\<close> returned early, or caught an exception: the destructor stops the service as well.\<close>

definition destroy_client :: "'w client_process \<Rightarrow> 'w client_process" where
  "destroy_client p = p\<lparr>cp_work := False, cp_stopped := True, cp_phase := Leaving\<rparr>"

inductive exit_step ::
    "('j, 'w) client_env \<Rightarrow> 'w client_process \<Rightarrow> exit_event \<Rightarrow> 'w client_process \<Rightarrow> bool" for E where
  step_io: "io_running p \<Longrightarrow> cp_phase p \<in> {Logging_in, In_menu, Joining} \<Longrightarrow>
    client_step E (cp_client p) ev s' \<Longrightarrow> ev \<noteq> Other \<Longrightarrow> exit_step E p (Io ev) (p\<lparr>cp_client := s'\<rparr>)"
| step_crash: "io_running p \<Longrightarrow> cp_phase p \<in> {Logging_in, In_menu, Joining} \<Longrightarrow> cl_reading (cp_client p) \<Longrightarrow>
    cs_read_until (ce_socket E) (cl_net (cp_client p)) = ((t, err), w) \<Longrightarrow>
    handle_async_read E err t ((cp_client p)\<lparr>cl_net := w\<rparr>) = Some (Inl e, s') \<Longrightarrow>
    exit_step E p Crashed (p\<lparr>cp_client := s', cp_phase := Terminated\<rparr>)"
| step_login: "cp_phase p = Logging_in \<Longrightarrow> same_io (cp_client p) s' \<Longrightarrow>
    exit_step E p Main (p\<lparr>cp_client := s'\<rparr>)"
| step_open: "cp_phase p = Logging_in \<Longrightarrow> exit_step E p Menu_opened (open_menu p)"
| step_action: "cp_phase p = In_menu \<Longrightarrow> client_step E (cp_client p) Other s' \<Longrightarrow>
    exit_step E p Main (p\<lparr>cp_client := s'\<rparr>)"
| step_exit: "cp_phase p = In_menu \<Longrightarrow> exit_step E p Exit_chosen (choose_exit p)"
| step_leave: "cp_phase p \<in> {Logging_in, In_menu} \<Longrightarrow> exit_step E p Left (destroy_client p)"
| step_stop: "cp_phase p \<in> {Logging_in, In_menu, Joining} \<Longrightarrow> io_running p \<Longrightarrow> \<not> cp_work p \<Longrightarrow>
    io_idle (cp_client p) \<Longrightarrow> exit_step E p Stopped (p\<lparr>cp_stopped := True\<rparr>)"
| step_thread: "cp_phase p \<in> {Joining, Leaving} \<Longrightarrow> cp_stopped p \<Longrightarrow> cp_threads p = Suc n \<Longrightarrow>
    exit_step E p Thread_ended (p\<lparr>cp_threads := n\<rparr>)"
| step_joined: "cp_phase p \<in> {Joining, Leaving} \<Longrightarrow> cp_threads p = 0 \<Longrightarrow>
    exit_step E p Process_ended (p\<lparr>cp_phase := Ended\<rparr>)"

inductive exit_run ::
    "('j, 'w) client_env \<Rightarrow> 'w client_process \<Rightarrow> exit_event list \<Rightarrow> 'w client_process \<Rightarrow> bool" for E p0 where
  exit_begin: "exit_run E p0 [] p0"
| exit_next: "exit_run E p0 tr p \<Longrightarrow> exit_step E p ev p' \<Longrightarrow> exit_run E p0 (tr @ [ev]) p'"

inductive_cases exit_stepE: "exit_step E p ev p'"

definition read_failed :: "exit_event \<Rightarrow> bool" where
  "read_failed ev \<longleftrightarrow> (\<exists>e. ev = Io (Lost e))"

text \<open>The text of the menu: the actions 3 and 4, which do nothing, are not offered.\<close>

definition show_actions :: "'w client \<Rightarrow> string list" where
  "show_actions s =
     [user_get_nickname (cl_user s) @ '', please select the number of the action you would like to perform now from the list below:'',
      ''0. Send message'', ''1. Get user public keys'', ''2. Share file with chat application'', ''5. Exit'', ''Input: '']"

section \<open>The read under way\<close>

definition reading_is :: "bool \<Rightarrow> 'w client \<Rightarrow> bool" where
  "reading_is b s \<longleftrightarrow> cl_reading s = b"

lemma async_write_reading: "keeps (reading_is b) (async_write E m)"
  unfolding async_write_def by (rule keeps_modify) (simp add: reading_is_def)

lemma dispatch_reading: "keeps (reading_is b) (dispatch_message E message)"
  unfolding dispatch_message_def handle_chunk_acknowledgment_def handle_incoming_file_def
    handle_incoming_file_chunk_def handle_receive_user_public_keys_def handle_receive_aes_key_def Let_def
  by (intro keeps_intros async_write_reading keeps_modify) (auto simp: reading_is_def)

text \<open>A read that gave a text is followed by another one, a read that failed is not.\<close>

lemma read_again: "handle_async_read E None text s = Some (Inr (), s') \<Longrightarrow> cl_reading s'"
  by (cases "process_server_message E text (s\<lparr>cl_reading := False\<rparr>)")
    (auto simp: handle_async_read_def async_read_def act_run act_bind_def split: sum.splits prod.splits)

lemma read_no_more: "handle_async_read E (Some e) text s = Some (r, s') \<Longrightarrow> s' = s\<lparr>cl_reading := False\<rparr>"
  by (auto simp: handle_async_read_def act_run)

lemma step_reading:
  assumes "client_step E s ev s'" "cl_reading s" "\<And>e. ev \<noteq> Lost e"
  shows "cl_reading s'"
  using assms(1)
proof cases
  case (step_call m r)
  then show ?thesis using keepsD [OF async_write_reading [of True E m], of s r s'] assms(2) by (simp add: reading_is_def)
next
  case (step_read t err w)
  then show ?thesis using assms(3) read_again by (cases err) auto
qed (use assms(2) in \<open>auto simp: posted_write_def do_write_def handle_async_write_def Let_def split: list.splits\<close>)

section \<open>The work that is left\<close>

text \<open>A bound on the callbacks that can still run when no read is under way.\<close>

definition io_left :: "'w client \<Rightarrow> nat" where
  "io_left s = 3 * length (cl_posted s) + (if cl_writing s = None then 0 else Suc (length (cl_write_queue s)))"

lemma step_uses_up:
  assumes "client_step E s ev s'" "\<not> cl_reading s" "ev \<noteq> Other"
  shows "\<not> cl_reading s' \<and> io_left s' < io_left s"
  using assms
  by cases (cases "cl_write_queue s",
    auto simp: posted_write_def do_write_def handle_async_write_def io_left_def Let_def split: list.splits if_splits)+

text \<open>Something is left to do, so some callback can run.\<close>

lemma step_possible:
  assumes "\<not> io_idle s" "\<not> cl_reading s"
  shows "\<exists>ev s'. client_step E s ev s' \<and> ev \<noteq> Other"
proof (cases "cl_posted s")
  case (Cons m ms)
  then show ?thesis using client_step.step_posted [of s "[]" m ms E] by auto
next
  case Nil
  then obtain t where t: "cl_writing s = Some t" using assms by (auto simp: io_idle_def)
  obtain r w where written: "cs_write (ce_socket E) t (cl_net s) = (r, w)" by fastforce
  show ?thesis
  proof (cases r)
    case (Inl e)
    then show ?thesis using client_step.step_failed [OF t] written by blast
  next
    case (Inr u)
    then show ?thesis using client_step.step_written [OF t] written by fastforce
  qed
qed


section \<open>Runs\<close>

text \<open>
  What holds in every run: as long as the service is not stopped all threads run; the guard \<open>_work\<close>
  is gone once the main thread joins; a client that leaves has stopped the service.
\<close>

definition exit_ok :: "nat \<Rightarrow> 'w client_process \<Rightarrow> bool" where
  "exit_ok n p \<longleftrightarrow> (\<not> cp_stopped p \<longrightarrow> cp_threads p = n) \<and>
     (cp_phase p \<in> {Logging_in, In_menu} \<longrightarrow> cp_work p \<and> \<not> cp_stopped p) \<and>
     (cp_phase p \<in> {Joining, Leaving} \<longrightarrow> \<not> cp_work p) \<and> (cp_phase p = Leaving \<longrightarrow> cp_stopped p)"

lemmas exit_defs = exit_ok_def open_menu_def choose_exit_def destroy_client_def io_running_def

lemma run_exit_ok:
  assumes "exit_run E (start_io_threads n s) tr p"
  shows "exit_ok n p"
  using assms
proof induction
  case exit_begin
  then show ?case by (simp add: exit_ok_def start_io_threads_def)
next
  case (exit_next tr p ev p')
  from exit_next.hyps(2) exit_next.IH show ?case by cases (auto simp: exit_defs)
qed

lemma run_append:
  assumes "exit_run E p tr' p'" "exit_run E p0 tr p"
  shows "exit_run E p0 (tr @ tr') p'"
  using assms
proof (induction rule: exit_run.induct)
  case (exit_next tr' q ev q')
  then show ?case using exit_run.exit_next [of E p0 "tr @ tr'" q ev q'] by simp
qed simp

text \<open>
  Once the user has chosen to exit, and while no read has failed, the read is under way, so nothing
  stops the threads.
\<close>

definition waiting :: "nat \<Rightarrow> exit_event list \<Rightarrow> 'w client_process \<Rightarrow> bool" where
  "waiting n tr p \<longleftrightarrow>
     (cp_phase p \<in> {In_menu, Joining} \<longrightarrow> cl_reading (cp_client p) \<and> \<not> cp_stopped p \<and> cp_threads p = n) \<and>
     (Exit_chosen \<in> set tr \<longrightarrow> cp_phase p \<in> {Joining, Terminated})"

lemma run_waiting:
  assumes "exit_run E (start_io_threads n s) tr p" "0 < n" "\<not> list_ex read_failed tr"
  shows "waiting n tr p"
  using assms(1,3)
proof induction
  case exit_begin
  then show ?case by (simp add: waiting_def start_io_threads_def)
next
  case (exit_next tr p ev p')
  then have IH: "waiting n tr p" and ev: "\<not> read_failed ev" by simp_all
  have ok: "exit_ok n p" by (rule run_exit_ok [OF exit_next.hyps(1)])
  from exit_next.hyps(2) show ?case
  proof cases
    case (step_io io s')
    then show ?thesis using IH ev step_reading [of E "cp_client p" io s'] by (auto simp: waiting_def read_failed_def)
  next
    case (step_action s')
    then show ?thesis using IH step_reading [of E "cp_client p" Other s'] by (auto simp: waiting_def)
  qed (use IH ok assms(2) in \<open>auto simp: waiting_def exit_defs io_idle_def\<close>)
qed

section \<open>The end of a run\<close>

text \<open>The main thread joins, and no read is left, or the service was stopped: a bound on the steps that are left.\<close>

definition ending :: "'w client_process \<Rightarrow> bool" where
  "ending p \<longleftrightarrow> cp_phase p = Joining \<and> \<not> cl_reading (cp_client p) \<or> cp_phase p = Leaving \<and> cp_stopped p \<or>
     cp_phase p = Ended"

definition steps_left :: "'w client_process \<Rightarrow> nat" where
  "steps_left p = (if cp_phase p = Ended then 0
     else 1 + cp_threads p + (if cp_stopped p then 0 else 1) + io_left (cp_client p))"

lemma ending_step:
  assumes "exit_step E p ev p'" "ending p"
  shows "ending p' \<and> steps_left p' < steps_left p"
  using assms(1)
proof cases
  case (step_io io s')
  then show ?thesis using assms(2) step_uses_up [of E "cp_client p" io s']
    by (auto simp: ending_def steps_left_def io_running_def)
qed (use assms(2) in \<open>auto simp: ending_def steps_left_def io_running_def\<close>)

lemma ending_run:
  assumes "exit_run E p tr p'" "ending p"
  shows "ending p' \<and> length tr + steps_left p' \<le> steps_left p"
  using assms
proof induction
  case (exit_next tr q ev q')
  then show ?case using ending_step [OF exit_next.hyps(2)] by fastforce
qed simp

lemma ending_continues:
  assumes "exit_ok n p" "ending p" "cp_phase p \<noteq> Ended"
  shows "\<exists>ev q. exit_step E p ev q"
proof (cases "cp_threads p")
  case 0
  then show ?thesis using assms exit_step.step_joined [of p E] by (auto simp: ending_def)
next
  case (Suc m)
  show ?thesis
  proof (cases "cp_stopped p")
    case True
    then show ?thesis using Suc assms exit_step.step_thread [of p m E] by (auto simp: ending_def)
  next
    case False
    then have p: "cp_phase p = Joining" "\<not> cl_reading (cp_client p)" "io_running p" "\<not> cp_work p"
      using Suc assms by (auto simp: ending_def exit_ok_def io_running_def)
    show ?thesis
    proof (cases "io_idle (cp_client p)")
      case True
      then show ?thesis using p exit_step.step_stop [of p E] by auto
    next
      case False
      then obtain io s' where "client_step E (cp_client p) io s'" "io \<noteq> Other"
        using step_possible p(2) by blast
      then show ?thesis using p exit_step.step_io [of p E io s'] by auto
    qed
  qed
qed

section \<open>Properties\<close>

text \<open>
  C18: Who chooses to exit waits for the server: the main thread joins the threads, which only end when no
  read is under way, and every text that arrives starts another read. As long as no read has
  failed all threads go on, and the program has not ended, unless an exception of a handler terminated
  it.
\<close>

theorem exit_waits:
  assumes "exit_run E (start_io_threads n s) tr p" "0 < n" "Exit_chosen \<in> set tr" "\<not> list_ex read_failed tr"
  shows "cp_phase p = Terminated \<or>
    cp_phase p = Joining \<and> cp_threads p = n \<and> \<not> cp_stopped p \<and> cl_reading (cp_client p)"
  using run_waiting [OF assms(1,2,4)] assms(3) by (auto simp: waiting_def)

theorem exit_waits_witness:
  "\<exists>p. exit_run (example_env mailbox_socket)
      (start_io_threads 2 (example_client ([], [''{''])  [])) [Menu_opened, Exit_chosen, Io (Received ''{'')] p \<and>
    (cp_phase p = Terminated \<or> cp_phase p = Joining \<and> cp_threads p = 2 \<and> cl_reading (cp_client p))"
proof -
  let ?E = "example_env mailbox_socket"
  define s where "s = example_client ([] :: string list, [''{'']) []"
  define p0 where "p0 = start_io_threads 2 s"
  define p1 where "p1 = choose_exit (open_menu p0)"
  define c where "c = cp_client p1"
  have p1: "io_running p1" "cp_phase p1 = Joining" "cl_reading c" "cl_net c = ([], [''{''])"
    by (simp_all add: p1_def p0_def c_def exit_defs start_io_threads_def s_def example_client_def)
  have p: "exit_step ?E p0 Menu_opened (open_menu p0)" "exit_step ?E (open_menu p0) Exit_chosen p1"
    unfolding p1_def by (rule exit_step.step_open exit_step.step_exit,
      simp add: p0_def start_io_threads_def open_menu_def)+
  have "parse_json example_json ''{'' = Inl Json_parse_error"
    by code_simp
  then obtain s' where "handle_async_read ?E None ''{'' (c\<lparr>cl_net := ([], [])\<rparr>) = Some (Inr (), s')"
    by (auto simp: handle_async_read_def async_read_def process_server_message_def act_run act_bind_def example_env_def)
  then have "client_step ?E c (Received ''{'') s'"
    using client_step.step_read [OF p1(3), of ?E "''{''" None "([], [])" s'] p1(4)
    by (simp add: example_env_def mailbox_socket_def)
  then have last: "exit_step ?E p1 (Io (Received ''{'')) (p1\<lparr>cp_client := s'\<rparr>)"
    unfolding c_def using p1 by (intro exit_step.step_io) simp_all
  have run: "exit_run ?E p0 ((([] @ [Menu_opened]) @ [Exit_chosen]) @ [Io (Received ''{'')]) (p1\<lparr>cp_client := s'\<rparr>)"
    by (intro exit_next [OF _ last] exit_next [OF _ p(2)] exit_next [OF exit_begin p(1)])
  from exit_waits [OF run [unfolded p0_def]] run show ?thesis
    unfolding p0_def s_def by (intro exI [of _ "p1\<lparr>cp_client := s'\<rparr>"]) (auto simp: read_failed_def)
qed

text \<open>
  C19: Once no read is under way, or the client leaves through its destructor, the program ends: no
  run from there is longer than the work that is left, and until the end there is always a step.
\<close>

theorem exit_ends:
  assumes "exit_run E (start_io_threads n s) tr p"
    and "cp_phase p = Joining \<and> \<not> cl_reading (cp_client p) \<or> cp_phase p = Leaving"
    and "exit_run E p tr' p'"
  shows "length tr' \<le> 2 + cp_threads p + io_left (cp_client p) \<and>
    (cp_phase p' = Ended \<or> (\<exists>ev q. exit_step E p' ev q))"
proof -
  have "exit_ok n p" by (rule run_exit_ok [OF assms(1)])
  then have p: "ending p" using assms(2) by (auto simp: ending_def exit_ok_def)
  have p': "exit_ok n p'" by (rule run_exit_ok [OF run_append [OF assms(3,1)]])
  have "length tr' \<le> 2 + cp_threads p + io_left (cp_client p)"
    using ending_run [OF assms(3) p] by (simp add: steps_left_def split: if_splits)
  then show ?thesis using ending_run [OF assms(3) p] ending_continues [OF p'] by blast
qed

theorem exit_ends_witness:
  "\<exists>p p'. exit_run (example_env mailbox_socket) (start_io_threads 1 (example_client ([], []) []))
      [Menu_opened, Exit_chosen, Io (Lost Eof)] p \<and>
    exit_run (example_env mailbox_socket) p [Stopped, Thread_ended, Process_ended] p' \<and>
    cp_phase p' = Ended \<and> length [Stopped, Thread_ended, Process_ended] \<le> 2 + cp_threads p + io_left (cp_client p)"
proof -
  let ?E = "example_env mailbox_socket"
  define s where "s = example_client ([] :: string list, [] :: string list) []"
  define p0 where "p0 = start_io_threads 1 s"
  define p1 where "p1 = choose_exit (open_menu p0)"
  define c where "c = (cp_client p1)\<lparr>cl_reading := False\<rparr>"
  define p where "p = p1\<lparr>cp_client := c\<rparr>"
  have p1: "io_running p1" "cp_phase p1 = Joining" "cl_reading (cp_client p1)" "cl_net (cp_client p1) = ([], [])"
    "cl_posted c = []" "cl_writing c = None" "\<not> cp_work p1" "cp_threads p1 = 1"
    by (simp_all add: p1_def p0_def c_def exit_defs start_io_threads_def s_def example_client_def)
  have st: "exit_step ?E p0 Menu_opened (open_menu p0)" "exit_step ?E (open_menu p0) Exit_chosen p1"
    unfolding p1_def by (rule exit_step.step_open exit_step.step_exit,
      simp add: p0_def start_io_threads_def open_menu_def)+
  have "client_step ?E (cp_client p1) (Lost Eof) c"
    using client_step.step_read [OF p1(3), of ?E "[]" "Some Eof" "([], [])" c] p1(4)
    by (simp add: example_env_def mailbox_socket_def handle_async_read_def act_run c_def)
  then have last: "exit_step ?E p1 (Io (Lost Eof)) p"
    unfolding p_def using p1 by (intro exit_step.step_io) simp_all
  have run: "exit_run ?E p0 ((([] @ [Menu_opened]) @ [Exit_chosen]) @ [Io (Lost Eof)]) p"
    by (intro exit_next [OF _ last] exit_next [OF _ st(2)] exit_next [OF exit_begin st(1)])
  let ?q = "p\<lparr>cp_stopped := True\<rparr>" and ?q' = "p\<lparr>cp_stopped := True, cp_threads := 0\<rparr>"
  have "exit_step ?E p Stopped ?q" "exit_step ?E ?q Thread_ended ?q'" "exit_step ?E ?q' Process_ended (?q'\<lparr>cp_phase := Ended\<rparr>)"
    using exit_step.step_stop [of p ?E] exit_step.step_thread [of ?q 0 ?E] exit_step.step_joined [of ?q' ?E] p1
    by (simp_all add: p_def c_def io_running_def io_idle_def)
  then have run': "exit_run ?E p ((([] @ [Stopped]) @ [Thread_ended]) @ [Process_ended]) (?q'\<lparr>cp_phase := Ended\<rparr>)"
    by (intro exit_next [OF exit_next [OF exit_next [OF exit_begin]]])
  have "cp_phase p = Joining \<and> \<not> cl_reading (cp_client p) \<or> cp_phase p = Leaving"
    using p1 by (simp add: p_def c_def)
  from exit_ends [OF run [unfolded p0_def] this run'] run run' show ?thesis
    unfolding p0_def s_def by (intro exI [of _ p] exI [of _ "?q'\<lparr>cp_phase := Ended\<rparr>"]) simp
qed

end
