(* ===== verification/Debug_Log.thy ===== *)
theory Debug_Log
  imports Calendar
begin

text \<open>
  \<open>common/src/debug.cpp\<close> and the macros of \<open>common/include/debug.hpp\<close>: the lines that the programs write
  to the terminal. The time zone and the end points of a socket are arguments.
\<close>

section \<open>Time stamp and socket\<close>

definition line_end :: char where
  "line_end = CHR 0x0A"

definition get_current_timestamp :: "(int \<Rightarrow> tm) \<Rightarrow> i64 \<Rightarrow> string" where
  "get_current_timestamp localtime now = put_time (localtime (sint now sdiv 1000000000))"

text \<open>
  An end point is its address and its port, or the text of the \<open>system_error\<close>, on a socket that is not
  open for instance. What was written before the exception stays.
\<close>

definition get_socket_info :: "string + (string \<times> 16 word) \<Rightarrow> string + (string \<times> 16 word) \<Rightarrow> string" where
  "get_socket_info local_endpoint remote_endpoint =
     (let error = (\<lambda>e. ''Error: '' @ e @ [line_end]) in
      case local_endpoint of
        Inl e \<Rightarrow> error e
      | Inr (address, port) \<Rightarrow>
          ''Local IP: '' @ address @ '', Local Port: '' @ to_string (uint port) @ '' '' @
          (case remote_endpoint of
             Inl e \<Rightarrow> error e
           | Inr (address, port) \<Rightarrow>
               ''Remote IP: '' @ address @ '', Remote Port: '' @ to_string (uint port) @ [line_end]))"

section \<open>Lines\<close>

datatype log_level = Debug_level | Info_level | Warn_level | Error_level | Fatal_level

definition escape :: "string \<Rightarrow> string" where
  "escape code = CHR 0x1B # ''['' @ code @ ''m''"

definition log_color :: "log_level \<Rightarrow> string" where
  "log_color level =
     (case level of
        Debug_level \<Rightarrow> escape ''90''
      | Info_level \<Rightarrow> []
      | Warn_level \<Rightarrow> escape ''38;5;208''
      | Error_level \<Rightarrow> escape ''31''
      | Fatal_level \<Rightarrow> escape ''31'')"

definition log_name :: "log_level \<Rightarrow> string" where
  "log_name level =
     (case level of
        Debug_level \<Rightarrow> ''DEBUG''
      | Info_level \<Rightarrow> ''INFO''
      | Warn_level \<Rightarrow> ''WARN''
      | Error_level \<Rightarrow> ''ERROR''
      | Fatal_level \<Rightarrow> ''FATAL'')"

text \<open>Lines for debugging exist in programs compiled with \<open>DEBUG_LEVEL\<close> 1; lines for information have no colour.\<close>

definition log_line :: "nat \<Rightarrow> (int \<Rightarrow> tm) \<Rightarrow> i64 \<Rightarrow> log_level \<Rightarrow> string \<Rightarrow> string" where
  "log_line debug_level localtime now level msg =
     (if level = Debug_level \<and> debug_level \<noteq> 1 then []
      else log_color level @ ''['' @ log_name level @ ''] ['' @ get_current_timestamp localtime now @ ''] '' @ msg @
        (if level = Info_level then [] else escape ''0'') @ [line_end])"

text \<open>
  Unlike the time stamps of the database these are read back as the second that was written: \<open>mktime\<close>
  inverts \<open>localtime\<close>.
\<close>

lemma log_stamp_read:
  assumes "mktime (localtime (sint now sdiv 1000000000)) = sint now sdiv 1000000000"
    and "calendar_tm (localtime (sint now sdiv 1000000000))"
  shows "parse_timestamp mktime (get_current_timestamp localtime now) =
    word_of_int (sint now sdiv 1000000000 * 1000000000)"
  by (simp add: parse_timestamp_def get_current_timestamp_def get_put_time assms)

lemma log_in_utc:
  "parse_timestamp timegm (get_current_timestamp gmtime now) = word_of_int (sint now sdiv 1000000000 * 1000000000)"
  by (rule log_stamp_read) (simp_all add: timegm_gmtime gmtime_calendar seconds_range)

lemma log_example:
  "log_line 0 gmtime 0 Warn_level ''x'' =
     CHR 0x1B # ''[38;5;208m[WARN] [1970-01-01 00:00:00] x'' @ CHR 0x1B # ''[0m'' @ [line_end]"
  "log_line 0 gmtime 0 Debug_level ''x'' = []"
  by code_simp+

end
