(* ===== verification/Programs.thy ===== *)
theory Programs
  imports Login Server_Process
begin

text \<open>
  The programs: \<open>client/main.cpp\<close> and \<open>file_server/file_server_main.cpp\<close>; the configuration in
  \<open>server/main.cpp\<close> is \<open>main_config\<close> in \<open>Server_Process\<close>.
\<close>

section \<open>The client\<close>

text \<open>
  The first line of the terminal is the nickname. An exception of the constructor ends the program;
  \<open>run\<close> catches its own.
\<close>

definition client_main ::
    "('j, 'w) client_env \<Rightarrow> bool \<Rightarrow> 'w \<Rightarrow> string list \<Rightarrow> (string \<Rightarrow> string option) \<Rightarrow> nat \<Rightarrow> 'w client comp" where
  "client_main E indeterminate w input disk k =
     (let (nickname, input) = (case input of [] \<Rightarrow> ([], []) | l # ls \<Rightarrow> (l, ls)) in
      cbind (client_new E indeterminate ''127.0.0.1'' 55555 nickname w input disk k) (\<lambda>client.
        case run E client of
          None \<Rightarrow> None
        | Some (r, client) \<Rightarrow> lift_result (rbind r (\<lambda>_. Inr client))))"

section \<open>The file server\<close>

text \<open>Its port, the number of its threads and the server.\<close>

definition file_server_main :: "string \<Rightarrow> (string \<Rightarrow> string option) \<Rightarrow> 16 word \<times> u32 \<times> file_server" where
  "file_server_main source_dir files =
     (9080, 16, file_server_new (source_dir @ ''/file_server/media_file_system/'') (1024 * 1024 * 10) files)"

section \<open>How they fit together\<close>

text \<open>The client finds the chat server; the chat server looks for the file server on another port.\<close>

lemma ports:
  "server_port main_config = 55555"
  "file_server_port main_config \<noteq> to_string (uint (fst (file_server_main source_dir files)))"
proof -
  have "to_string (uint (9080 :: 16 word)) = ''9080''"
    by (simp add: to_string_def nat_digits.simps digit_char_def) code_simp
  then show "file_server_port main_config \<noteq> to_string (uint (fst (file_server_main source_dir files)))"
    by (simp add: main_config_def file_server_main_def)
qed (simp add: main_config_def)

end
