(* ===== verification/Spec2Isabelle.thy ===== *)
theory Spec2Isabelle
  imports Aes_Text Sha256 Dsa Entities Clients Hybrid Message_Repos File_Server File_Client Redis_Config
    Server_Process Client_Session End_To_End Key_Exchange Login Message_Delivery Protocol Own_Requests
    Pending_Transfers Client_Exit Debug_Log Programs
begin

text \<open>
  A model of \<open>silence\<close>, a chat program in C++: a terminal client, a chat server and a file server,
  over a library of value classes and a library of cryptography. All paths are under \<open>src/\<close>.

  \<^bold>\<open>The program.\<close> A client (\<open>client/src/client.cpp\<close>) holds one connection to the chat server. It
  first registers and authorizes in blocking calls; then the main thread reads commands of the user,
  and the threads of an \<open>io_service\<close> read what the server sends and write what the main thread and the
  handlers posted, through a queue with one write under way. The server (\<open>server/src/server.cpp\<close>)
  accepts connections and gives each one to a thread, which runs the loop \<open>handle_request\<close> of
  \<open>server/src/request_handler.cpp\<close> on it: a line of json is read, dispatched on its type, and answered.
  The handlers share the connected clients, the pending file transfers and the states of the uploads,
  and reach the databases and the file server through \<open>server/src/repository_manager.cpp\<close>: users and
  message metadata in PostgreSQL, message texts in Redis, files by HTTP
  (\<open>file_server/src/file_server_client.cpp\<close>) on the file server (\<open>file_server/src/file_server.cpp\<close>).
  Files travel in chunks of 512 bytes. Each client has an ElGamal and a DSA key pair
  (\<open>crypto/src/hybrid_crypto_system.cpp\<close>), meant to exchange AES keys.

  \<^bold>\<open>Theories and sources.\<close>
  \<^item> Shared: \<open>Prelude\<close> (machine types, exceptions, computations), \<open>Actions\<close> (handlers as actions on a
    state, the rules that carry an invariant through an action), \<open>Number_Facts\<close>, \<open>Text_Format\<close>
    (\<open>std::to_string\<close>), \<open>Calendar\<close> (\<open>std::put_time\<close> and \<open>std::get_time\<close>, the time stamps of the
    repositories), \<open>Std_Map\<close> (\<open>std::map\<close> as an ordered list, with its contract
    as a locale), \<open>Json_Lib\<close> (nlohmann::json as a record of operations with laws) and \<open>Json_Example\<close>
    (an instance of it for the witnesses).
  \<^item> \<open>crypto/src\<close>: \<open>Aes_Field\<close>, \<open>Aes256\<close> and \<open>Aes_Text\<close> (\<open>aes256.cpp\<close>), \<open>Sha256\<close>
    (\<open>sha256.cpp\<close>), \<open>Fips180\<close> (SHA-256 as the standard defines it, apart from the code), \<open>Crypto_Utils\<close> (\<open>crypto_utils.cpp\<close>), \<open>El_Gamal\<close>, \<open>Dsa\<close>, \<open>Hybrid\<close>, \<open>User_Keys\<close>.
  \<^item> \<open>common/src\<close>: \<open>Entities\<close> (the value classes) and \<open>Debug_Log\<close> (\<open>debug.cpp\<close>, the log lines).
  \<^item> \<open>server/src\<close>: \<open>Clients\<close> (\<open>connected_clients_manager.cpp\<close>), \<open>Database\<close>
    (\<open>postgres_db_manager.cpp\<close>), \<open>User_Repo\<close>, \<open>Message_Repos\<close> and \<open>Redis_Config\<close> (the
    repositories), \<open>Repo_Manager\<close>, \<open>Request_Handler\<close>, and \<open>Server_Process\<close> (\<open>server.cpp\<close>).
    The records \<open>repo_manager\<close>, \<open>handler\<close> and \<open>server_process\<close> are the members of the classes
    \<open>RepositoryManager\<close>, \<open>RequestHandler\<close> and \<open>Server\<close>.
  \<^item> \<open>file_server/src\<close>: \<open>File_Server\<close> and \<open>File_Client\<close>.
  \<^item> \<open>client/src\<close>: \<open>Client_State\<close> (the members of \<open>Client\<close> as the record \<open>client\<close>, saved user data),
    \<open>Client_App\<close> (its operations), \<open>Client_Async\<close> (its threads as a step relation), \<open>Client_Exit\<close> (how
    the process starts its threads and ends).
  \<^item> Across components: \<open>File_Transfer\<close> and \<open>Server_Sessions\<close> (runs of the handlers), \<open>Client_Files\<close>
    and \<open>Client_Session\<close> (runs of the client), \<open>End_To_End\<close> (a file from a client to the file server, and its delivery),
    \<open>Key_Exchange\<close>, \<open>Login\<close> (a client registers and authorizes with the server), \<open>Message_Delivery\<close> (a
    text message from client to client), \<open>Protocol\<close> (everything that the server writes), \<open>Own_Requests\<close> (what
    the client sends, against the handlers), \<open>Pending_Transfers\<close> (a file for a receiver who is not
    connected), \<open>Programs\<close> (the \<open>main\<close> functions of the client and of the
    file server).
\<close>

text \<open>
  \<^bold>\<open>What the theorems show.\<close>
  \<^item> Files: the server stores chunks in the order of their numbers and refuses all others. A file
    gets from the disk of its sender to the file server unchanged, one chunk after each acknowledgement;
    when its size is a multiple of 512, no chunk is marked as the last and the transfer stays pending
    for ever. So does the transfer to a receiver who is not connected when the last chunk arrives,
    whatever arrives later, unless the name is announced again. With a connected receiver the last chunk
    is delivered and then ends in undefined behaviour, because a log line reads the erased transfer; a
    client that is sent a file stores exactly its bytes. A file that is sent again is appended to the
    stored one. A file server whose limit is at least 512 bytes keeps no file above it; it never removes
    a file on request, and accepts the names that clients generate.
  \<^item> Connections: only an \<open>authorize\<close> request with the data of a stored row changes who is connected;
    in every run those connected are rows of the user table; what a message makes the server write;
    the loop on a connection handles every text once and returns when the client closes it, and never
    after another read error. The process, with its queue, accepts, timers and threads, implements
    sessions that are served in the order accepted, each by one thread on its own socket; it keeps
    exactly one accept pending, stalls when every thread serves a connection, and ends on a request with
    a field of the wrong type. Whatever it receives, it writes only messages that a client processes
    without an exception. With sockets that accept every write, no request of this client, apart from
    those about keys and the last chunk for a connected receiver, makes a handler throw.
  \<^item> Client and server: a client that counts as registered has its own row in the user table, and one
    that does not has left everything as it was, unless a commit that was reported as failed was carried
    out; a client is authorized exactly when the server has connected it; it authorizes with the password
    that it registered and no other; a text message that was delivered changes nothing in any client,
    since none has a case for it.
  \<^item> Clients: messages are written in the order in which they were queued; after a failed asynchronous
    write nothing that is queued is written any more (the one menu action that writes synchronously
    bypasses the queue); the login loops return for every input, the loop of the menu does not at the end
    of the input; saved user data is loaded by the next client; who chooses to exit waits until a read
    fails, and without a read under way, or through the destructor, the client ends within a bound of
    steps; no AES key is ever exchanged.
  \<^item> Databases: creating, reading and authorizing users and storing their keys against a table
    semantics of the statements, the connection string of Redis, the set of keys as a refinement of a
    partial function; time stamps come back moved by the time zone of the server.
  \<^item> Cryptography: AES-256 inverts itself on blocks and on padded texts and its key schedule is that of
    FIPS 197; SHA-256 agrees with FIPS 180-4 for lengths below 56 modulo 64 and collides beyond. Both
    references are definitions of their own: inverses in the field and powers of \<open>x\<close>, roots of primes,
    schedule and padding, with no table, constant or function of the code. ElGamal and DSA are correct for
    the parties that use them (the hybrid class reaches ElGamal encryption only through a null pointer); the Miller-Rabin loop is the strong test, and the
    primality test accepts primes and is exact below 1681.

  \<^bold>\<open>Parameters.\<close> Libraries and services are records of functions over a type of their states: json
  (\<open>json_laws\<close>, \<open>dump_laws\<close>, \<open>wire_laws\<close>: fields are read back, a dumped value is one line that
  parses to the value), hex streams (\<open>hex_laws\<close>), PostgreSQL (\<open>pg_user_laws\<close>: the statements of the user repository on a table; a commit that fails
  may have been carried out, as libpqxx documents with \<open>in_doubt_error\<close>),
  Redis (\<open>redis_laws\<close>), the HTTP client (\<open>http_uploads\<close>: an upload arrives at the modelled file server and its one response
  comes back; nothing is assumed of a download, for which the file server sends several responses to one
  request, and about which its source warns; a read takes the buffer and the body of the message, as in
  Beast, and gives both back),
  sockets (\<open>sends_all\<close>, \<open>inbox_law\<close>), the time zone (\<open>mktime\<close>), the file system (\<open>willing\<close>), the order in which the server
  acknowledges (\<open>waits_ok\<close>). Each law is a hypothesis where it is used, and each property with such a
  hypothesis has a witness on concrete functions. The random device and the generator behind it are
  a stream of numbers and a position in it.

  \<^bold>\<open>Bounds and termination.\<close> Integers have the width of the source (\<open>i32\<close>, \<open>u64\<close>); \<open>cpp_int\<close> is
  \<open>int\<close>. No loop has fuel: loops that may run for ever (\<open>handle_request\<close>, the loops of the menu and
  of the login, drawing random numbers, downloading) are \<open>partial_function (option)\<close>, so that
  \<open>None\<close> is not returning; the number of rounds of the primality test is its argument.

  \<^bold>\<open>Concurrency.\<close> The threads of the client are interleaved handler by handler, those of the server
  round by round: two handlers never run at the same moment, so data races on the members without a
  mutex are outside the model, and the mutexes need no state.

  \<^bold>\<open>Not modelled.\<close> That the components write log lines (their form is in \<open>Debug_Log\<close>), except where
  the argument of a log line of level INFO or above can throw (\<open>DEBUG_MSG\<close> is nothing in the default
  build, \<open>DEBUG_LEVEL=0\<close>); what the client prints for its user, apart from the menu;
  \<open>file_server_client_main.cpp\<close>, which only constructs a client; tests, build
  files and database scripts.
\<close>

end
